(* ===== verification/Prelude.thy ===== *)
theory Prelude
  imports Main "HOL-Library.Word" "HOL-Library.Signed_Division"
begin

unbundle bit_operations_syntax

text \<open>
  Shared vocabulary of the development: the C integer types of \<open>src/source/comm/types.h\<close>,
  the 32-bit address space, bit-vector lemmas for the packed descriptors of the CPU and
  the list lemmas that the intrusive lists of the kernel need.

  Conventions.  An unsigned C integer is a word of its width and wraps around.  A C \<open>int\<close> is an
  \<open>int\<close>: signed overflow is undefined in C, so no wrap-around is modelled for it, and every
  conversion from an unsigned value is written with \<open>sint\<close>.  C division truncates towards zero,
  which is \<open>sdiv\<close> and \<open>smod\<close> on \<open>int\<close>.
\<close>

section \<open>Machine types\<close>

type_synonym uint8_t = "8 word"
type_synonym uint16_t = "16 word"
type_synonym uint32_t = "32 word"

type_synonym addr = "32 word"
type_synonym mem = "addr \<Rightarrow> uint8_t"

abbreviation NULL :: addr where
  "NULL \<equiv> 0"

text \<open>The facts that unfold the kernel's operations, and those that describe their effects.\<close>

named_theorems kernel_defs \<open>definitions of the operations of the kernel\<close>
named_theorems frame_simps \<open>parts of the state that an operation leaves alone\<close>

section \<open>End points of a list of nodes\<close>

text \<open>
  The first element of a list, or a default: what a pointer to the head of a chain holds.
  Dually the last one, seen from the node in front of the chain.
\<close>

definition hdq :: "'a list \<Rightarrow> 'a \<Rightarrow> 'a" where
  "hdq xs q = (case xs of [] \<Rightarrow> q | x # _ \<Rightarrow> x)"

definition lastp :: "'a \<Rightarrow> 'a list \<Rightarrow> 'a" where
  "lastp p xs = (if xs = [] then p else last xs)"

lemma hdq_simps [simp]: "hdq [] q = q" "hdq (x # xs) q = x"
  by (simp_all add: hdq_def)

lemma lastp_simps [simp]: "lastp p [] = p" "lastp p (x # xs) = lastp x xs"
  by (simp_all add: lastp_def)

lemma hdq_append [simp]: "hdq (xs @ ys) q = hdq xs (hdq ys q)"
  by (cases xs) simp_all

lemma lastp_append [simp]: "lastp p (xs @ ys) = lastp (lastp p xs) ys"
  by (induction xs arbitrary: p) simp_all

lemma hdq_in [intro]: "xs \<noteq> [] \<Longrightarrow> hdq xs q \<in> set xs"
  by (cases xs) simp_all

lemma lastp_in [intro]: "xs \<noteq> [] \<Longrightarrow> lastp p xs \<in> set xs"
  by (simp add: lastp_def)

lemma hdq_cases: "hdq xs q = q \<or> hdq xs q \<in> set xs"
  by (cases xs) simp_all

lemma lastp_cases: "lastp p xs = p \<or> lastp p xs \<in> set xs"
  by (simp add: lastp_def)

lemma hdq_eq_iff: "a \<notin> set xs \<Longrightarrow> hdq xs q = a \<longleftrightarrow> xs = [] \<and> q = a"
  by (cases xs) auto

lemma lastp_eq_iff: "a \<notin> set xs \<Longrightarrow> lastp p xs = a \<longleftrightarrow> xs = [] \<and> p = a"
  by (auto simp: lastp_def)

lemma remove1_split: "n \<notin> set xs \<Longrightarrow> remove1 n (xs @ n # ys) = xs @ ys"
  by (simp add: remove1_append)

section \<open>Words\<close>

lemma add_left_cancel_word [simp]: "(a::'a::len word) + c = b + c \<longleftrightarrow> a = b"
  by simp

text \<open>The bit masks of the source, as \<open>mask\<close>, so that \<open>bit_simps\<close> applies to them.\<close>

lemma mask_consts:
  "(0xf :: 'a::len word) = mask 4" "(0xff :: 'a::len word) = mask 8"
  "(0x3ff :: 'a::len word) = mask 10" "(0xfff :: 'a::len word) = mask 12"
  "(0xffff :: 'a::len word) = mask 16" "(0xfffff :: 'a::len word) = mask 20"
  by (simp_all add: mask_eq_exp_minus_1)

lemma of_nat_inj_u32: "i < 2 ^ 32 \<Longrightarrow> j < 2 ^ 32 \<Longrightarrow> (of_nat i :: uint32_t) = of_nat j \<longleftrightarrow> i = j"
  by (simp add: word_of_nat_eq_iff take_bit_nat_eq_self)

section \<open>Shifts\<close>

text \<open>\<open>1 << n\<close> on \<open>int\<close>, defined for amounts within the width.\<close>

definition shl1 :: "int \<Rightarrow> int option" where
  "shl1 n = (if 0 \<le> n \<and> n < 32 then Some (push_bit (nat n) 1) else None)"

end
