(* ===== verification/Node_Queue.thy ===== *)
theory Node_Queue
  imports Prelude
begin

text \<open>
  The interface that the scheduler and the synchronisation objects use of an intrusive list: queues of
  nodes that share one heap.  \<open>rep h l xs\<close> says that header \<open>l\<close> represents the sequence \<open>xs\<close> in heap \<open>h\<close>.
  The provider promises the effect of each operation on the sequence it is applied to, and that the
  sequences of other headers are unaffected when they share no node with it.  From these laws the
  locale derives what the kernel does with its queues: rotating the head to the tail, moving a node
  from one queue to another, and keeping a whole family of disjoint queues intact.
\<close>

locale node_queue =
  fixes rep :: "'h \<Rightarrow> 'l \<Rightarrow> 'n list \<Rightarrow> bool"
    and null :: 'n
    and empty_list :: 'l
    and insert_last :: "'l \<Rightarrow> 'n \<Rightarrow> 'h \<Rightarrow> 'l \<times> 'h"
    and remove_first :: "'l \<Rightarrow> 'h \<Rightarrow> 'n \<times> 'l \<times> 'h"
    and remove :: "'l \<Rightarrow> 'n \<Rightarrow> 'h \<Rightarrow> 'n \<times> 'l \<times> 'h"
    and count :: "'l \<Rightarrow> int"
    and first_of :: "'l \<Rightarrow> 'n"
  assumes rep_empty: "rep h empty_list []"
    and rep_distinct: "rep h l xs \<Longrightarrow> distinct xs \<and> null \<notin> set xs"
    and rep_count: "rep h l xs \<Longrightarrow> count l = int (length xs)"
    and rep_first: "rep h l xs \<Longrightarrow> first_of l = hdq xs null"
    and rep_insert_last:
      "rep h l xs \<Longrightarrow> n \<notin> set xs \<Longrightarrow> n \<noteq> null \<Longrightarrow> insert_last l n h = (l', h') \<Longrightarrow> rep h' l' (xs @ [n])"
    and rep_remove:
      "rep h l (xs @ n # ys) \<Longrightarrow> remove l n h = (r, l', h') \<Longrightarrow> r = n \<and> rep h' l' (xs @ ys)"
    and rep_remove_first:
      "rep h l (x # xs) \<Longrightarrow> remove_first l h = (r, l', h') \<Longrightarrow> r = x \<and> rep h' l' xs"
    and frame_insert_last:
      "rep h l xs \<Longrightarrow> insert_last l n h = (l', h') \<Longrightarrow> rep h m ys \<Longrightarrow> set ys \<inter> insert n (set xs) = {} \<Longrightarrow>
       rep h' m ys"
    and frame_remove:
      "rep h l xs \<Longrightarrow> n \<in> set xs \<Longrightarrow> remove l n h = (r, l', h') \<Longrightarrow> rep h m ys \<Longrightarrow> set ys \<inter> set xs = {} \<Longrightarrow>
       rep h' m ys"
    and frame_remove_first:
      "rep h l xs \<Longrightarrow> remove_first l h = (r, l', h') \<Longrightarrow> rep h m ys \<Longrightarrow> set ys \<inter> set xs = {} \<Longrightarrow>
       rep h' m ys"
begin

lemma rotate:
  assumes "rep h l (x # xs)" and "remove l x h = (r, l1, h1)" and "insert_last l1 x h1 = (l2, h2)"
  shows "rep h2 l2 (xs @ [x])"
proof -
  from rep_remove [of h l "[]" x xs] assms(1,2) have "rep h1 l1 xs" by simp
  moreover from rep_distinct [OF assms(1)] have "x \<notin> set xs" and "x \<noteq> null" by auto
  ultimately show ?thesis using assms(3) by (rule rep_insert_last)
qed

lemma move:
  assumes "rep h l (us @ x # vs)" and "rep h m ys" and "set ys \<inter> set (us @ x # vs) = {}"
    and "remove l x h = (r, l1, h1)" and "insert_last m x h1 = (m1, h2)"
  shows "rep h2 l1 (us @ vs) \<and> rep h2 m1 (ys @ [x])"
proof -
  from rep_distinct [OF assms(1)] have d: "x \<notin> set (us @ vs)" "x \<noteq> null" by auto
  have l1: "rep h1 l1 (us @ vs)" using rep_remove [OF assms(1,4)] by simp
  have m: "rep h1 m ys"
    by (rule frame_remove [OF assms(1) _ assms(4,2,3)]) simp
  have "rep h2 m1 (ys @ [x])"
    using assms(3,5) d m by (intro rep_insert_last) auto
  moreover have "rep h2 l1 (us @ vs)"
    using assms(3) d by (intro frame_insert_last [OF m assms(5) l1]) auto
  ultimately show ?thesis by simp
qed

text \<open>
  A family of queues, indexed by \<open>'q\<close>, whose elements are objects of type \<open>'o\<close> linked through the node
  \<open>node_of q\<close>: changing one queue keeps all others, as long as no node is in two of them.
\<close>

lemma family_insert:
  assumes "\<forall>q. rep h (ls q) (map (node_of q) (a q))"
    and "node_of q0 t \<noteq> null"
    and "\<forall>q. \<forall>u\<in>set (a q). node_of q0 t \<noteq> node_of q u"
    and "\<forall>q. q \<noteq> q0 \<longrightarrow> (\<forall>t\<in>set (a q). \<forall>u\<in>set (a q0). node_of q t \<noteq> node_of q0 u)"
    and "insert_last (ls q0) (node_of q0 t) h = (l', h')"
  shows "\<forall>q. rep h' ((ls(q0 := l')) q) (map (node_of q) ((a(q0 := a q0 @ [t])) q))"
proof
  fix q
  have l0: "rep h (ls q0) (map (node_of q0) (a q0))" using assms(1) by simp
  show "rep h' ((ls(q0 := l')) q) (map (node_of q) ((a(q0 := a q0 @ [t])) q))"
  proof (cases "q = q0")
    case True
    have "rep h' l' (map (node_of q0) (a q0) @ [node_of q0 t])"
      using l0 assms(2,3,5) by (intro rep_insert_last) auto
    with True show ?thesis by simp
  next
    case False
    have "rep h' (ls q) (map (node_of q) (a q))"
      using assms False by (intro frame_insert_last [OF l0 assms(5)]) auto
    with False show ?thesis by simp
  qed
qed

lemma family_remove:
  assumes "\<forall>q. rep h (ls q) (map (node_of q) (a q))" and "a q0 = us @ t # vs"
    and "\<forall>q. q \<noteq> q0 \<longrightarrow> (\<forall>t\<in>set (a q). \<forall>u\<in>set (a q0). node_of q t \<noteq> node_of q0 u)"
    and "remove (ls q0) (node_of q0 t) h = (r, l', h')"
  shows "\<forall>q. rep h' ((ls(q0 := l')) q) (map (node_of q) ((a(q0 := us @ vs)) q))"
proof
  fix q
  have l0: "rep h (ls q0) (map (node_of q0) us @ node_of q0 t # map (node_of q0) vs)"
    using assms(1,2) by (metis list.simps(9) map_append)
  show "rep h' ((ls(q0 := l')) q) (map (node_of q) ((a(q0 := us @ vs)) q))"
  proof (cases "q = q0")
    case True
    then show ?thesis using rep_remove [OF l0 assms(4)] by simp
  next
    case False
    have "rep h' (ls q) (map (node_of q) (a q))"
    proof (rule frame_remove [OF l0 _ assms(4)])
      show "rep h (ls q) (map (node_of q) (a q))" using assms(1) by simp
      show "set (map (node_of q) (a q)) \<inter>
          set (map (node_of q0) us @ node_of q0 t # map (node_of q0) vs) = {}"
        using assms(3) [THEN spec, THEN mp, OF False] unfolding assms(2) by (fastforce simp: disjoint_iff)
    qed simp
    with False show ?thesis by simp
  qed
qed

lemma family_remove_first:
  assumes "\<forall>q. rep h (ls q) (map (node_of q) (a q))" and "a q0 = t # vs"
    and "\<forall>q. q \<noteq> q0 \<longrightarrow> (\<forall>t\<in>set (a q). \<forall>u\<in>set (a q0). node_of q t \<noteq> node_of q0 u)"
    and "remove_first (ls q0) h = (r, l', h')"
  shows "r = node_of q0 t" and "\<forall>q. rep h' ((ls(q0 := l')) q) (map (node_of q) ((a(q0 := vs)) q))"
proof -
  have l0: "rep h (ls q0) (node_of q0 t # map (node_of q0) vs)"
    using assms(1,2) by (metis list.simps(9))
  show "r = node_of q0 t" using rep_remove_first [OF l0 assms(4)] by simp
  show "\<forall>q. rep h' ((ls(q0 := l')) q) (map (node_of q) ((a(q0 := vs)) q))"
  proof
    fix q
    show "rep h' ((ls(q0 := l')) q) (map (node_of q) ((a(q0 := vs)) q))"
    proof (cases "q = q0")
      case True
      then show ?thesis using rep_remove_first [OF l0 assms(4)] by simp
    next
      case False
      have "rep h' (ls q) (map (node_of q) (a q))"
      proof (rule frame_remove_first [OF l0 assms(4)])
        show "rep h (ls q) (map (node_of q) (a q))" using assms(1) by simp
        show "set (map (node_of q) (a q)) \<inter> set (node_of q0 t # map (node_of q0) vs) = {}"
          using assms(3) [THEN spec, THEN mp, OF False] unfolding assms(2) by (fastforce simp: disjoint_iff)
      qed
      with False show ?thesis by simp
    qed
  qed
qed

end

end
