(* ===== verification/Klist.thy ===== *)
theory Klist
  imports Node_Queue
begin

text \<open>
  The intrusive doubly linked list of \<open>src/source/kernel/tools/list.c\<close> and \<open>list.h\<close>.  Nodes live in a
  heap indexed by their address; a list header is a value of its own.  Every operation takes the
  header, the node and the heap and returns the header and the heap it leaves, one assignment of
  the source after the other.  \<open>dll h l xs\<close> says that the header \<open>l\<close> and the heap \<open>h\<close> represent the
  sequence \<open>xs\<close> of node addresses; the lemmas show each operation on that sequence, and that it
  touches no node outside it.
\<close>

section \<open>Nodes, headers and the operations\<close>

record list_node_t =
  node_pre :: addr
  node_next :: addr

record list_t =
  lfirst :: addr
  llast :: addr
  lcount :: int

type_synonym heap = "addr \<Rightarrow> list_node_t"

definition set_pre :: "addr \<Rightarrow> addr \<Rightarrow> heap \<Rightarrow> heap" where
  "set_pre a v h = h(a := (h a)\<lparr>node_pre := v\<rparr>)"

definition set_next :: "addr \<Rightarrow> addr \<Rightarrow> heap \<Rightarrow> heap" where
  "set_next a v h = h(a := (h a)\<lparr>node_next := v\<rparr>)"

definition list_node_init :: "addr \<Rightarrow> heap \<Rightarrow> heap" where
  "list_node_init node h = set_pre node NULL (set_next node NULL h)"

definition list_node_pre :: "heap \<Rightarrow> addr \<Rightarrow> addr" where
  "list_node_pre h node = node_pre (h node)"

definition list_node_next :: "heap \<Rightarrow> addr \<Rightarrow> addr" where
  "list_node_next h node = node_next (h node)"

definition list_init :: list_t where
  "list_init = \<lparr>lfirst = NULL, llast = NULL, lcount = 0\<rparr>"

definition list_is_empty :: "list_t \<Rightarrow> bool" where
  "list_is_empty l \<longleftrightarrow> lcount l = 0"

definition list_count :: "list_t \<Rightarrow> int" where
  "list_count l = lcount l"

definition list_first :: "list_t \<Rightarrow> addr" where
  "list_first l = lfirst l"

definition list_last :: "list_t \<Rightarrow> addr" where
  "list_last l = llast l"

definition list_insert_first :: "list_t \<Rightarrow> addr \<Rightarrow> heap \<Rightarrow> list_t \<times> heap" where
  "list_insert_first l node h =
    (let h1 = set_next node (lfirst l) h;
         h2 = set_pre node NULL h1;
         (l3, h3) =
           (if list_is_empty l then (l\<lparr>llast := node, lfirst := node\<rparr>, h2)
            else (l\<lparr>lfirst := node\<rparr>, set_pre (lfirst l) node h2))
     in (l3\<lparr>lcount := lcount l3 + 1\<rparr>, h3))"

definition list_insert_last :: "list_t \<Rightarrow> addr \<Rightarrow> heap \<Rightarrow> list_t \<times> heap" where
  "list_insert_last l node h =
    (let h1 = set_pre node (llast l) h;
         h2 = set_next node NULL h1;
         (l3, h3) =
           (if list_is_empty l then (l\<lparr>lfirst := node\<rparr>, h2)
            else (l, set_next (llast l) node h2))
     in (l3\<lparr>llast := node, lcount := lcount l3 + 1\<rparr>, h3))"

definition list_remove_first :: "list_t \<Rightarrow> heap \<Rightarrow> addr \<times> list_t \<times> heap" where
  "list_remove_first l h =
    (if list_is_empty l then (NULL, l, h)
     else
       let remove_node = lfirst l;
           l1 = l\<lparr>lfirst := node_next (h remove_node)\<rparr>;
           (l2, h2) =
             (if lfirst l1 = NULL then (l1\<lparr>llast := NULL\<rparr>, h)
              else (l1, set_pre (lfirst l1) NULL h));
           h3 = set_pre remove_node NULL (set_next remove_node NULL h2)
       in (remove_node, l2\<lparr>lcount := lcount l2 - 1\<rparr>, h3))"

definition list_remove :: "list_t \<Rightarrow> addr \<Rightarrow> heap \<Rightarrow> addr \<times> list_t \<times> heap" where
  "list_remove l node h =
    (let l1 = (if node = lfirst l then l\<lparr>lfirst := node_next (h node)\<rparr> else l);
         l2 = (if node = llast l1 then l1\<lparr>llast := node_pre (h node)\<rparr> else l1);
         h1 = (if node_pre (h node) \<noteq> NULL
               then set_next (node_pre (h node)) (node_next (h node)) h else h);
         h2 = (if node_next (h1 node) \<noteq> NULL
               then set_pre (node_next (h1 node)) (node_pre (h1 node)) h1 else h1);
         h3 = set_pre node NULL (set_next node NULL h2)
     in (node, l2\<lparr>lcount := lcount l2 - 1\<rparr>, h3))"

text \<open>
  \<open>list_node_parent(node, type, member)\<close>: the address of the structure whose member at offset \<open>off\<close> is
  the node.
\<close>

definition parent_addr :: "addr \<Rightarrow> addr \<Rightarrow> addr" where
  "parent_addr node off = node - off"

definition list_node_parent :: "addr \<Rightarrow> addr \<Rightarrow> addr" where
  "list_node_parent node off = (if node \<noteq> NULL then parent_addr node off else NULL)"

lemmas list_op_defs [kernel_defs] =
  list_node_init_def list_insert_first_def list_insert_last_def list_remove_first_def
  list_remove_def list_is_empty_def list_count_def list_first_def list_last_def
  list_node_pre_def list_node_next_def list_init_def

section \<open>The represented sequence\<close>

text \<open>
  \<open>links h p xs q\<close>: the nodes \<open>xs\<close> are chained in both directions, the first one looks back at \<open>p\<close>
  and the last one forward at \<open>q\<close>.
\<close>

fun links :: "heap \<Rightarrow> addr \<Rightarrow> addr list \<Rightarrow> addr \<Rightarrow> bool" where
  "links h p [] q \<longleftrightarrow> True"
| "links h p (x # xs) q \<longleftrightarrow>
     node_pre (h x) = p \<and> node_next (h x) = hdq xs q \<and> links h x xs q"

definition dll :: "heap \<Rightarrow> list_t \<Rightarrow> addr list \<Rightarrow> bool" where
  "dll h l xs \<longleftrightarrow>
     distinct xs \<and> NULL \<notin> set xs \<and> lfirst l = hdq xs NULL \<and> llast l = lastp NULL xs \<and>
     lcount l = int (length xs) \<and> links h NULL xs NULL"

lemma links_append [simp]:
  "links h p (xs @ ys) q \<longleftrightarrow> links h p xs (hdq ys q) \<and> links h (lastp p xs) ys q"
  by (induction xs arbitrary: p) auto

lemma links_cong: "(\<And>x. x \<in> set xs \<Longrightarrow> h' x = h x) \<Longrightarrow> links h' p xs q = links h p xs q"
  by (induction xs arbitrary: p) auto

lemma set_pre_other [simp]: "b \<noteq> a \<Longrightarrow> set_pre a v h b = h b"
  and set_next_other [simp]: "b \<noteq> a \<Longrightarrow> set_next a v h b = h b"
  and node_pre_set_pre [simp]: "node_pre (set_pre a v h b) = (if b = a then v else node_pre (h b))"
  and node_next_set_pre [simp]: "node_next (set_pre a v h b) = node_next (h b)"
  and node_next_set_next [simp]: "node_next (set_next a v h b) = (if b = a then v else node_next (h b))"
  and node_pre_set_next [simp]: "node_pre (set_next a v h b) = node_pre (h b)"
  by (simp_all add: set_pre_def set_next_def)

lemma links_set_outside [simp]:
  "a \<notin> set xs \<Longrightarrow> links (set_pre a v h) p xs q = links h p xs q"
  "a \<notin> set xs \<Longrightarrow> links (set_next a v h) p xs q = links h p xs q"
  by (rule links_cong, metis set_pre_other, rule links_cong, metis set_next_other)

section \<open>Each operation on the represented sequence\<close>

lemma dll_init [simp]: "dll h list_init xs \<longleftrightarrow> xs = []"
  by (auto simp: dll_def list_init_def)

lemma dll_empty_iff: "dll h l xs \<Longrightarrow> list_is_empty l \<longleftrightarrow> xs = []"
  by (auto simp: dll_def list_is_empty_def)

lemma dll_count: "dll h l xs \<Longrightarrow> list_count l = int (length xs)"
  by (simp add: dll_def list_count_def)

lemma dll_first: "dll h l xs \<Longrightarrow> list_first l = hdq xs NULL"
  by (simp add: dll_def list_first_def)

lemma dll_last: "dll h l xs \<Longrightarrow> list_last l = lastp NULL xs"
  by (simp add: dll_def list_last_def)

lemma dll_next:
  assumes "dll h l (xs @ x # ys)"
  shows "list_node_next h x = hdq ys NULL"
  using assms by (simp add: dll_def list_node_next_def)

lemma dll_distinct: "dll h l xs \<Longrightarrow> distinct xs"
  and dll_not_null: "dll h l xs \<Longrightarrow> NULL \<notin> set xs"
  by (simp_all add: dll_def)

lemma dll_cong:
  assumes "\<And>x. x \<in> set xs \<Longrightarrow> h' x = h x"
  shows "dll h' l xs = dll h l xs"
proof -
  have "links h' NULL xs NULL = links h NULL xs NULL" by (rule links_cong) (rule assms)
  then show ?thesis by (simp only: dll_def)
qed

lemma links_unique:
  assumes "links h p xs NULL" and "links h p' ys NULL" and "hdq xs NULL = hdq ys NULL"
    and "NULL \<notin> set xs" and "NULL \<notin> set ys"
  shows "xs = ys"
  using assms
proof (induction xs arbitrary: p p' ys)
  case Nil
  then show ?case by (cases ys) simp_all
next
  case (Cons x xs)
  then obtain zs where ys: "ys = x # zs" by (cases ys) simp_all
  with Cons.prems have "links h x xs NULL" and "links h x zs NULL"
    and "hdq xs NULL = hdq zs NULL" and "NULL \<notin> set xs" and "NULL \<notin> set zs"
    by auto
  then have "xs = zs" by (rule Cons.IH)
  with ys show ?case by simp
qed

lemma dll_unique: "dll h l xs \<Longrightarrow> dll h l ys \<Longrightarrow> xs = ys"
  by (rule links_unique [of h NULL xs NULL ys]) (simp_all add: dll_def)

lemma list_insert_first_dll:
  assumes "dll h l xs" and "n \<notin> set xs" and "n \<noteq> NULL"
    and "list_insert_first l n h = (l', h')"
  shows "dll h' l' (n # xs)"
proof (cases xs)
  case Nil
  with assms show ?thesis
    by (auto simp: dll_def list_insert_first_def list_is_empty_def Let_def)
next
  case (Cons y ys)
  with assms show ?thesis
    by (auto simp: dll_def list_insert_first_def list_is_empty_def Let_def)
qed

lemma list_insert_last_dll:
  assumes "dll h l xs" and "n \<notin> set xs" and "n \<noteq> NULL"
    and "list_insert_last l n h = (l', h')"
  shows "dll h' l' (xs @ [n])"
proof (cases xs rule: rev_cases)
  case Nil
  with assms show ?thesis
    by (auto simp: dll_def list_insert_last_def list_is_empty_def Let_def)
next
  case (snoc ys y)
  with assms show ?thesis
    by (auto simp: dll_def list_insert_last_def list_is_empty_def Let_def)
qed

lemma list_remove_first_eq:
  assumes "dll h l (x # xs)"
  shows "list_remove_first l h =
    (x, l\<lparr>lfirst := hdq xs NULL, llast := lastp NULL xs, lcount := int (length xs)\<rparr>,
     set_pre x NULL (set_next x NULL (if xs = [] then h else set_pre (hdq xs NULL) NULL h)))"
  using assms
  by (cases xs) (simp_all add: dll_def list_remove_first_def list_is_empty_def Let_def)

lemma list_remove_first_dll:
  assumes "dll h l (x # xs)" and "list_remove_first l h = (n, l', h')"
  shows "n = x" and "dll h' l' xs" and "h' x = \<lparr>node_pre = NULL, node_next = NULL\<rparr>"
proof -
  note eq = list_remove_first_eq [OF assms(1), unfolded assms(2)]
  show "n = x" using eq by simp
  show "dll h' l' xs"
    using eq assms(1) by (cases xs) (simp_all add: dll_def, auto)
  show "h' x = \<lparr>node_pre = NULL, node_next = NULL\<rparr>"
    using eq by (simp add: set_pre_def set_next_def)
qed

lemma list_remove_first_empty: "dll h l [] \<Longrightarrow> list_remove_first l h = (NULL, l, h)"
  by (simp add: dll_def list_remove_first_def list_is_empty_def)

lemma list_remove_eq:
  assumes "dll h l (xs @ n # ys)"
  shows "list_remove l n h =
    (n, l\<lparr>lfirst := hdq (xs @ ys) NULL, llast := lastp NULL (xs @ ys),
          lcount := int (length (xs @ ys))\<rparr>,
     set_pre n NULL (set_next n NULL
       ((if ys = [] then id else set_pre (hdq ys NULL) (lastp NULL xs))
        ((if xs = [] then id else set_next (lastp NULL xs) (hdq ys NULL)) h))))"
proof -
  from assms have d: "n \<notin> set xs" "n \<notin> set ys" "n \<noteq> NULL" "NULL \<notin> set xs" "NULL \<notin> set ys"
    and l: "lfirst l = hdq xs n" "llast l = lastp n ys" "lcount l = int (length (xs @ ys)) + 1"
    and n: "node_pre (h n) = lastp NULL xs" "node_next (h n) = hdq ys NULL"
    by (auto simp: dll_def)
  have first: "n = hdq xs n \<longleftrightarrow> xs = []" and last: "n = lastp n ys \<longleftrightarrow> ys = []"
    using d hdq_eq_iff [of n xs n] lastp_eq_iff [of n ys n] by metis+
  have pre: "lastp NULL xs = NULL \<longleftrightarrow> xs = []" and nxt: "hdq ys NULL = NULL \<longleftrightarrow> ys = []"
    using d by (simp_all add: hdq_eq_iff lastp_eq_iff)
  from d have ne: "lastp NULL xs \<noteq> n" "hdq ys NULL \<noteq> n"
    by (auto simp: hdq_eq_iff lastp_eq_iff)
  show ?thesis
    using l n first last pre nxt ne
    by (cases xs rule: rev_cases; cases ys) (simp_all add: list_remove_def Let_def)
qed

lemma list_remove_dll:
  assumes "dll h l (xs @ n # ys)" and "list_remove l n h = (r, l', h')"
  shows "r = n" and "dll h' l' (xs @ ys)" and "h' n = \<lparr>node_pre = NULL, node_next = NULL\<rparr>"
proof -
  from assms(1) have d: "distinct (xs @ n # ys)" and z: "NULL \<notin> set (xs @ n # ys)"
    by (simp_all add: dll_def)
  note eq = list_remove_eq [OF assms(1), unfolded assms(2)]
  show "r = n" using eq by simp
  show "dll h' l' (xs @ ys)"
    using assms(1) d z eq by (cases xs rule: rev_cases; cases ys) (simp_all add: dll_def, auto)
  show "h' n = \<lparr>node_pre = NULL, node_next = NULL\<rparr>"
    using eq by (simp add: set_pre_def set_next_def)
qed

section \<open>Frame: nodes outside the list keep their links\<close>

lemma list_insert_first_frame:
  assumes "dll h l xs" and "list_insert_first l n h = (l', h')" and "a \<notin> insert n (set xs)"
  shows "h' a = h a"
  using assms by (cases xs) (auto simp: dll_def list_insert_first_def list_is_empty_def Let_def)

lemma list_insert_last_frame:
  assumes "dll h l xs" and "list_insert_last l n h = (l', h')" and "a \<notin> insert n (set xs)"
  shows "h' a = h a"
  using assms
  by (cases xs rule: rev_cases) (auto simp: dll_def list_insert_last_def list_is_empty_def Let_def)

lemma list_remove_first_frame:
  assumes "dll h l xs" and "list_remove_first l h = (n, l', h')" and "a \<notin> set xs"
  shows "h' a = h a"
proof (cases xs)
  case Nil
  with assms show ?thesis by (simp add: list_remove_first_empty)
next
  case (Cons y ys)
  with assms show ?thesis
    by (cases ys) (auto simp: list_remove_first_eq)
qed

lemma list_remove_frame:
  assumes "dll h l xs" and "n \<in> set xs" and "list_remove l n h = (r, l', h')" and "a \<notin> set xs"
  shows "h' a = h a"
proof -
  from assms(2) obtain us vs where xs: "xs = us @ n # vs" by (auto simp: in_set_conv_decomp)
  with assms have eq: "list_remove l n h = (r, l', h')" "dll h l (us @ n # vs)" by simp_all
  have "a \<noteq> lastp NULL us \<or> us = []" and "a \<noteq> hdq vs NULL \<or> vs = []" and "a \<noteq> n"
    using assms(4) xs by (auto simp: lastp_in hdq_in)
  with list_remove_eq [OF eq(2)] eq(1) show ?thesis by auto
qed

section \<open>The list implements the queue interface\<close>

interpretation kq: node_queue dll NULL list_init list_insert_last list_remove_first list_remove
  list_count list_first
proof (unfold_locales, goal_cases)
  case 1 show ?case by simp
next
  case 2 then show ?case by (simp add: dll_distinct dll_not_null)
next
  case 3 then show ?case by (rule dll_count)
next
  case 4 then show ?case by (rule dll_first)
next
  case 5 then show ?case by (rule list_insert_last_dll)
next
  case 6 then show ?case using list_remove_dll by blast
next
  case 7 then show ?case using list_remove_first_dll by blast
next
  case (8 h l xs n l' h' m ys)
  then have "dll h' m ys = dll h m ys"
    by (intro dll_cong) (metis list_insert_last_frame disjoint_iff)
  with 8 show ?case by simp
next
  case (9 h l xs n r l' h' m ys)
  then have "dll h' m ys = dll h m ys"
    by (intro dll_cong) (metis list_remove_frame disjoint_iff)
  with 9 show ?case by simp
next
  case (10 h l xs r l' h' m ys)
  then have "dll h' m ys = dll h m ys"
    by (intro dll_cong) (metis list_remove_first_frame disjoint_iff)
  with 10 show ?case by simp
qed

section \<open>Properties\<close>

text \<open>
  Inserting a node that is on no list at either end of a list puts it at that end of the
  represented sequence, updates the count, and changes no link of any node outside the list.
\<close>

theorem list_insert_both_ends:
  assumes "dll h l xs" and "n \<notin> set xs" and "n \<noteq> NULL"
  shows "(case list_insert_first l n h of (l', h') \<Rightarrow>
      dll h' l' (n # xs) \<and> list_count l' = list_count l + 1 \<and> list_first l' = n \<and>
      (\<forall>x. x \<notin> insert n (set xs) \<longrightarrow> h' x = h x)) \<and>
    (case list_insert_last l n h of (l', h') \<Rightarrow>
      dll h' l' (xs @ [n]) \<and> list_count l' = list_count l + 1 \<and> list_last l' = n \<and>
      (\<forall>x. x \<notin> insert n (set xs) \<longrightarrow> h' x = h x))"
proof -
  obtain l1 h1 l2 h2 where eq: "list_insert_first l n h = (l1, h1)" "list_insert_last l n h = (l2, h2)"
    by (metis surj_pair)
  have d: "dll h1 l1 (n # xs)" "dll h2 l2 (xs @ [n])"
    using list_insert_first_dll [OF assms eq(1)] list_insert_last_dll [OF assms eq(2)] .
  show ?thesis
    using d dll_count [OF d(1)] dll_count [OF d(2)] dll_count [OF assms(1)] dll_first [OF d(1)]
      dll_last [OF d(2)] list_insert_first_frame [OF assms(1) eq(1)]
      list_insert_last_frame [OF assms(1) eq(2)] by (simp add: eq)
qed

theorem list_insert_both_ends_witness:
  "fst (list_insert_last list_init 8 (\<lambda>_. \<lparr>node_pre = 0, node_next = 0\<rparr>)) =
     \<lparr>lfirst = 8, llast = 8, lcount = 1\<rparr> \<and>
   (case list_insert_last list_init 8 (\<lambda>_. \<lparr>node_pre = 0, node_next = 0\<rparr>) of (l', h') \<Rightarrow> dll h' l' [8])"
  using list_insert_both_ends [of "\<lambda>_. \<lparr>node_pre = 0, node_next = 0\<rparr>" list_init "[]" 8]
  by (simp add: case_prod_beta) (simp add: list_insert_last_def list_init_def list_is_empty_def)

text \<open>
  C22: Removing a node from anywhere in a list unlinks exactly that node: the rest of the sequence keeps
  its order, the count goes down by one, the node's own links are cleared, and no link of a node
  outside the list changes.  Removing the first node is the same for the first node and returns it.
\<close>

theorem list_remove_unlinks:
  assumes "dll h l (xs @ n # ys)"
  shows "case list_remove l n h of (r, l', h') \<Rightarrow>
      r = n \<and> dll h' l' (xs @ ys) \<and> list_count l' = list_count l - 1 \<and>
      h' n = \<lparr>node_pre = NULL, node_next = NULL\<rparr> \<and>
      (\<forall>x. x \<notin> set (xs @ n # ys) \<longrightarrow> h' x = h x) \<and>
      (xs = [] \<longrightarrow> list_remove_first l h = (r, l', h'))"
proof -
  obtain r l' h' where eq: "list_remove l n h = (r, l', h')" by (metis prod_cases3)
  note d = list_remove_dll [OF assms eq]
  have "list_remove_first l h = (r, l', h')" if "xs = []"
    using list_remove_first_eq [of h l n ys] list_remove_eq [OF assms] assms that eq
    by (cases ys) auto
  then show ?thesis
    using d dll_count [OF d(2)] dll_count [OF assms] list_remove_frame [OF assms _ eq]
    by (simp add: eq)
qed

theorem list_remove_unlinks_witness:
  "case list_remove \<lparr>lfirst = 8, llast = 16, lcount = 2\<rparr> 16
      (\<lambda>a. if a = 8 then \<lparr>node_pre = 0, node_next = 16\<rparr> else \<lparr>node_pre = 8, node_next = 0\<rparr>) of
    (r, l', h') \<Rightarrow> r = 16 \<and> dll h' l' [8]"
  using list_remove_unlinks [of "\<lambda>a. if a = 8 then \<lparr>node_pre = 0, node_next = 16\<rparr>
      else \<lparr>node_pre = 8, node_next = 0\<rparr>" "\<lparr>lfirst = 8, llast = 16, lcount = 2\<rparr>" "[8]" 16 "[]"]
  by (simp add: case_prod_beta) (simp add: dll_def)

end
