(* ===== verification/Cpu_Instr.thy ===== *)
theory Cpu_Instr
  imports Prelude
begin

text \<open>
  The processor as \<open>src/source/comm/cpu_instr.h\<close> drives it: the flag and control registers, the
  descriptor-table and task registers, and the I/O ports.  Each inline function of the header is a
  function on this state.  An output port remembers the last byte written to it and the sequence of
  all writes is kept, so that the order of a device's initialisation can be stated.
\<close>

section \<open>Registers and ports\<close>

record dtr_t =
  dt_limit :: uint16_t
  dt_start15_0 :: uint16_t
  dt_start32_16 :: uint16_t

record machine =
  eflags :: uint32_t
  tr :: uint16_t
  cr0 :: uint32_t
  cr3 :: uint32_t
  cr4 :: uint32_t
  gdtr :: dtr_t
  idtr :: dtr_t
  ports :: "uint16_t \<Rightarrow> uint8_t"
  outs :: "(uint16_t \<times> uint8_t) list"

definition EFLAGS_DEFAULT :: uint32_t where
  "EFLAGS_DEFAULT = push_bit 1 1"

definition EFLAGS_IF :: uint32_t where
  "EFLAGS_IF = push_bit 9 1"

section \<open>Instructions\<close>

definition inb :: "uint16_t \<Rightarrow> 'a machine_scheme \<Rightarrow> uint8_t" where
  "inb port m = ports m port"

definition outb :: "uint16_t \<Rightarrow> uint8_t \<Rightarrow> 'a machine_scheme \<Rightarrow> 'a machine_scheme" where
  "outb port data m = m\<lparr>ports := (ports m)(port := data), outs := outs m @ [(port, data)]\<rparr>"

definition cli :: "'a machine_scheme \<Rightarrow> 'a machine_scheme" where
  "cli m = m\<lparr>eflags := eflags m AND NOT EFLAGS_IF\<rparr>"

definition sti :: "'a machine_scheme \<Rightarrow> 'a machine_scheme" where
  "sti m = m\<lparr>eflags := eflags m OR EFLAGS_IF\<rparr>"

definition make_dtr :: "uint32_t \<Rightarrow> uint32_t \<Rightarrow> dtr_t" where
  "make_dtr start sz =
    \<lparr>dt_limit = ucast (sz - 1), dt_start15_0 = ucast (start AND 0xffff),
     dt_start32_16 = ucast (drop_bit 16 start AND 0xffff)\<rparr>"

definition lgdt :: "uint32_t \<Rightarrow> uint32_t \<Rightarrow> 'a machine_scheme \<Rightarrow> 'a machine_scheme" where
  "lgdt start sz m = m\<lparr>gdtr := make_dtr start sz\<rparr>"

definition lidt :: "uint32_t \<Rightarrow> uint32_t \<Rightarrow> 'a machine_scheme \<Rightarrow> 'a machine_scheme" where
  "lidt start sz m = m\<lparr>idtr := make_dtr start sz\<rparr>"

text \<open>The readers of the control registers return a 16-bit value: the upper half is cut off.\<close>

definition read_cr0 :: "'a machine_scheme \<Rightarrow> uint16_t" where
  "read_cr0 m = ucast (cr0 m)"

definition write_cr0 :: "uint32_t \<Rightarrow> 'a machine_scheme \<Rightarrow> 'a machine_scheme" where
  "write_cr0 v m = m\<lparr>cr0 := v\<rparr>"

definition read_cr3 :: "'a machine_scheme \<Rightarrow> uint16_t" where
  "read_cr3 m = ucast (cr3 m)"

definition write_cr3 :: "uint32_t \<Rightarrow> 'a machine_scheme \<Rightarrow> 'a machine_scheme" where
  "write_cr3 v m = m\<lparr>cr3 := v\<rparr>"

definition read_cr4 :: "'a machine_scheme \<Rightarrow> uint16_t" where
  "read_cr4 m = ucast (cr4 m)"

definition write_cr4 :: "uint32_t \<Rightarrow> 'a machine_scheme \<Rightarrow> 'a machine_scheme" where
  "write_cr4 v m = m\<lparr>cr4 := v\<rparr>"

text \<open>
  A 16-bit input.  Successive reads of a data port give successive words of the device behind it: \<open>k\<close> words
  have been taken before.
\<close>

definition inw :: "(nat \<Rightarrow> uint16_t) \<Rightarrow> nat \<Rightarrow> uint16_t \<times> nat" where
  "inw dev k = (dev k, k + 1)"

text \<open>
  The operand of the indirect far jump lies in memory, the offset first; the processor takes selector and
  offset from there.
\<close>

definition far_jump :: "uint16_t \<Rightarrow> uint32_t \<Rightarrow> uint16_t \<times> uint32_t" where
  "far_jump sel offset = (let addr = [offset, ucast sel] in (ucast (addr ! 1), addr ! 0))"

text \<open>
  The processor stops until an interrupt arrives, whose handling is \<open>intr\<close>; with interrupts disabled it
  stops for good.
\<close>

definition hlt :: "('a machine_scheme \<Rightarrow> 'a machine_scheme option) \<Rightarrow> 'a machine_scheme \<Rightarrow> 'a machine_scheme option" where
  "hlt intr m = (if bit (eflags m) 9 then intr m else None)"

definition write_tr :: "uint16_t \<Rightarrow> 'a machine_scheme \<Rightarrow> 'a machine_scheme" where
  "write_tr tss_sel m = m\<lparr>tr := tss_sel\<rparr>"

definition read_eflags :: "'a machine_scheme \<Rightarrow> uint32_t" where
  "read_eflags m = eflags m"

definition write_eflags :: "uint32_t \<Rightarrow> 'a machine_scheme \<Rightarrow> 'a machine_scheme" where
  "write_eflags v m = m\<lparr>eflags := v\<rparr>"

definition if_set :: "'a machine_scheme \<Rightarrow> bool" where
  "if_set m \<longleftrightarrow> bit (eflags m) 9"

lemmas cpu_instr_defs [kernel_defs] =
  inb_def outb_def cli_def sti_def lgdt_def lidt_def read_cr0_def write_cr0_def read_cr3_def
  write_cr3_def read_cr4_def write_cr4_def write_tr_def read_eflags_def write_eflags_def

section \<open>Facts\<close>

text \<open>The address that the processor assembles from a loaded descriptor-table register.\<close>

definition dtr_base :: "dtr_t \<Rightarrow> uint32_t" where
  "dtr_base d = ucast (dt_start15_0 d) OR push_bit 16 (ucast (dt_start32_16 d))"

lemma dtr_base_make [simp]: "dtr_base (make_dtr start sz) = start"
  unfolding dtr_base_def make_dtr_def
  by (rule bit_word_eqI) (simp add: mask_consts bit_simps, auto)

lemma bit_EFLAGS_IF [simp]: "bit EFLAGS_IF n \<longleftrightarrow> n = 9"
  unfolding EFLAGS_IF_def by (subst bit_push_bit_iff) (auto simp: bit_1_iff)

lemma far_jump_target [simp]: "far_jump sel offset = (sel, offset)"
proof -
  have "ucast (ucast sel :: uint32_t) = sel" by (rule bit_word_eqI) (simp add: bit_simps)
  then show ?thesis by (simp add: far_jump_def)
qed

lemma hlt_if_set [simp]: "hlt intr m = (if if_set m then intr m else None)"
  by (simp add: hlt_def if_set_def)

lemma if_set_cli [simp]: "\<not> if_set (cli m)"
  by (simp add: if_set_def cli_def bit_simps)

lemma if_set_sti [simp]: "if_set (sti m)"
  by (simp add: if_set_def sti_def bit_simps)

lemma cli_other_flags: "n \<noteq> 9 \<Longrightarrow> bit (eflags (cli m)) n = bit (eflags m) n"
  by (auto simp: cli_def bit_simps dest: bit_imp_le_length)

end
