(* ===== verification/Cpu_Desc.thy ===== *)
theory Cpu_Desc
  imports Cpu_Instr
begin

text \<open>
  Segment and gate descriptors and the task-state segment: the data of
  \<open>src/source/kernel/include/cpu/cpu.h\<close> and the functions of \<open>src/source/kernel/cpu/cpu.c\<close> that fill
  them in.  The global descriptor table is indexed by the signed index that the pointer arithmetic
  \<open>gdt_table + (selector >> 3)\<close> computes; the array proper is the range 0..255.  What the processor
  reads back from a descriptor (base, limit, granularity) is defined here too, and the lemmas relate
  it to the arguments the descriptor was made from.
\<close>

section \<open>Descriptors\<close>

record segment_desc_t =
  limit15_0 :: uint16_t
  base15_0 :: uint16_t
  base23_16 :: uint8_t
  attr :: uint16_t
  base31_24 :: uint8_t

record gate_desc_t =
  offset15_0 :: uint16_t
  gate_selector :: uint16_t
  gate_attr :: uint16_t
  offset31_16 :: uint16_t

definition GDT_TABLE_SIZE :: int where "GDT_TABLE_SIZE = 256"
definition KERNEL_SELECTOR_CS :: int where "KERNEL_SELECTOR_CS = 1 * 8"
definition KERNEL_SELECTOR_DS :: int where "KERNEL_SELECTOR_DS = 2 * 8"
definition sizeof_segment_desc_t :: int where "sizeof_segment_desc_t = 8"

definition SEG_G :: uint16_t where "SEG_G = push_bit 15 1"
definition SEG_D :: uint16_t where "SEG_D = push_bit 14 1"
definition SEG_P_PRESENT :: uint16_t where "SEG_P_PRESENT = push_bit 7 1"
definition SEG_DPL0 :: uint16_t where "SEG_DPL0 = push_bit 5 0"
definition SEG_DPL3 :: uint16_t where "SEG_DPL3 = push_bit 5 3"
definition SEG_S_SYSTEM :: uint16_t where "SEG_S_SYSTEM = push_bit 4 0"
definition SEG_S_NORMAL :: uint16_t where "SEG_S_NORMAL = push_bit 4 1"
definition SEG_TYPE_CODE :: uint16_t where "SEG_TYPE_CODE = push_bit 3 1"
definition SEG_TYPE_DATA :: uint16_t where "SEG_TYPE_DATA = push_bit 3 0"
definition SEG_TYPE_RW :: uint16_t where "SEG_TYPE_RW = push_bit 1 1"
definition SEG_TYPE_TSS :: uint16_t where "SEG_TYPE_TSS = push_bit 0 9"
definition GATE_TYPE_IDT :: uint16_t where "GATE_TYPE_IDT = push_bit 8 0xE"
definition GATE_TYPE_SYSCALL :: uint16_t where "GATE_TYPE_SYSCALL = push_bit 8 0xC"
definition GATE_P_PRESENT :: uint16_t where "GATE_P_PRESENT = push_bit 15 1"
definition GATE_DPL0 :: uint16_t where "GATE_DPL0 = push_bit 13 0"
definition GATE_DPL3 :: uint16_t where "GATE_DPL3 = push_bit 13 3"

lemmas seg_consts =
  SEG_G_def SEG_D_def SEG_P_PRESENT_def SEG_DPL0_def SEG_DPL3_def SEG_S_SYSTEM_def SEG_S_NORMAL_def
  SEG_TYPE_CODE_def SEG_TYPE_DATA_def SEG_TYPE_RW_def SEG_TYPE_TSS_def GATE_TYPE_IDT_def
  GATE_TYPE_SYSCALL_def GATE_P_PRESENT_def GATE_DPL0_def GATE_DPL3_def

lemmas gdt_consts = GDT_TABLE_SIZE_def KERNEL_SELECTOR_CS_def KERNEL_SELECTOR_DS_def
  sizeof_segment_desc_t_def

definition make_segment_desc :: "uint32_t \<Rightarrow> uint32_t \<Rightarrow> uint16_t \<Rightarrow> segment_desc_t" where
  "make_segment_desc base limit attr0 =
    (let (attr1, limit1) =
       (if 0xfffff < limit then (attr0 OR 0x8000, limit div 0x1000) else (attr0, limit))
     in \<lparr>limit15_0 = ucast (limit1 AND 0xFFFF),
         base15_0 = ucast (base AND 0xFFFF),
         base23_16 = ucast (drop_bit 16 base AND 0xFF),
         attr = ucast (ucast attr1 OR push_bit 8 (drop_bit 16 limit1 AND 0xF)),
         base31_24 = ucast (drop_bit 24 base AND 0xFF)\<rparr>)"

type_synonym gdt_t = "int \<Rightarrow> segment_desc_t"

definition segment_desc_set ::
    "int \<Rightarrow> uint32_t \<Rightarrow> uint32_t \<Rightarrow> uint16_t \<Rightarrow> gdt_t \<Rightarrow> gdt_t" where
  "segment_desc_set selector base limit attr0 gdt =
    gdt(drop_bit 3 selector := make_segment_desc base limit attr0)"

definition gate_desc_set :: "uint16_t \<Rightarrow> uint32_t \<Rightarrow> uint16_t \<Rightarrow> gate_desc_t" where
  "gate_desc_set selector offset attr0 =
    \<lparr>offset15_0 = ucast (offset AND 0xffff), gate_selector = selector, gate_attr = attr0,
     offset31_16 = ucast (drop_bit 16 offset AND 0xffff)\<rparr>"

text \<open>\<open>init_gdt\<close> without the final \<open>lgdt\<close>: the table it builds.\<close>

fun clear_gdt :: "nat \<Rightarrow> gdt_t \<Rightarrow> gdt_t" where
  "clear_gdt 0 gdt = gdt"
| "clear_gdt (Suc i) gdt = segment_desc_set (push_bit 3 (int i)) 0 0 0 (clear_gdt i gdt)"

definition init_gdt_table :: "gdt_t \<Rightarrow> gdt_t" where
  "init_gdt_table gdt =
    segment_desc_set KERNEL_SELECTOR_CS 0 0xFFFFFFFF
      (SEG_P_PRESENT OR SEG_DPL0 OR SEG_S_NORMAL OR SEG_TYPE_CODE OR SEG_TYPE_RW OR SEG_D OR SEG_G)
    (segment_desc_set KERNEL_SELECTOR_DS 0 0xFFFFFFFF
      (SEG_P_PRESENT OR SEG_DPL0 OR SEG_S_NORMAL OR SEG_TYPE_DATA OR SEG_TYPE_RW OR SEG_D OR SEG_G)
    (clear_gdt (nat GDT_TABLE_SIZE) gdt))"

text \<open>
  The scan of \<open>gdt_alloc_desc\<close>, between taking and releasing the table's mutex: the selector of the
  first descriptor from index \<open>i\<close> on whose attributes are zero, or \<open>-1\<close>.
\<close>

function gdt_scan :: "int \<Rightarrow> gdt_t \<Rightarrow> int" where
  "gdt_scan i gdt =
    (if i < GDT_TABLE_SIZE then
       if attr (gdt i) = 0 then i * sizeof_segment_desc_t else gdt_scan (i + 1) gdt
     else - 1)"
  by pat_completeness auto
termination
  by (relation "measure (\<lambda>(i, gdt). nat (GDT_TABLE_SIZE - i))") (auto simp: GDT_TABLE_SIZE_def)

declare gdt_scan.simps [simp del]

section \<open>What the processor reads back\<close>

definition desc_base :: "segment_desc_t \<Rightarrow> uint32_t" where
  "desc_base d = ucast (base15_0 d) OR push_bit 16 (ucast (base23_16 d))
                 OR push_bit 24 (ucast (base31_24 d))"

definition desc_limit20 :: "segment_desc_t \<Rightarrow> uint32_t" where
  "desc_limit20 d = ucast (limit15_0 d) OR push_bit 16 (ucast (drop_bit 8 (attr d) AND 0xF))"

definition desc_limit :: "segment_desc_t \<Rightarrow> uint32_t" where
  "desc_limit d =
    (if bit (attr d) 15 then push_bit 12 (desc_limit20 d) OR 0xFFF else desc_limit20 d)"

definition gate_offset :: "gate_desc_t \<Rightarrow> uint32_t" where
  "gate_offset d = ucast (offset15_0 d) OR push_bit 16 (ucast (offset31_16 d))"

text \<open>A task-state segment descriptor that a far jump accepts: present, system segment, type 9.\<close>

definition is_tss_desc :: "segment_desc_t \<Rightarrow> bool" where
  "is_tss_desc d \<longleftrightarrow> bit (attr d) 7 \<and> \<not> bit (attr d) 4 \<and> attr d AND 0xF = SEG_TYPE_TSS"

section \<open>Round trips\<close>

lemma desc_base_make [simp]: "desc_base (make_segment_desc base limit a) = base"
proof (rule bit_word_eqI)
  fix n :: nat
  assume "n < LENGTH(32)"
  then consider "n < 16" | "16 \<le> n" "n < 24" | "24 \<le> n" "n < 32" by fastforce
  then show "bit (desc_base (make_segment_desc base limit a)) n = bit base n"
    unfolding desc_base_def make_segment_desc_def
    by cases (auto simp: mask_consts bit_simps Let_def)
qed

lemma gate_offset_set [simp]: "gate_offset (gate_desc_set sel off a) = off"
  unfolding gate_offset_def gate_desc_set_def
  by (rule bit_word_eqI) (simp add: mask_consts bit_simps, auto)

lemma div_4096: "(limit :: uint32_t) div 0x1000 = drop_bit 12 limit"
  by (simp add: drop_bit_eq_div)

lemma le_0xfffff_bits: "(limit :: uint32_t) \<le> 0xfffff \<Longrightarrow> 20 \<le> n \<Longrightarrow> \<not> bit limit n"
proof -
  assume "limit \<le> 0xfffff" and "20 \<le> n"
  then have "limit < 2 ^ 20" by (simp add: word_le_nat_alt word_less_nat_alt)
  then have "take_bit 20 limit = limit" by (simp add: less_mask_eq take_bit_eq_mask)
  then show ?thesis using \<open>20 \<le> n\<close> by (metis bit_take_bit_iff not_le)
qed

lemma limit_bits_clear:
  fixes a :: uint16_t
  assumes "drop_bit 8 a AND 0xF = 0" and "n < 4"
  shows "\<not> bit a (8 + n)"
proof -
  have "bit (drop_bit 8 a AND 0xF) n = bit a (8 + n)"
    using assms(2) by (auto simp: mask_consts bit_simps)
  then show ?thesis by (simp add: assms(1))
qed

lemma bit_0x8000: "bit (0x8000 :: int) n \<longleftrightarrow> n = 15"
proof -
  have "(0x8000 :: int) = 2 ^ 15" by simp
  then show ?thesis by (simp only: bit_exp_iff) auto
qed

lemma limit_fields_bits:
  fixes lim :: uint32_t and b :: uint16_t
  assumes hi: "\<And>n. 20 \<le> n \<Longrightarrow> \<not> bit lim n" and g: "\<And>n. n < 4 \<Longrightarrow> \<not> bit b (8 + n)"
  shows "ucast (ucast (lim AND 0xFFFF) :: uint16_t) OR
    push_bit 16 (ucast (drop_bit 8 (ucast (ucast b OR push_bit 8 (drop_bit 16 lim AND 0xF)) :: uint16_t)
      AND 0xF)) = lim" (is "?l = lim")
proof (rule bit_word_eqI)
  fix n :: nat
  assume "n < LENGTH(32)"
  then have "n < 16 \<or> (n = 16 + (n - 16) \<and> n - 16 < 4) \<or> (20 \<le> n \<and> n < 32)" by auto
  then consider "n < 16" | k where "n = 16 + k" "k < 4" | "20 \<le> n" "n < 32" by blast
  then show "bit ?l n = bit lim n"
  proof cases
    case 1
    then show ?thesis by (auto simp: mask_consts bit_simps)
  next
    case 2
    then show ?thesis using g [of k] by (auto simp: mask_consts bit_simps)
  next
    case 3
    then show ?thesis using hi [of n] by (auto simp: mask_consts bit_simps)
  qed
qed

lemma desc_limit20_make:
  fixes limit :: uint32_t
  assumes "drop_bit 8 a AND 0xF = 0"
  shows "desc_limit20 (make_segment_desc base limit a) =
    (if 0xfffff < limit then drop_bit 12 limit else limit)"
proof -
  define lim where "lim = (if 0xfffff < limit then drop_bit 12 limit else limit)"
  define b where "b = (if 0xfffff < limit then a OR 0x8000 else a)"
  have hi: "20 \<le> n \<Longrightarrow> \<not> bit lim n" for n
    using le_0xfffff_bits [of limit n]
    by (auto simp: lim_def bit_simps not_less dest: bit_imp_le_length)
  have g: "n < 4 \<Longrightarrow> \<not> bit b (8 + n)" for n
    using limit_bits_clear [OF assms, of n] by (auto simp: b_def bit_simps bit_0x8000)
  have "attr (make_segment_desc base limit a) =
      ucast (ucast b OR push_bit 8 (drop_bit 16 lim AND 0xF))"
    and "limit15_0 (make_segment_desc base limit a) = ucast (lim AND 0xFFFF)"
    by (simp_all add: make_segment_desc_def lim_def b_def div_4096)
  then have "desc_limit20 (make_segment_desc base limit a) = lim"
    unfolding desc_limit20_def using limit_fields_bits [of lim b, OF hi g] by simp
  then show ?thesis by (simp add: lim_def)
qed

lemma attr_make_g:
  "bit (attr (make_segment_desc base limit a)) 15 \<longleftrightarrow> 0xfffff < limit \<or> bit a 15"
  by (auto simp: make_segment_desc_def Let_def mask_consts bit_simps bit_0x8000)

text \<open>The attributes, outside the four bits that hold the upper part of the limit.\<close>

lemma attr_make:
  "attr (make_segment_desc base limit a) AND 0xF0FF = (if 0xfffff < limit then a OR 0x8000 else a) AND 0xF0FF"
proof -
  have "(ucast (ucast b OR push_bit 8 (x AND 0xF) :: uint32_t) :: uint16_t) AND 0xF0FF = b AND 0xF0FF" for b :: uint16_t and x :: uint32_t
  proof (rule bit_word_eqI)
    fix n :: nat
    assume "n < LENGTH(16)"
    then consider "n < 8" | "8 \<le> n" "n < 12" | "12 \<le> n" "n < 16" by fastforce
    then show "bit ((ucast (ucast b OR push_bit 8 (x AND 0xF) :: uint32_t) :: uint16_t) AND 0xF0FF) n = bit (b AND 0xF0FF) n"
    proof cases
      case 2
      then have "n \<in> {8, 9, 10, 11}" by auto
      then show ?thesis by (auto simp: bit_and_iff)
    qed (auto simp: mask_consts bit_simps)
  qed
  then show ?thesis by (simp add: make_segment_desc_def)
qed

text \<open>
  The processor's limit is the requested one when it fits into 20 bits, and otherwise the requested
  one rounded up to the end of its 4 KiB page.
\<close>

lemma desc_limit_make:
  assumes "drop_bit 8 a AND 0xF = 0"
  shows "desc_limit (make_segment_desc base limit a) =
    (if 0xfffff < limit then limit OR 0xFFF
     else if bit a 15 then push_bit 12 limit OR 0xFFF else limit)"
proof -
  have "push_bit 12 (drop_bit 12 limit) OR 0xFFF = limit OR 0xFFF"
    by (rule bit_word_eqI) (auto simp: mask_consts bit_simps)
  then show ?thesis
    by (simp add: desc_limit_def attr_make_g desc_limit20_make [OF assms])
qed

section \<open>The table\<close>

lemma drop_bit_push_bit_int: "drop_bit n (push_bit n (i::int)) = i"
  by (simp add: drop_bit_eq_div push_bit_eq_mult)

lemma segment_desc_set_same [simp]:
  "segment_desc_set sel base limit a gdt (drop_bit 3 sel) = make_segment_desc base limit a"
  by (simp add: segment_desc_set_def)

lemma segment_desc_set_other:
  "i \<noteq> drop_bit 3 sel \<Longrightarrow> segment_desc_set sel base limit a gdt i = gdt i"
  by (simp add: segment_desc_set_def)

lemma clear_gdt_eq:
  "clear_gdt n gdt i = (if 0 \<le> i \<and> i < int n then make_segment_desc 0 0 0 else gdt i)"
  by (induction n) (auto simp: segment_desc_set_def drop_bit_push_bit_int)

lemma gdt_scan_cases:
  assumes "0 \<le> i"
  shows "(gdt_scan i gdt = - 1 \<and> (\<forall>j. i \<le> j \<and> j < GDT_TABLE_SIZE \<longrightarrow> attr (gdt j) \<noteq> 0)) \<or>
    (\<exists>k. i \<le> k \<and> k < GDT_TABLE_SIZE \<and> gdt_scan i gdt = k * 8 \<and> attr (gdt k) = 0 \<and>
       (\<forall>j. i \<le> j \<and> j < k \<longrightarrow> attr (gdt j) \<noteq> 0))"
  using assms
proof (induction i gdt rule: gdt_scan.induct)
  case (1 i gdt)
  consider "\<not> i < GDT_TABLE_SIZE" | "i < GDT_TABLE_SIZE" "attr (gdt i) = 0"
    | "i < GDT_TABLE_SIZE" "attr (gdt i) \<noteq> 0" by blast
  then show ?case
  proof cases
    case 1
    then show ?thesis by (auto simp: gdt_scan.simps [of i gdt])
  next
    case 2
    then show ?thesis by (auto simp: gdt_scan.simps [of i gdt] sizeof_segment_desc_t_def)
  next
    case 3
    have le: "i \<le> j \<longleftrightarrow> j = i \<or> i + 1 \<le> j" for j by auto
    from 3 "1.IH" "1.prems" show ?thesis
      by (simp add: gdt_scan.simps [of i gdt] le) (metis (no_types, lifting) 3(2))
  qed
qed

section \<open>Properties\<close>

text \<open>
  C26: What the processor reads back from a descriptor written by \<open>segment_desc_set\<close>, for attributes that
  leave the limit field free and do not ask for page granularity with a small limit: the base is the one
  requested; a limit that fits into 20 bits is exact, a larger one is rounded up to the end of its 4 KiB
  page; the attributes are the ones requested, with the granularity bit added for a large limit; and
  the entry of no other selector changes.
\<close>

theorem segment_desc_roundtrip:
  assumes "drop_bit 8 a AND 0xF = 0" and "\<not> bit a 15 \<or> 0xfffff < limit"
  shows "desc_base (segment_desc_set sel base limit a gdt (drop_bit 3 sel)) = base \<and>
    desc_limit (segment_desc_set sel base limit a gdt (drop_bit 3 sel)) =
      (if 0xfffff < limit then limit OR 0xFFF else limit) \<and>
    attr (segment_desc_set sel base limit a gdt (drop_bit 3 sel)) AND 0xF0FF =
      (if 0xfffff < limit then a OR 0x8000 else a) \<and>
    (\<forall>i. i \<noteq> drop_bit 3 sel \<longrightarrow> segment_desc_set sel base limit a gdt i = gdt i)"
proof -
  have "b AND 0xF0FF = b" if "\<And>n. n < 4 \<Longrightarrow> \<not> bit b (8 + n)" for b :: uint16_t
  proof (rule bit_word_eqI)
    fix n :: nat
    assume n: "n < LENGTH(16)"
    have "bit (0xF0FF :: uint16_t) n \<longleftrightarrow> n < 8 \<or> 12 \<le> n"
    proof -
      have "\<forall>n \<in> set [0..<16]. bit (0xF0FF :: uint16_t) n \<longleftrightarrow> n < 8 \<or> 12 \<le> n" by code_simp
      with n show ?thesis by simp
    qed
    moreover have "n < 8 \<or> 12 \<le> n \<or> \<not> bit b n" using that [of "n - 8"] by (cases "8 \<le> n \<and> n < 12") (simp_all add: less_diff_conv2, arith)
    ultimately show "bit (b AND 0xF0FF) n = bit b n" by (auto simp: bit_and_iff)
  qed
  from this [of "if 0xfffff < limit then a OR 0x8000 else a"]
  have "(if 0xfffff < limit then a OR 0x8000 else a) AND 0xF0FF = (if 0xfffff < limit then a OR 0x8000 else a)"
    using limit_bits_clear [OF assms(1)] by (auto simp: bit_simps bit_0x8000)
  with assms show ?thesis by (auto simp: desc_limit_make segment_desc_set_other attr_make)
qed

theorem segment_desc_roundtrip_witness:
  "\<forall>gdt. attr (segment_desc_set 0x18 0x12345678 104 0x89 gdt 3) AND 0xF0FF = 0x89 \<and> desc_limit (segment_desc_set 0x18 0x12345678 104 0x89 gdt 3) = 104 \<and>
     desc_base (segment_desc_set 0x18 0x12345678 104 0x89 gdt 3) = 0x12345678"
  using segment_desc_roundtrip [where a = "0x89" and limit = 104 and sel = "0x18" and base = "0x12345678"]
  by simp

lemma init_gdt_entries: "init_gdt_table gdt i =
    (if i = 1 then make_segment_desc 0 0xFFFFFFFF 0xC09A
     else if i = 2 then make_segment_desc 0 0xFFFFFFFF 0xC092
     else clear_gdt 256 gdt i)"
  by (simp add: init_gdt_table_def gdt_consts seg_consts segment_desc_set_def)

lemma init_gdt_attrs:
  "attr (make_segment_desc 0 0xFFFFFFFF 0xC09A) = 0xCF9A"
  "attr (make_segment_desc 0 0xFFFFFFFF 0xC092) = 0xCF92" "attr (make_segment_desc 0 0 0) = 0"
  by (simp_all add: make_segment_desc_def)

lemma init_gdt_scan: "gdt_scan 1 (init_gdt_table gdt) = 0x18"
  by (simp add: gdt_scan.simps [of 1] gdt_scan.simps [of 2] gdt_scan.simps [of 3] gdt_consts init_gdt_entries
      clear_gdt_eq init_gdt_attrs)

text \<open>
  The table that \<open>init_gdt\<close> builds has a null descriptor first, a present flat 4 GiB code segment at
  selector 8, a present flat 4 GiB data segment at selector 16, and every other entry free, so that
  the first selector \<open>gdt_alloc_desc\<close> finds is 0x18.
\<close>

theorem init_gdt_flat:
  "(\<forall>i. 0 \<le> i \<and> i < 256 \<longrightarrow> (attr (init_gdt_table gdt i) = 0) = (i \<noteq> 1 \<and> i \<noteq> 2)) \<and>
   (\<forall>i\<in>{1, 2}. desc_base (init_gdt_table gdt i) = 0 \<and> desc_limit (init_gdt_table gdt i) = 0xFFFFFFFF \<and>
      bit (attr (init_gdt_table gdt i)) 7) \<and>
   bit (attr (init_gdt_table gdt 1)) 3 \<and> \<not> bit (attr (init_gdt_table gdt 2)) 3 \<and>
   gdt_scan 1 (init_gdt_table gdt) = 0x18"
  by (intro conjI allI impI ballI)
    (auto simp: init_gdt_entries clear_gdt_eq init_gdt_attrs desc_limit_make init_gdt_scan)

theorem init_gdt_flat_witness:
  "\<forall>gdt. attr (init_gdt_table gdt 3) = 0 \<and> desc_limit (init_gdt_table gdt 1) = 0xFFFFFFFF"
  using init_gdt_flat by simp

end
