(* ===== verification/Irq.thy ===== *)
theory Irq
  imports Cpu_Desc
begin

text \<open>
  Interrupts: \<open>src/source/kernel/cpu/irq.c\<close> and \<open>irq.h\<close>.  The state adds the global and the interrupt
  descriptor tables to the processor.  The entry points \<open>exception_handler_*\<close> are labels of
  \<open>start.S\<close>; their addresses are an argument \<open>entry\<close>.  A shift by a negative amount has no meaning in
  C, nor has one by 32 or more: an operation that performs one returns \<open>None\<close>.
\<close>

section \<open>State and constants\<close>

record kcpu = machine +
  gdt_table :: gdt_t
  idt_table :: "int \<Rightarrow> gate_desc_t"

datatype exc =
    exc_unknown | exc_divider | exc_Debug | exc_NMI | exc_breakpoint | exc_overflow
  | exc_bound_range | exc_invalid_opcode | exc_device_unavailable | exc_double_fault
  | exc_invalid_tss | exc_segment_not_present | exc_stack_segment_fault | exc_general_protection
  | exc_page_fault | exc_fpu_error | exc_alignment_check | exc_machine_check | exc_smd_exception
  | exc_virtual_exception | exc_time

definition IDT_TABLE_NR :: int where "IDT_TABLE_NR = 128"
definition IRQ0_DE :: int where "IRQ0_DE = 0"
definition IRQ1_DB :: int where "IRQ1_DB = 1"
definition IRQ2_NMI :: int where "IRQ2_NMI = 2"
definition IRQ3_BP :: int where "IRQ3_BP = 3"
definition IRQ4_OF :: int where "IRQ4_OF = 4"
definition IRQ5_BR :: int where "IRQ5_BR = 5"
definition IRQ6_UD :: int where "IRQ6_UD = 6"
definition IRQ7_NM :: int where "IRQ7_NM = 7"
definition IRQ8_DF :: int where "IRQ8_DF = 8"
definition IRQ10_TS :: int where "IRQ10_TS = 10"
definition IRQ11_NP :: int where "IRQ11_NP = 11"
definition IRQ12_SS :: int where "IRQ12_SS = 12"
definition IRQ13_GP :: int where "IRQ13_GP = 13"
definition IRQ14_PF :: int where "IRQ14_PF = 14"
definition IRQ16_MF :: int where "IRQ16_MF = 16"
definition IRQ17_AC :: int where "IRQ17_AC = 17"
definition IRQ18_MC :: int where "IRQ18_MC = 18"
definition IRQ19_XM :: int where "IRQ19_XM = 19"
definition IRQ20_VE :: int where "IRQ20_VE = 20"
definition IRQ_PIC_START :: int where "IRQ_PIC_START = 0x20"
definition IRQ0_TIMER :: int where "IRQ0_TIMER = 0x20"

definition PIC0_ICW1 :: uint16_t where "PIC0_ICW1 = 0x20"
definition PIC0_ICW2 :: uint16_t where "PIC0_ICW2 = 0x21"
definition PIC0_ICW3 :: uint16_t where "PIC0_ICW3 = 0x21"
definition PIC0_ICW4 :: uint16_t where "PIC0_ICW4 = 0x21"
definition PIC0_OCW2 :: uint16_t where "PIC0_OCW2 = 0x20"
definition PIC0_IMR :: uint16_t where "PIC0_IMR = 0x21"
definition PIC1_ICW1 :: uint16_t where "PIC1_ICW1 = 0xa0"
definition PIC1_ICW2 :: uint16_t where "PIC1_ICW2 = 0xa1"
definition PIC1_ICW3 :: uint16_t where "PIC1_ICW3 = 0xa1"
definition PIC1_ICW4 :: uint16_t where "PIC1_ICW4 = 0xa1"
definition PIC1_OCW2 :: uint16_t where "PIC1_OCW2 = 0xa0"
definition PIC1_IMR :: uint16_t where "PIC1_IMR = 0xa1"
definition PIC_ICW1_ICW4 :: uint8_t where "PIC_ICW1_ICW4 = push_bit 0 1"
definition PIC_ICW1_ALWAYS_1 :: uint8_t where "PIC_ICW1_ALWAYS_1 = push_bit 4 1"
definition PIC_ICW4_8086 :: uint8_t where "PIC_ICW4_8086 = push_bit 0 1"
definition PIC_OCW2_EOI :: uint8_t where "PIC_OCW2_EOI = push_bit 5 1"

lemmas irq_consts =
  IRQ0_DE_def IRQ1_DB_def IRQ2_NMI_def IRQ3_BP_def IRQ4_OF_def IRQ5_BR_def IRQ6_UD_def IRQ7_NM_def IRQ8_DF_def IRQ10_TS_def
  IRQ11_NP_def IRQ12_SS_def IRQ13_GP_def IRQ14_PF_def IRQ16_MF_def IRQ17_AC_def IRQ18_MC_def IRQ19_XM_def IRQ20_VE_def

lemmas pic_consts =
  PIC0_ICW1_def PIC0_ICW2_def PIC0_ICW3_def PIC0_ICW4_def PIC0_OCW2_def PIC0_IMR_def
  PIC1_ICW1_def PIC1_ICW2_def PIC1_ICW3_def PIC1_ICW4_def PIC1_OCW2_def PIC1_IMR_def
  PIC_ICW1_ICW4_def PIC_ICW1_ALWAYS_1_def PIC_ICW4_8086_def PIC_OCW2_EOI_def

section \<open>Operations\<close>

definition init_pic :: "'a machine_scheme \<Rightarrow> 'a machine_scheme" where
  "init_pic m0 =
    (let m1 = outb PIC0_ICW1 (PIC_ICW1_ALWAYS_1 OR PIC_ICW1_ICW4) m0;
         m2 = outb PIC0_ICW2 (word_of_int IRQ_PIC_START) m1;
         m3 = outb PIC0_ICW3 (push_bit 2 1) m2;
         m4 = outb PIC0_ICW4 PIC_ICW4_8086 m3;
         m5 = outb PIC1_ICW1 (PIC_ICW1_ICW4 OR PIC_ICW1_ALWAYS_1) m4;
         m6 = outb PIC1_ICW2 (word_of_int (IRQ_PIC_START + 8)) m5;
         m7 = outb PIC1_ICW3 2 m6;
         m8 = outb PIC1_ICW4 PIC_ICW4_8086 m7;
         m9 = outb PIC0_IMR (0xFF AND NOT (push_bit 2 1)) m8
     in outb PIC1_IMR 0xFF m9)"

definition idt_gate :: "uint32_t \<Rightarrow> gate_desc_t" where
  "idt_gate handler =
    gate_desc_set (word_of_int KERNEL_SELECTOR_CS) handler
      (GATE_P_PRESENT OR GATE_DPL0 OR GATE_TYPE_IDT)"

definition irq_install :: "int \<Rightarrow> uint32_t \<Rightarrow> 'a kcpu_scheme \<Rightarrow> int \<times> 'a kcpu_scheme" where
  "irq_install irq_num handler s =
    (if irq_num \<ge> IDT_TABLE_NR then (- 1, s)
     else (0, s\<lparr>idt_table := (idt_table s)(irq_num := idt_gate handler)\<rparr>))"

text \<open>The first loop of \<open>irq_init\<close>, and the pairs that the calls of \<open>irq_install\<close> after it pass, in their order.\<close>

fun idt_fill :: "uint32_t \<Rightarrow> nat \<Rightarrow> 'a kcpu_scheme \<Rightarrow> 'a kcpu_scheme" where
  "idt_fill handler 0 s = s"
| "idt_fill handler (Suc i) s =
    (let s' = idt_fill handler i s
     in s'\<lparr>idt_table := (idt_table s')(int i := idt_gate handler)\<rparr>)"

definition irq_vectors :: "(int \<times> exc) list" where
  "irq_vectors =
    [(IRQ0_DE, exc_divider), (IRQ1_DB, exc_Debug), (IRQ2_NMI, exc_NMI),
     (IRQ3_BP, exc_breakpoint), (IRQ4_OF, exc_overflow), (IRQ5_BR, exc_bound_range),
     (IRQ6_UD, exc_invalid_opcode), (IRQ7_NM, exc_device_unavailable), (IRQ8_DF, exc_double_fault),
     (IRQ10_TS, exc_invalid_tss), (IRQ11_NP, exc_segment_not_present), (IRQ12_SS, exc_stack_segment_fault),
     (IRQ13_GP, exc_general_protection), (IRQ14_PF, exc_page_fault), (IRQ16_MF, exc_fpu_error),
     (IRQ17_AC, exc_alignment_check), (IRQ18_MC, exc_machine_check), (IRQ19_XM, exc_smd_exception),
     (IRQ20_VE, exc_virtual_exception)]"

fun irq_install_all :: "(exc \<Rightarrow> uint32_t) \<Rightarrow> (int \<times> exc) list \<Rightarrow> 'a kcpu_scheme \<Rightarrow> 'a kcpu_scheme"
where
  "irq_install_all entry [] s = s"
| "irq_install_all entry ((v, e) # ves) s =
    irq_install_all entry ves (snd (irq_install v (entry e) s))"

definition irq_init :: "(exc \<Rightarrow> uint32_t) \<Rightarrow> uint32_t \<Rightarrow> 'a kcpu_scheme \<Rightarrow> 'a kcpu_scheme" where
  "irq_init entry idt_addr s =
    (let s1 = idt_fill (entry exc_unknown) (nat IDT_TABLE_NR) s;
         s2 = irq_install_all entry irq_vectors s1;
         s3 = lidt idt_addr (word_of_int (IDT_TABLE_NR * 8)) s2
     in init_pic s3)"

definition irq_enable :: "int \<Rightarrow> 'a machine_scheme \<Rightarrow> 'a machine_scheme option" where
  "irq_enable irq_num m =
    (if irq_num < IRQ_PIC_START then Some m
     else
       let n = irq_num - IRQ_PIC_START
       in if n < 8 then
            map_option (\<lambda>b. outb PIC0_IMR (word_of_int (uint (inb PIC0_IMR m) AND NOT b)) m) (shl1 n)
          else
            map_option (\<lambda>b. outb PIC0_IMR (word_of_int (uint (inb PIC1_IMR m) AND NOT b)) m)
              (shl1 (n - 8)))"

definition irq_disable :: "int \<Rightarrow> 'a machine_scheme \<Rightarrow> 'a machine_scheme option" where
  "irq_disable irq_num m =
    (if irq_num < IRQ_PIC_START then Some m
     else
       let n = irq_num - IRQ_PIC_START
       in if n < 8 then
            map_option (\<lambda>b. outb PIC0_IMR (word_of_int (uint (inb PIC0_IMR m) OR NOT b)) m) (shl1 n)
          else
            map_option (\<lambda>b. outb PIC0_IMR (word_of_int (uint (inb PIC1_IMR m) OR NOT b)) m)
              (shl1 (n - IRQ_PIC_START)))"

definition irq_disable_global :: "'a machine_scheme \<Rightarrow> 'a machine_scheme" where
  "irq_disable_global m = cli m"

definition irq_enable_global :: "'a machine_scheme \<Rightarrow> 'a machine_scheme" where
  "irq_enable_global m = sti m"

definition pic_send_eoi :: "int \<Rightarrow> 'a machine_scheme \<Rightarrow> 'a machine_scheme" where
  "pic_send_eoi irq_num m =
    (let n = irq_num - IRQ_PIC_START;
         m1 = (if n \<ge> 8 then outb PIC1_OCW2 PIC_OCW2_EOI m else m)
     in outb PIC0_OCW2 PIC_OCW2_EOI m1)"

type_synonym irq_state_t = uint32_t

definition irq_enter_protection :: "'a machine_scheme \<Rightarrow> irq_state_t \<times> 'a machine_scheme" where
  "irq_enter_protection m = (read_eflags m, irq_disable_global m)"

definition irq_leave_protection :: "irq_state_t \<Rightarrow> 'a machine_scheme \<Rightarrow> 'a machine_scheme" where
  "irq_leave_protection state m = write_eflags state m"

section \<open>Critical sections\<close>

text \<open>
  A stretch of code with critical sections: steps that leave the gate alone, and sections that contain
  such a stretch again.  The trace lists the states passed, each with the number of sections around it.
\<close>

inductive sections :: "('m \<Rightarrow> 't \<times> 'm) \<Rightarrow> ('t \<Rightarrow> 'm \<Rightarrow> 'm) \<Rightarrow> ('m \<Rightarrow> 'g) \<Rightarrow> nat \<Rightarrow> 'm \<Rightarrow> (nat \<times> 'm) list \<Rightarrow> 'm \<Rightarrow> bool"
  for enter leave gate where
  stop: "sections enter leave gate d m [(d, m)] m"
| step: "gate m1 = gate m \<Longrightarrow> sections enter leave gate d m1 ps m' \<Longrightarrow> sections enter leave gate d m ((d, m) # ps) m'"
| nest: "enter m = (t, m1) \<Longrightarrow> sections enter leave gate (Suc d) m1 ps1 m2 \<Longrightarrow>
    sections enter leave gate d (leave t m2) ps2 m' \<Longrightarrow> sections enter leave gate d m ((d, m) # ps1 @ ps2) m'"

text \<open>
  The contract of a critical section: entering hands out a token and closes the gate; leaving with the
  token gives the gate back the value it had at the entry.
\<close>

locale critical_section =
  fixes enter :: "'m \<Rightarrow> 't \<times> 'm"
    and leave :: "'t \<Rightarrow> 'm \<Rightarrow> 'm"
    and gate :: "'m \<Rightarrow> 'g"
    and closed :: "'g \<Rightarrow> bool"
  assumes enter_closes: "enter m = (t, m') \<Longrightarrow> closed (gate m')"
    and leave_restores: "enter m = (t, m') \<Longrightarrow> gate (leave t n) = gate m"
begin

lemma sections_gate:
  assumes "sections enter leave gate d m ps m'"
  shows "gate m' = gate m \<and> (\<forall>(e, x) \<in> set ps. d \<le> e \<and> (if e = d then gate x = gate m else closed (gate x)))"
  using assms
proof (induction rule: sections.induct)
  case (nest m t m1 d ps1 m2 ps2 m')
  have out: "gate (leave t m2) = gate m" by (rule leave_restores [OF nest.hyps(1)])
  have "d \<le> e \<and> e \<noteq> d \<and> closed (gate x)" if "(e, x) \<in> set ps1" for e x
  proof -
    have "Suc d \<le> e \<and> (if e = Suc d then gate x = gate m1 else closed (gate x))" using nest.IH(1) that by blast
    then show ?thesis using enter_closes [OF nest.hyps(1)] by (auto split: if_splits)
  qed
  with nest.IH(2) out show ?case by fastforce
qed auto

end

interpretation irqs: critical_section irq_enter_protection irq_leave_protection eflags "\<lambda>f. \<not> bit f 9"
  by unfold_locales
    (auto simp: irq_enter_protection_def irq_leave_protection_def irq_disable_global_def
      read_eflags_def write_eflags_def cli_def bit_simps)

section \<open>The interrupt descriptor table\<close>

lemma idt_fill_eq:
  "idt_table (idt_fill h n s) v = (if 0 \<le> v \<and> v < int n then idt_gate h else idt_table s v)"
  by (induction n) (auto simp: Let_def)

lemma irq_install_all_eq:
  assumes "\<forall>v \<in> fst ` set ves. v < IDT_TABLE_NR" and "distinct (map fst ves)"
  shows "idt_table (irq_install_all entry ves s) u =
    (case map_of ves u of None \<Rightarrow> idt_table s u | Some e \<Rightarrow> idt_gate (entry e))"
  using assms
proof (induction ves arbitrary: s)
  case (Cons ve ves)
  obtain v e where ve: "ve = (v, e)" by (cases ve)
  then have "map_of ves v = None" using Cons.prems(2) by (simp add: map_of_eq_None_iff)
  with Cons ve show ?case by (simp add: irq_install_def split: option.split)
qed simp

lemma irq_vectors_ok: "\<forall>v \<in> fst ` set irq_vectors. v < IDT_TABLE_NR" "distinct (map fst irq_vectors)"
  by (simp_all add: irq_vectors_def irq_consts IDT_TABLE_NR_def)

lemma init_pic_frame [simp]:
  "idt_table (init_pic s) = idt_table s" "idtr (init_pic s) = idtr s" "gdt_table (init_pic s) = gdt_table s"
  "eflags (init_pic s) = eflags s"
  by (simp_all add: init_pic_def outb_def Let_def)

lemma irq_init_table:
  "idt_table (irq_init entry idt_addr s) v =
    (case map_of irq_vectors v of Some e \<Rightarrow> idt_gate (entry e)
     | None \<Rightarrow> if 0 \<le> v \<and> v < IDT_TABLE_NR then idt_gate (entry exc_unknown) else idt_table s v)"
  by (simp add: irq_init_def Let_def lidt_def idt_fill_eq irq_install_all_eq [OF irq_vectors_ok]
      IDT_TABLE_NR_def split: option.split)

text \<open>The vectors at which the processor delivers its exceptions.\<close>

fun exception_vector :: "exc \<Rightarrow> int option" where
  "exception_vector exc_divider = Some 0"
| "exception_vector exc_Debug = Some 1"
| "exception_vector exc_NMI = Some 2"
| "exception_vector exc_breakpoint = Some 3"
| "exception_vector exc_overflow = Some 4"
| "exception_vector exc_bound_range = Some 5"
| "exception_vector exc_invalid_opcode = Some 6"
| "exception_vector exc_device_unavailable = Some 7"
| "exception_vector exc_double_fault = Some 8"
| "exception_vector exc_invalid_tss = Some 10"
| "exception_vector exc_segment_not_present = Some 11"
| "exception_vector exc_stack_segment_fault = Some 12"
| "exception_vector exc_general_protection = Some 13"
| "exception_vector exc_page_fault = Some 14"
| "exception_vector exc_fpu_error = Some 16"
| "exception_vector exc_alignment_check = Some 17"
| "exception_vector exc_machine_check = Some 18"
| "exception_vector exc_smd_exception = Some 19"
| "exception_vector exc_virtual_exception = Some 20"
| "exception_vector exc_time = None"
| "exception_vector exc_unknown = None"

lemma vector_table: "map_of irq_vectors v = Some e \<longleftrightarrow> exception_vector e = Some v"
  by (cases e) (auto simp: irq_vectors_def irq_consts)

lemma vector_free: "map_of irq_vectors v = None \<longleftrightarrow> (\<forall>e. exception_vector e \<noteq> Some v)"
  by (metis vector_table not_None_eq)

lemma irq_init_gates:
  "exception_vector e = Some v \<Longrightarrow> idt_table (irq_init entry idt_addr s) v = idt_gate (entry e)"
  "0 \<le> v \<Longrightarrow> v < 128 \<Longrightarrow> \<forall>e. exception_vector e \<noteq> Some v \<Longrightarrow> idt_table (irq_init entry idt_addr s) v = idt_gate (entry exc_unknown)"
  using vector_table [of v e] vector_free [of v] by (simp_all add: irq_init_table IDT_TABLE_NR_def)

lemma idt_gate_eq: "idt_gate h = gate_desc_set 8 h 0x8E00"
  by (simp add: idt_gate_def gdt_consts seg_consts)

text \<open>
  C28: \<open>irq_init\<close> leaves a complete interrupt descriptor table.  The gate at the vector where the
  processor delivers an exception (0 for the division error up to 20 for the virtualisation exception)
  leads to the entry point of that exception; every other vector of the table leads to the default
  entry; the gates are present ring-0 interrupt gates into the kernel code segment; and the register
  that \<open>lidt\<close> loads describes exactly the table.
\<close>

theorem irq_init_installs:
  "(exception_vector e = Some v \<longrightarrow> idt_table (irq_init entry idt_addr s) v = gate_desc_set 8 (entry e) 0x8E00) \<and>
   (0 \<le> v \<and> v < 128 \<and> (\<forall>e. exception_vector e \<noteq> Some v) \<longrightarrow>
     idt_table (irq_init entry idt_addr s) v = gate_desc_set 8 (entry exc_unknown) 0x8E00) \<and>
   gate_offset (gate_desc_set 8 (entry e) 0x8E00) = entry e \<and>
   dtr_base (idtr (irq_init entry idt_addr s)) = idt_addr \<and>
   unat (dt_limit (idtr (irq_init entry idt_addr s))) + 1 = 128 * 8"
proof -
  have "idtr (irq_init entry idt_addr s) = make_dtr idt_addr (word_of_int (IDT_TABLE_NR * 8))"
    by (simp add: irq_init_def Let_def lidt_def)
  moreover have "unat (dt_limit (make_dtr idt_addr (word_of_int (IDT_TABLE_NR * 8)))) + 1 = 128 * 8"
    by (simp add: make_dtr_def IDT_TABLE_NR_def)
  ultimately show ?thesis by (simp add: irq_init_gates idt_gate_eq)
qed

theorem irq_init_installs_witness:
  "\<forall>s :: kcpu. gate_offset (idt_table (irq_init (\<lambda>e. if e = exc_page_fault then 0x10E0 else 0x1000) 0x8000 s) 14)
     = 0x10E0 \<and>
   idt_table (irq_init (\<lambda>e. if e = exc_page_fault then 0x10E0 else 0x1000) 0x8000 s) 15 = gate_desc_set 8 0x1000 0x8E00"
proof
  fix s :: kcpu
  let ?entry = "\<lambda>e. if e = exc_page_fault then 0x10E0 else 0x1000 :: uint32_t"
  have "exception_vector e \<noteq> Some 15" for e by (cases e) simp_all
  with irq_init_installs [where entry = ?entry and s = s and e = exc_page_fault and v = 14]
    irq_init_installs [where entry = ?entry and s = s and v = 15]
  show "gate_offset (idt_table (irq_init ?entry 0x8000 s) 14) = 0x10E0 \<and>
      idt_table (irq_init ?entry 0x8000 s) 15 = gate_desc_set 8 0x1000 0x8E00" by simp
qed

text \<open>
  \<open>irq_install\<close> accepts every vector below 128, after which the gate of that vector, and no other,
  leads to the given handler; it refuses larger vectors with -1 and changes nothing.
\<close>

theorem irq_install_lookup:
  "irq_install v h s =
    (if v < 128 then (0, s\<lparr>idt_table := (idt_table s)(v := gate_desc_set 8 h 0x8E00)\<rparr>) else (- 1, s)) \<and>
   gate_offset (idt_table (snd (irq_install v h s)) u) =
    (if u = v \<and> v < 128 then h else gate_offset (idt_table s u))"
  by (simp add: irq_install_def IDT_TABLE_NR_def idt_gate_def gdt_consts seg_consts)

section \<open>The interrupt controller\<close>

lemma bit_neg_shl: "0 \<le> n \<Longrightarrow> bit (word_of_int (uint (x :: uint8_t) AND NOT (2 ^ nat n)) :: uint8_t) i \<longleftrightarrow>
    bit x i \<and> int i \<noteq> n"
  by (auto simp: bit_simps bit_1_iff dest: bit_imp_le_length)

lemma bit_or_neg_shl: "0 \<le> n \<Longrightarrow> bit (word_of_int (uint (x :: uint8_t) OR NOT (2 ^ nat n)) :: uint8_t) i \<longleftrightarrow>
    i < 8 \<and> (bit x i \<or> int i \<noteq> n)"
  by (auto simp: bit_simps bit_1_iff dest: bit_imp_le_length)

text \<open>
  \<open>irq_enable\<close> on a line of the first controller clears exactly that line's bit of its mask
  register and touches no other port.
\<close>

theorem irq_enable_unmasks:
  assumes "0x20 \<le> irq" and "irq < 0x28"
  shows "\<exists>m'. irq_enable irq m = Some m' \<and>
    (\<forall>i. bit (ports m' PIC0_IMR) i \<longleftrightarrow> bit (ports m PIC0_IMR) i \<and> int i \<noteq> irq - 0x20) \<and>
    (\<forall>p. p \<noteq> PIC0_IMR \<longrightarrow> ports m' p = ports m p)"
  using assms
  by (simp add: irq_enable_def IRQ_PIC_START_def Let_def shl1_def outb_def inb_def bit_neg_shl)

theorem irq_enable_unmasks_witness:
  "\<forall>m :: machine. \<exists>m'. irq_enable IRQ0_TIMER m = Some m' \<and> \<not> bit (ports m' PIC0_IMR) 0"
proof
  fix m :: machine
  show "\<exists>m'. irq_enable IRQ0_TIMER m = Some m' \<and> \<not> bit (ports m' PIC0_IMR) 0"
    using irq_enable_unmasks [of IRQ0_TIMER m] by (fastforce simp: IRQ0_TIMER_def)
qed

text \<open>
  \<open>irq_enable\<close> on a line of the second controller unmasks nothing there: it leaves the second mask
  register alone and overwrites the first one, with the second one's mask.
\<close>

theorem irq_enable_second_controller:
  assumes "0x28 \<le> irq" and "irq < 0x30"
  shows "\<exists>m'. irq_enable irq m = Some m' \<and> ports m' PIC1_IMR = ports m PIC1_IMR \<and>
    (\<forall>i. bit (ports m' PIC0_IMR) i \<longleftrightarrow> bit (ports m PIC1_IMR) i \<and> int i \<noteq> irq - 0x28)"
  using assms
  by (simp add: irq_enable_def IRQ_PIC_START_def Let_def shl1_def outb_def inb_def bit_neg_shl pic_consts)

theorem irq_enable_second_controller_witness:
  "\<forall>m :: machine. \<exists>m'. irq_enable 0x2E m = Some m' \<and> ports m' PIC1_IMR = ports m PIC1_IMR"
  using irq_enable_second_controller [of "0x2E"] by fastforce

text \<open>
  \<open>irq_disable\<close> does not disable.  On a line of the first controller it leaves that line's mask bit
  as it was and sets all seven others; on a line of the second controller it shifts by a negative
  amount, which has no defined result.
\<close>

theorem irq_disable_masks_others:
  "(0x20 \<le> irq \<and> irq < 0x28 \<longrightarrow> (\<exists>m'. irq_disable irq m = Some m' \<and>
     (\<forall>i<8. bit (ports m' PIC0_IMR) i \<longleftrightarrow> (if int i = irq - 0x20 then bit (ports m PIC0_IMR) i else True)))) \<and>
   (0x28 \<le> irq \<and> irq < 0x40 \<longrightarrow> irq_disable irq m = None)"
  by (auto simp: irq_disable_def IRQ_PIC_START_def Let_def shl1_def outb_def inb_def bit_or_neg_shl)

theorem irq_disable_masks_others_witness:
  "\<forall>m :: machine. (\<exists>m'. irq_disable 0x20 m = Some m' \<and> bit (ports m' PIC0_IMR) 0 = bit (ports m PIC0_IMR) 0 \<and>
     bit (ports m' PIC0_IMR) 1) \<and> irq_disable 0x28 m = None"
proof
  fix m :: machine
  show "(\<exists>m'. irq_disable 0x20 m = Some m' \<and> bit (ports m' PIC0_IMR) 0 = bit (ports m PIC0_IMR) 0 \<and>
     bit (ports m' PIC0_IMR) 1) \<and> irq_disable 0x28 m = None"
    using irq_disable_masks_others [of "0x20" m] irq_disable_masks_others [of "0x28" m] by fastforce
qed

text \<open>
  C29: protected sections nest.  Take any stretch of code in which sections opened by
  \<open>irq_enter_protection\<close> are closed by \<open>irq_leave_protection\<close> with the state that the opening call returned,
  nested to any depth, and whose other steps leave the flag register alone.  At its end the flag
  register is what it was at its beginning; so it is at every point outside all of these sections; and
  at every point inside one, also behind the end of a section nested in it, interrupts are off.
\<close>

theorem protection_nests:
  fixes m m' :: "'a machine_scheme"
  assumes "sections irq_enter_protection irq_leave_protection eflags 0 m ps m'"
  shows "eflags m' = eflags m \<and> (\<forall>(d, x) \<in> set ps. if d = 0 then eflags x = eflags m else \<not> if_set x)"
  using irqs.sections_gate [OF assms] by (auto simp: if_set_def)

theorem protection_nests_witness:
  "\<forall>m :: machine. let (st1, m1) = irq_enter_protection m; (st2, m2) = irq_enter_protection m1;
      m3 = irq_leave_protection st2 (outb 0x20 0x20 m2); m4 = irq_leave_protection st1 m3
    in \<not> if_set m2 \<and> \<not> if_set m3 \<and> eflags m4 = eflags m"
proof
  fix m :: machine
  let ?st = "\<lambda>m. fst (irq_enter_protection m)" and ?in = "\<lambda>m. snd (irq_enter_protection m)"
  let ?S = "sections irq_enter_protection irq_leave_protection eflags"
  let ?m2 = "?in (?in m)" and ?m2' = "outb 0x20 0x20 (?in (?in m))"
  let ?m3 = "irq_leave_protection (?st (?in m)) ?m2'" and ?m4 = "irq_leave_protection (?st m) (irq_leave_protection (?st (?in m)) ?m2')"
  have enter: "irq_enter_protection x = (?st x, ?in x)" for x :: machine by simp
  have "?S 2 ?m2 [(2, ?m2), (2, ?m2')] ?m2'" by (rule sections.step [OF _ sections.stop]) (simp add: outb_def)
  then have "?S (Suc 1) ?m2 [(2, ?m2), (2, ?m2')] ?m2'" by (simp add: numeral_2_eq_2)
  from sections.nest [OF enter this sections.stop] have "?S (Suc 0) (?in m) [(1, ?in m), (2, ?m2), (2, ?m2'), (1, ?m3)] ?m3" by simp
  from protection_nests [OF sections.nest [OF enter this sections.stop]]
  show "let (st1, m1) = irq_enter_protection m; (st2, m2) = irq_enter_protection m1;
      m3 = irq_leave_protection st2 (outb 0x20 0x20 m2); m4 = irq_leave_protection st1 m3
    in \<not> if_set m2 \<and> \<not> if_set m3 \<and> eflags m4 = eflags m"
    by (simp add: case_prod_beta Let_def)
qed

text \<open>
  \<open>init_pic\<close> programs the two controllers with the initialisation words in the order the devices
  require, moves the hardware interrupts to vectors 0x20 to 0x2F, and masks every line but the
  cascade.
\<close>

theorem init_pic_sequence:
  "outs (init_pic m) = outs m @
    [(0x20, 0x11), (0x21, 0x20), (0x21, 0x04), (0x21, 0x01),
     (0xA0, 0x11), (0xA1, 0x28), (0xA1, 0x02), (0xA1, 0x01), (0x21, 0xFB), (0xA1, 0xFF)] \<and>
   ports (init_pic m) 0x21 = 0xFB \<and> ports (init_pic m) 0xA1 = 0xFF"
  by (simp add: init_pic_def outb_def Let_def pic_consts IRQ_PIC_START_def)

end
