(* ===== verification/Byte_Mem.thy ===== *)
theory Byte_Mem
  imports Prelude
begin

text \<open>
  Byte memory: sequences of bytes at an address, writing a sequence, the addresses it occupies, and
  zero-terminated strings.  Addresses wrap around at \<open>2 ^ 32\<close>, so the lemmas ask that a sequence is
  shorter than the address space.
\<close>

section \<open>Sequences of bytes\<close>

fun bytes_at :: "mem \<Rightarrow> addr \<Rightarrow> uint8_t list \<Rightarrow> bool" where
  "bytes_at m p [] \<longleftrightarrow> True"
| "bytes_at m p (x # xs) \<longleftrightarrow> m p = x \<and> bytes_at m (p + 1) xs"

fun write_bytes :: "addr \<Rightarrow> uint8_t list \<Rightarrow> mem \<Rightarrow> mem" where
  "write_bytes p [] m = m"
| "write_bytes p (x # xs) m = write_bytes (p + 1) xs (m(p := x))"

fun span :: "addr \<Rightarrow> nat \<Rightarrow> addr set" where
  "span p 0 = {}"
| "span p (Suc n) = insert p (span (p + 1) n)"

definition cstring :: "mem \<Rightarrow> addr \<Rightarrow> uint8_t list \<Rightarrow> bool" where
  "cstring m p xs \<longleftrightarrow> bytes_at m p (xs @ [0]) \<and> 0 \<notin> set xs"

lemma span_iff: "a \<in> span p n \<longleftrightarrow> (\<exists>i<n. a = p + of_nat i)"
proof (induction n arbitrary: p)
  case (Suc n)
  have "(\<exists>i<Suc n. a = p + of_nat i) \<longleftrightarrow> a = p \<or> (\<exists>i<n. a = p + 1 + of_nat i)"
    by (simp only: Ex_less_Suc2) (simp add: algebra_simps)
  with Suc show ?case by simp
qed simp

lemma span_append: "span p (m + n) = span p m \<union> span (p + of_nat m) n"
  by (induction m arbitrary: p) (simp_all add: algebra_simps)

lemma span_snoc: "span p (Suc n) = insert (p + of_nat n) (span p n)"
  using span_append [of p n 1] by simp

lemma not_in_span_snoc: "a \<notin> span p k \<Longrightarrow> k = Suc n \<Longrightarrow> a \<noteq> p + of_nat n \<and> a \<notin> span p n"
  by (simp only: span_snoc) simp

lemma span_mono: "m \<le> n \<Longrightarrow> span p m \<subseteq> span p n"
proof
  fix a assume le: "m \<le> n" and "a \<in> span p m"
  then obtain i where "i < m" and "a = p + of_nat i" unfolding span_iff by blast
  with le have "i < n" and "a = p + of_nat i" by simp_all
  then show "a \<in> span p n" unfolding span_iff by blast
qed

lemma before_span: "n < 2 ^ 32 \<Longrightarrow> p \<notin> span (p + 1) n"
proof
  assume n: "n < 2 ^ 32" and "p \<in> span (p + 1) n"
  then obtain i where "i < n" and "(0 :: addr) = of_nat (Suc i)" by (auto simp: span_iff)
  then have "of_nat (Suc i) = (of_nat 0 :: addr)" by simp
  with of_nat_inj_u32 [of "Suc i" 0] n \<open>i < n\<close> show False by simp
qed

lemma after_span: "n < 2 ^ 32 \<Longrightarrow> p + of_nat n \<notin> span p n"
  using of_nat_inj_u32 by (fastforce simp: span_iff)

lemma span_adjacent: "m + n \<le> 2 ^ 32 \<Longrightarrow> span p m \<inter> span (p + of_nat m) n = {}"
proof -
  assume le: "m + n \<le> 2 ^ 32"
  have False if "i < m" "j < n" "(p::addr) + of_nat i = p + of_nat m + of_nat j" for i j
  proof -
    from that(3) have "(of_nat i :: addr) = of_nat (m + j)" by (simp add: algebra_simps)
    with of_nat_inj_u32 [of i "m + j"] that(1,2) le show False by simp
  qed
  then show ?thesis by (auto simp: span_iff)
qed

lemma span_of_nat_disjoint:
  assumes "x + n \<le> y" and "y + m \<le> 2 ^ 32"
  shows "span (of_nat x) n \<inter> span (of_nat y) m = {}"
proof -
  have False if "i < n" "j < m" "(of_nat x :: addr) + of_nat i = of_nat y + of_nat j" for i j
  proof -
    have "(of_nat (x + i) :: addr) = of_nat (y + j)" using that(3) by simp
    with of_nat_inj_u32 [of "x + i" "y + j"] that(1,2) assms show False by simp
  qed
  then show ?thesis unfolding disjoint_iff span_iff by metis
qed

lemma span_sub:
  assumes "k + n \<le> N"
  shows "span (p + of_nat k) n \<subseteq> span p N"
proof
  fix a assume "a \<in> span (p + of_nat k) n"
  then obtain i where "i < n" "a = p + of_nat (k + i)" by (auto simp: span_iff add.assoc)
  moreover from this assms have "k + i < N" by simp
  ultimately show "a \<in> span p N" unfolding span_iff by blast
qed

lemma write_bytes_other: "a \<notin> span p (length xs) \<Longrightarrow> write_bytes p xs m a = m a"
  by (induction xs arbitrary: p m) auto

lemma write_bytes_append:
  "write_bytes p (xs @ ys) m = write_bytes (p + of_nat (length xs)) ys (write_bytes p xs m)"
  by (induction xs arbitrary: p m) (simp_all add: algebra_simps)

lemma bytes_at_append:
  "bytes_at m p (xs @ ys) \<longleftrightarrow> bytes_at m p xs \<and> bytes_at m (p + of_nat (length xs)) ys"
  by (induction xs arbitrary: p) (simp_all add: algebra_simps)

lemma bytes_at_cong:
  "(\<And>a. a \<in> span p (length xs) \<Longrightarrow> m' a = m a) \<Longrightarrow> bytes_at m' p xs = bytes_at m p xs"
  by (induction xs arbitrary: p) auto

lemma bytes_at_write: "length xs \<le> 2 ^ 32 \<Longrightarrow> bytes_at (write_bytes p xs m) p xs"
proof (induction xs arbitrary: p m)
  case (Cons x xs)
  then have "p \<notin> span (p + 1) (length xs)" by (intro before_span) simp
  with Cons show ?case by (simp add: write_bytes_other)
qed simp

lemma bytes_at_write_other:
  "span p (length xs) \<inter> span q (length ys) = {} \<Longrightarrow>
   bytes_at (write_bytes q ys m) p xs = bytes_at m p xs"
  by (rule bytes_at_cong, rule write_bytes_other) blast

lemma write_bytes_same: "bytes_at m p xs \<Longrightarrow> write_bytes p xs m = m"
proof (induction xs arbitrary: p)
  case (Cons x xs)
  then have "m(p := x) = m" by auto
  with Cons show ?case by simp
qed simp

lemma bytes_at_iff: "bytes_at m p xs \<longleftrightarrow> (\<forall>i<length xs. m (p + of_nat i) = xs ! i)"
  by (induction xs arbitrary: p) (simp_all add: All_less_Suc2 algebra_simps)

lemma bytes_at_nth: "bytes_at m p xs \<Longrightarrow> i < length xs \<Longrightarrow> m (p + of_nat i) = xs ! i"
  by (simp add: bytes_at_iff)

lemma write_bytes_at:
  "length xs \<le> 2 ^ 32 \<Longrightarrow> i < length xs \<Longrightarrow> write_bytes p xs m (p + of_nat i) = xs ! i"
  using bytes_at_write bytes_at_nth by blast

text \<open>Writing over what was just written.\<close>

lemma write_bytes_twice:
  assumes "length xs = length ys" and "length xs \<le> 2 ^ 32"
  shows "write_bytes p xs (write_bytes p ys m) = write_bytes p xs m"
proof
  fix a
  show "write_bytes p xs (write_bytes p ys m) a = write_bytes p xs m a"
  proof (cases "a \<in> span p (length xs)")
    case True
    then obtain i where "i < length xs" "a = p + of_nat i" by (auto simp: span_iff)
    with assms(2) show ?thesis by (simp add: write_bytes_at)
  next
    case False
    with assms(1) show ?thesis by (simp add: write_bytes_other)
  qed
qed

lemma write_bytes_eqI:
  assumes "length xs \<le> 2 ^ 32" and "bytes_at m' p xs" and "\<And>a. a \<notin> span p (length xs) \<Longrightarrow> m' a = m a"
  shows "m' = write_bytes p xs m"
proof
  fix a
  show "m' a = write_bytes p xs m a"
  proof (cases "a \<in> span p (length xs)")
    case True
    then obtain i where "i < length xs" "a = p + of_nat i" by (auto simp: span_iff)
    with assms show ?thesis by (simp add: write_bytes_at bytes_at_nth)
  next
    case False
    with assms(3) show ?thesis by (simp add: write_bytes_other)
  qed
qed

section \<open>Reading strings\<close>

text \<open>The bytes in front of the terminating zero.\<close>

partial_function (option) read_cstring :: "addr \<Rightarrow> mem \<Rightarrow> uint8_t list option" where
  "read_cstring p m =
    (if m p \<noteq> 0 then Option.bind (read_cstring (p + 1) m) (\<lambda>xs. Some (m p # xs)) else Some [])"

lemma read_cstring_eq: "cstring m p xs \<Longrightarrow> read_cstring p m = Some xs"
proof (induction xs arbitrary: p)
  case Nil
  then show ?case by (simp add: read_cstring.simps cstring_def)
next
  case (Cons x xs)
  then show ?case by (simp add: read_cstring.simps [of p] cstring_def)
qed

end
