(* ===== verification/Klib.thy ===== *)
theory Klib
  imports Byte_Mem
begin

text \<open>
  The kernel's string, memory and formatting routines: \<open>src/source/kernel/tools/klib.c\<close> and the two
  alignment functions of \<open>klib.h\<close>.  They act on byte memory.  A loop that runs until it finds a zero
  byte, or until a counter is zero, need not end: such loops are partial, \<open>None\<close> is "does not return".
  A function that can fall off its end without a \<open>return\<close> has the result type \<open>cret\<close>.
\<close>

section \<open>Alignment\<close>

definition down2 :: "uint32_t \<Rightarrow> uint32_t \<Rightarrow> uint32_t" where
  "down2 sz bound = sz AND NOT (bound - 1)"

definition up2 :: "uint32_t \<Rightarrow> uint32_t \<Rightarrow> uint32_t" where
  "up2 sz bound = (sz + bound - 1) AND NOT (bound - 1)"

section \<open>Strings\<close>

datatype cret = Returns int | No_return

partial_function (option) strcpy_loop :: "addr \<Rightarrow> addr \<Rightarrow> mem \<Rightarrow> (addr \<times> mem) option" where
  "strcpy_loop dest src m =
    (if m dest \<noteq> 0 \<and> m src \<noteq> 0 then strcpy_loop (dest + 1) (src + 1) (m(dest := m src))
     else Some (dest, m))"

definition kernel_strcpy :: "addr \<Rightarrow> addr \<Rightarrow> mem \<Rightarrow> mem option" where
  "kernel_strcpy dest src m =
    (if dest = NULL \<or> src = NULL then Some m
     else map_option (\<lambda>(d, m'). m'(d := 0)) (strcpy_loop dest src m))"

text \<open>
  The loop \<open>while (size-- && *s)\<close>: the counter is decremented once more when the loop ends.
\<close>

partial_function (option) strncpy_loop ::
    "int \<Rightarrow> addr \<Rightarrow> addr \<Rightarrow> mem \<Rightarrow> (int \<times> addr \<times> mem) option" where
  "strncpy_loop sz d s m =
    (if sz \<noteq> 0 \<and> m s \<noteq> 0 then strncpy_loop (sz - 1) (d + 1) (s + 1) (m(d := m s))
     else Some (sz - 1, d, m))"

definition kernel_strncpy :: "addr \<Rightarrow> addr \<Rightarrow> int \<Rightarrow> mem \<Rightarrow> mem option" where
  "kernel_strncpy dest src sz m =
    (if dest = NULL \<or> src = NULL \<or> sz = 0 then Some m
     else map_option (\<lambda>(sz', d, m'). if sz' = 0 then m'(d - 1 := 0) else m'(d := 0))
       (strncpy_loop sz dest src m))"

partial_function (option) strncmp_loop :: "addr \<Rightarrow> addr \<Rightarrow> int \<Rightarrow> mem \<Rightarrow> cret option" where
  "strncmp_loop s1 s2 sz m =
    (if m s1 \<noteq> 0 \<and> m s2 \<noteq> 0 then
       if sz \<noteq> 0 then
         if m s1 \<noteq> m s2 then Some (Returns 1) else strncmp_loop (s1 + 1) (s2 + 1) (sz - 1) m
       else Some No_return
     else if sz = 0 then Some (Returns 0) else Some No_return)"

definition kernel_strncmp :: "addr \<Rightarrow> addr \<Rightarrow> int \<Rightarrow> mem \<Rightarrow> cret option" where
  "kernel_strncmp s1 s2 sz m =
    (if s1 = NULL \<or> s2 = NULL then Some (Returns 0) else strncmp_loop s1 s2 sz m)"

partial_function (option) strlen_loop :: "addr \<Rightarrow> int \<Rightarrow> mem \<Rightarrow> int option" where
  "strlen_loop p len m = (if m p \<noteq> 0 then strlen_loop (p + 1) (len + 1) m else Some len)"

definition kernel_strlen :: "addr \<Rightarrow> mem \<Rightarrow> int option" where
  "kernel_strlen s m = (if s = NULL then Some 0 else strlen_loop s 0 m)"

section \<open>Memory\<close>

partial_function (option) memcpy_loop :: "addr \<Rightarrow> addr \<Rightarrow> int \<Rightarrow> mem \<Rightarrow> mem option" where
  "memcpy_loop d s sz m =
    (if sz \<noteq> 0 then memcpy_loop (d + 1) (s + 1) (sz - 1) (m(d := m s)) else Some m)"

text \<open>
  The source pointer is taken as \<open>(uint8_t *)&src\<close>, the address of the parameter itself: \<open>src_slot\<close> is
  that address, in the caller's frame.
\<close>

definition kernel_memcpy :: "addr \<Rightarrow> addr \<Rightarrow> addr \<Rightarrow> int \<Rightarrow> mem \<Rightarrow> mem option" where
  "kernel_memcpy src_slot dest src sz m =
    (if dest = NULL \<or> src = NULL \<or> sz = 0 then Some m else memcpy_loop dest src_slot sz m)"

partial_function (option) memset_loop :: "addr \<Rightarrow> uint8_t \<Rightarrow> int \<Rightarrow> mem \<Rightarrow> mem option" where
  "memset_loop d v sz m = (if sz \<noteq> 0 then memset_loop (d + 1) v (sz - 1) (m(d := v)) else Some m)"

definition kernel_memset :: "addr \<Rightarrow> uint8_t \<Rightarrow> int \<Rightarrow> mem \<Rightarrow> mem option" where
  "kernel_memset dest v sz m =
    (if dest = NULL \<or> sz = 0 then Some m else memset_loop dest v sz m)"

partial_function (option) memcmp_loop :: "addr \<Rightarrow> addr \<Rightarrow> int \<Rightarrow> mem \<Rightarrow> cret option" where
  "memcmp_loop s1 s2 sz m =
    (if sz \<noteq> 0 then
       if m s1 \<noteq> m s2 then Some (Returns 1) else memcmp_loop (s1 + 1) (s2 + 1) (sz - 1) m
     else Some No_return)"

definition kernel_memcmp :: "addr \<Rightarrow> addr \<Rightarrow> int \<Rightarrow> mem \<Rightarrow> cret option" where
  "kernel_memcmp d1 d2 sz m =
    (if d1 = NULL \<or> d2 = NULL \<or> sz = 0 then Some (Returns 0) else memcmp_loop d1 d2 sz m)"

section \<open>Numbers\<close>

definition numchar :: "uint8_t list" where
  "numchar = map of_char ''FEDCBA9876543210123456789ABCDEF''"

partial_function (option) itoa_digits :: "int \<Rightarrow> int \<Rightarrow> addr \<Rightarrow> mem \<Rightarrow> (addr \<times> mem) option" where
  "itoa_digits num base str m =
    (let m1 = m(str := numchar ! nat (num smod base + 15));
         num1 = num sdiv base
     in if num1 \<noteq> 0 then itoa_digits num1 base (str + 1) m1 else Some (str + 1, m1))"

partial_function (option) reverse_loop :: "addr \<Rightarrow> addr \<Rightarrow> mem \<Rightarrow> mem option" where
  "reverse_loop start str m =
    (if start < str then reverse_loop (start + 1) (str - 1) (m(start := m str, str := m start))
     else Some m)"

definition kernel_itoa :: "int \<Rightarrow> addr \<Rightarrow> int \<Rightarrow> mem \<Rightarrow> mem option" where
  "kernel_itoa num buf base m =
    (if base \<noteq> 2 \<and> base \<noteq> 8 \<and> base \<noteq> 10 \<and> base \<noteq> 16 then Some (m(buf := 0))
     else
       let (str, start, m1) =
         (if num < 0 \<and> base = 10 then (buf + 1, buf + 1, m(buf := of_char CHR ''-''))
          else (buf, buf, m))
       in Option.bind (itoa_digits num base str m1)
            (\<lambda>(str2, m2). reverse_loop start (str2 - 1) (m2(str2 := 0))))"

section \<open>Formatted output\<close>

text \<open>A variable argument: an integer, or the address of a string.\<close>

datatype va = VInt int | VPtr addr

datatype fmt_state = NORMAL | READ_FMT

definition advance :: "addr \<Rightarrow> mem \<Rightarrow> (addr \<times> mem) option" where
  "advance p m = map_option (\<lambda>n. (p + word_of_int n, m)) (kernel_strlen p m)"

text \<open>
  One conversion of \<open>kernel_vsprintf\<close>.  A missing argument, or one of the wrong type, has no meaning in C.
\<close>

fun convert :: "uint8_t \<Rightarrow> va list \<Rightarrow> addr \<Rightarrow> mem \<Rightarrow> (va list \<times> addr \<times> mem) option" where
  "convert ch args p m =
    (if ch = of_char CHR ''s'' then
       case args of
         VPtr str # rest \<Rightarrow>
           Option.bind (kernel_strlen str m)
             (\<lambda>len. map_option (\<lambda>m'. (rest, p + word_of_int len, m')) (memcpy_loop p str len m))
       | _ \<Rightarrow> None
     else if ch = of_char CHR ''d'' then
       case args of
         VInt num # rest \<Rightarrow>
           Option.bind (Option.bind (kernel_itoa num p 10 m) (advance p))
             (\<lambda>(p', m'). Some (rest, p', m'))
       | _ \<Rightarrow> None
     else if ch = of_char CHR ''c'' then
       case args of
         VInt num # rest \<Rightarrow> Some (rest, p + 1, m(p := word_of_int num))
       | _ \<Rightarrow> None
     else if ch = of_char CHR ''x'' then
       case args of
         VInt num # rest \<Rightarrow>
           Option.bind (Option.bind (kernel_itoa num p 16 m) (advance p))
             (\<lambda>(p', m'). Some (rest, p', m'))
       | _ \<Rightarrow> None
     else Some (args, p, m))"

fun vsprintf_loop ::
    "fmt_state \<Rightarrow> uint8_t list \<Rightarrow> va list \<Rightarrow> addr \<Rightarrow> mem \<Rightarrow> (addr \<times> mem) option" where
  "vsprintf_loop st [] args p m = Some (p, m)"
| "vsprintf_loop NORMAL (ch # fmt) args p m =
    (if ch = of_char CHR ''%'' then vsprintf_loop READ_FMT fmt args p m
     else vsprintf_loop NORMAL fmt args (p + 1) (m(p := ch)))"
| "vsprintf_loop READ_FMT (ch # fmt) args p m =
    Option.bind (convert ch args p m)
      (\<lambda>(args', p', m'). vsprintf_loop NORMAL fmt args' p' m')"

text \<open>The format is given as the bytes in front of its terminating zero.\<close>

definition kernel_vsprintf :: "addr \<Rightarrow> uint8_t list \<Rightarrow> va list \<Rightarrow> mem \<Rightarrow> mem option" where
  "kernel_vsprintf str_buf fmt args m =
    map_option snd (vsprintf_loop NORMAL fmt args str_buf m)"

definition kernel_sprintf :: "addr \<Rightarrow> uint8_t list \<Rightarrow> va list \<Rightarrow> mem \<Rightarrow> mem option" where
  "kernel_sprintf buffer fmt args m = kernel_vsprintf buffer fmt args m"

declare convert.simps [simp del]

section \<open>Alignment rounds to multiples of a power of two\<close>

lemma not_mask_word: "(x :: uint32_t) AND NOT (mask k) = push_bit k (drop_bit k x)"
  by (rule bit_word_eqI) (auto simp: bit_simps)

lemma down2_eq: "down2 x (2 ^ k) = push_bit k (drop_bit k x)"
  by (simp add: down2_def not_mask_word flip: mask_eq_exp_minus_1)

lemma unat_push_drop: "unat (push_bit k (drop_bit k (x :: uint32_t))) = 2 ^ k * (unat x div 2 ^ k)"
proof -
  have le: "unat x div 2 ^ k * 2 ^ k \<le> unat x" by (simp add: div_times_less_eq_dividend)
  have lt: "unat x < 2 ^ LENGTH(32)" by (rule unsigned_less)
  have "unat (push_bit k (drop_bit k x)) = (unat (drop_bit k x) * 2 ^ k) mod 2 ^ 32"
    by (simp add: unsigned_push_bit_eq) (simp add: push_bit_eq_mult take_bit_eq_mod)
  also have "unat (drop_bit k x) = unat x div 2 ^ k" by (subst unat_drop_bit_eq) (simp add: drop_bit_eq_div)
  also have "(unat x div 2 ^ k * 2 ^ k) mod 2 ^ 32 = unat x div 2 ^ k * 2 ^ k"
    using le_less_trans [OF le lt] by (intro mod_less) simp
  finally show ?thesis by (simp add: mult.commute)
qed

lemma unat_down2: "unat (down2 x (2 ^ k)) = 2 ^ k * (unat x div 2 ^ k)"
  by (simp add: down2_eq unat_push_drop)

section \<open>Strings\<close>

lemma cstring_Nil [simp]: "cstring m p [] \<longleftrightarrow> m p = 0"
  by (simp add: cstring_def)

lemma cstring_Cons [simp]: "cstring m p (x # xs) \<longleftrightarrow> m p = x \<and> x \<noteq> 0 \<and> cstring m (p + 1) xs"
  by (auto simp: cstring_def)

lemma strlen_loop_cstring: "cstring m p xs \<Longrightarrow> strlen_loop p n m = Some (n + int (length xs))"
proof (induction xs arbitrary: p n)
  case Nil
  then show ?case by (simp add: strlen_loop.simps)
next
  case (Cons x xs)
  then show ?case by (simp add: strlen_loop.simps [of p])
qed

lemma kernel_strlen_cstring:
  "cstring m p xs \<Longrightarrow> p \<noteq> NULL \<Longrightarrow> kernel_strlen p m = Some (int (length xs))"
  by (simp add: kernel_strlen_def strlen_loop_cstring)

lemma memset_loop_eq: "memset_loop d v (int n) m = Some (write_bytes d (replicate n v) m)"
proof (induction n arbitrary: d m)
  case 0
  then show ?case by (simp add: memset_loop.simps)
next
  case (Suc n)
  then show ?case by (simp add: memset_loop.simps [of d v "1 + int n"] fun_upd_def)
qed

lemma kernel_memset_eq:
  "dest \<noteq> NULL \<Longrightarrow> kernel_memset dest v (int n) m = Some (write_bytes dest (replicate n v) m)"
  by (cases n) (simp_all add: kernel_memset_def memset_loop_eq del: of_nat_Suc)

text \<open>Copying a sequence that the target does not overlap.\<close>

lemma memcpy_loop_eq:
  assumes "bytes_at m s xs" and "span d (length xs) \<inter> span s (length xs) = {}"
  shows "memcpy_loop d s (int (length xs)) m = Some (write_bytes d xs m)"
  using assms
proof (induction xs arbitrary: d s m)
  case Nil
  then show ?case by (simp add: memcpy_loop.simps)
next
  case (Cons x xs)
  have "bytes_at (m(d := x)) (s + 1) xs = bytes_at m (s + 1) xs"
    using Cons.prems(2) by (intro bytes_at_cong) auto
  moreover have "span (d + 1) (length xs) \<inter> span (s + 1) (length xs) = {}"
    using Cons.prems(2) by auto
  ultimately show ?case
    using Cons.IH [of "m(d := x)" "s + 1" "d + 1"] Cons.prems(1)
    by (simp add: memcpy_loop.simps [of d s "1 + int (length xs)"] fun_upd_def)
qed

lemma memcmp_loop_eq:
  assumes "bytes_at m p xs" and "bytes_at m q ys" and "length xs = length ys"
  shows "memcmp_loop p q (int (length xs)) m = Some (if xs = ys then No_return else Returns 1)"
  using assms(3,1,2)
proof (induction xs ys arbitrary: p q rule: list_induct2)
  case Nil
  then show ?case by (simp add: memcmp_loop.simps)
next
  case (Cons x xs y ys)
  then show ?case by (simp add: memcmp_loop.simps [of p q "1 + int (length ys)"])
qed

lemma kernel_memcmp_eq:
  assumes "bytes_at m p xs" and "bytes_at m q ys" and "length xs = length ys" and "xs \<noteq> []"
    and "p \<noteq> NULL" and "q \<noteq> NULL"
  shows "kernel_memcmp p q (int (length xs)) m = Some (if xs = ys then No_return else Returns 1)"
  using assms memcmp_loop_eq [OF assms(1-3)] by (auto simp: kernel_memcmp_def)

text \<open>\<open>kernel_strncpy\<close> on a string shorter than the size, and on the other ones.\<close>

lemma strncpy_loop_short:
  assumes "cstring m s xs" and "int (length xs) < n"
    and "span d (length xs) \<inter> span s (Suc (length xs)) = {}"
  shows "strncpy_loop n d s m =
    Some (n - int (length xs) - 1, d + of_nat (length xs), write_bytes d xs m)"
  using assms
proof (induction xs arbitrary: n d s m)
  case Nil
  then show ?case by (simp add: strncpy_loop.simps)
next
  case (Cons x xs)
  have "cstring (m(d := x)) (s + 1) xs = cstring m (s + 1) xs"
    using Cons.prems(3) unfolding cstring_def by (intro conj_cong bytes_at_cong) auto
  moreover have "span (d + 1) (length xs) \<inter> span (s + 1) (Suc (length xs)) = {}"
    using Cons.prems(3) by auto
  ultimately show ?case
    using Cons.IH [of "m(d := x)" "s + 1" "n - 1" "d + 1"] Cons.prems(1,2)
    by (simp add: strncpy_loop.simps [of n d s] fun_upd_def algebra_simps)
qed

lemma strncpy_loop_long:
  assumes "bytes_at m s xs" and "0 \<notin> set xs" and "span d (length xs) \<inter> span s (length xs) = {}"
  shows "strncpy_loop (int (length xs)) d s m =
    Some (- 1, d + of_nat (length xs), write_bytes d xs m)"
  using assms
proof (induction xs arbitrary: d s m)
  case Nil
  then show ?case by (simp add: strncpy_loop.simps)
next
  case (Cons x xs)
  have "bytes_at (m(d := x)) (s + 1) xs = bytes_at m (s + 1) xs"
    using Cons.prems(3) by (intro bytes_at_cong) auto
  moreover have "span (d + 1) (length xs) \<inter> span (s + 1) (length xs) = {}"
    using Cons.prems(3) by auto
  ultimately show ?case
    using Cons.IH [of "m(d := x)" "s + 1" "d + 1"] Cons.prems(1,2)
    by (simp add: strncpy_loop.simps [of "1 + int (length xs)"] fun_upd_def algebra_simps)
qed

section \<open>Numbers\<close>

text \<open>The digits of a number, least significant first, and their characters.\<close>

fun rdigits :: "nat \<Rightarrow> nat \<Rightarrow> nat list" where
  "rdigits b n = (if b < 2 \<or> n < b then [n] else (n mod b) # rdigits b (n div b))"

declare rdigits.simps [simp del]

definition dchar :: "nat \<Rightarrow> uint8_t" where
  "dchar k = numchar ! (15 + k)"

definition itoa_text :: "int \<Rightarrow> int \<Rightarrow> uint8_t list" where
  "itoa_text num base =
    (if num < 0 \<and> base = 10 then [of_char CHR ''-''] else []) @
    map dchar (rev (rdigits (nat base) (nat \<bar>num\<bar>)))"

lemma less_16_cases: "(k::nat) < 16 \<Longrightarrow> k \<in> {0, 1, 2, 3, 4, 5, 6, 7, 8, 9, 10, 11, 12, 13, 14, 15}"
  by (simp, presburger)

lemma numchar_mirror: "k < 16 \<Longrightarrow> numchar ! (15 - k) = numchar ! (15 + k)"
  by (drule less_16_cases) (auto simp: numchar_def)

lemma numchar_smod:
  assumes "0 < base" and "base \<le> 16"
  shows "numchar ! nat (num smod base + 15) = dchar (nat \<bar>num\<bar> mod nat base)"
proof -
  define k where "k = nat \<bar>num\<bar> mod nat base"
  have k: "int k = \<bar>num\<bar> mod base" using assms by (simp add: k_def zmod_int)
  have "k < nat base" using assms by (simp add: k_def)
  with assms have "k < 16" by linarith
  have "num smod base = (if num < 0 then - int k else int k)"
    using assms(1) k by (simp add: signed_modulo_int_def sgn_if)
  then have "nat (num smod base + 15) = (if num < 0 then 15 - k else 15 + k)"
    using \<open>k < 16\<close> by auto
  then show ?thesis using numchar_mirror [OF \<open>k < 16\<close>] by (simp add: dchar_def k_def [symmetric])
qed

lemma abs_sdiv: "0 < base \<Longrightarrow> nat \<bar>num sdiv base\<bar> = nat \<bar>num\<bar> div nat base"
proof -
  assume b: "0 < base"
  have "\<bar>num sdiv base\<bar> = \<bar>num\<bar> div base"
  proof (cases "num = 0")
    case False
    moreover have "0 \<le> \<bar>num\<bar> div base" using b by (simp add: pos_imp_zdiv_nonneg_iff)
    ultimately show ?thesis using b by (simp add: signed_divide_int_def abs_mult)
  qed (simp add: signed_divide_int_def)
  with b show ?thesis by (simp add: nat_div_distrib)
qed

lemma itoa_digits_eq:
  assumes "1 < base" and "base \<le> 16"
  shows "itoa_digits num base str m =
    Some (str + of_nat (length (rdigits (nat base) (nat \<bar>num\<bar>))),
      write_bytes str (map dchar (rdigits (nat base) (nat \<bar>num\<bar>))) m)"
proof (induction "nat \<bar>num\<bar>" arbitrary: num str m rule: less_induct)
  case less
  let ?n = "nat \<bar>num\<bar>" and ?b = "nat base"
  have b: "\<not> ?b < 2" and b0: "0 < base" using assms by auto
  have ch: "numchar ! nat (num smod base + 15) = dchar (?n mod ?b)"
    using assms by (intro numchar_smod) auto
  have zero: "num sdiv base = 0 \<longleftrightarrow> ?n < ?b"
  proof -
    have "num sdiv base = 0 \<longleftrightarrow> nat \<bar>num sdiv base\<bar> = 0" by simp
    also have "\<dots> \<longleftrightarrow> ?n < ?b" unfolding abs_sdiv [OF b0] using b by (simp only: div_eq_0_iff) auto
    finally show ?thesis .
  qed
  show ?case
  proof (cases "?n < ?b")
    case True
    then show ?thesis
      using ch zero by (simp add: itoa_digits.simps [of num] rdigits.simps [of ?b ?n] fun_upd_def)
  next
    case False
    then have "nat \<bar>num sdiv base\<bar> < ?n" unfolding abs_sdiv [OF b0] using b by (intro div_less_dividend) auto
    note IH = less [OF this, of "str + 1" "m(str := dchar (?n mod ?b))"]
    from False b have "rdigits ?b ?n = (?n mod ?b) # rdigits ?b (?n div ?b)"
      by (simp add: rdigits.simps [of ?b ?n])
    with IH False zero ch abs_sdiv [OF b0] show ?thesis
      by (simp add: itoa_digits.simps [of num] fun_upd_def algebra_simps)
  qed
qed

text \<open>Swapping the ends of a string and reversing the middle reverses it.\<close>

lemma swap_ends:
  fixes start :: addr and ys :: "uint8_t list"
  defines "e \<equiv> start + of_nat (Suc (length ys))"
  assumes "unat start + Suc (Suc (length ys)) \<le> 2 ^ 32"
  shows "write_bytes (start + 1) (rev ys) (m(start := m e, e := m start)) = write_bytes start (m e # rev ys @ [m start]) m"
proof (rule write_bytes_eqI)
  let ?n = "length ys" and ?m = "m(start := m e, e := m start)"
  show "length (m e # rev ys @ [m start]) \<le> 2 ^ 32" using assms(2) by simp
  have "start \<notin> span (start + 1) ?n" using assms(2) by (intro before_span) simp
  moreover have "e \<notin> span (start + 1) ?n"
    using after_span [of ?n "start + 1"] assms(2) by (simp add: e_def algebra_simps)
  moreover have "unat e = unat start + Suc ?n" using assms(2) by (simp add: e_def unat_word_ariths unat_of_nat)
  then have "start \<noteq> e" by auto
  ultimately show "bytes_at (write_bytes (start + 1) (rev ys) ?m) start (m e # rev ys @ [m start])"
    using assms(2) bytes_at_write [of "rev ys" "start + 1" ?m]
    by (simp add: bytes_at_append write_bytes_other e_def algebra_simps)
  show "write_bytes (start + 1) (rev ys) ?m a = m a" if "a \<notin> span start (length (m e # rev ys @ [m start]))" for a
    using not_in_span_snoc [OF that, of "Suc ?n"] by (simp add: write_bytes_other e_def)
qed

lemma bytes_at_between:
  assumes "unat start + Suc (Suc (length ys)) \<le> 2 ^ 32"
  shows "bytes_at (m(start := x, start + of_nat (Suc (length ys)) := y)) (start + 1) ys = bytes_at m (start + 1) ys"
proof (rule bytes_at_cong)
  let ?e = "start + of_nat (Suc (length ys))"
  fix a assume "a \<in> span (start + 1) (length ys)"
  moreover have "start \<notin> span (start + 1) (length ys)" using assms by (intro before_span) simp
  moreover have "?e \<notin> span (start + 1) (length ys)"
    using after_span [of "length ys" "start + 1"] assms by (simp add: algebra_simps)
  ultimately show "(m(start := x, ?e := y)) a = m a" by auto
qed

lemma reverse_loop_eq:
  assumes "bytes_at m start xs" and "unat start + length xs \<le> 2 ^ 32" and "xs \<noteq> [] \<or> start \<noteq> 0"
  shows "reverse_loop start (start + of_nat (length xs) - 1) m = Some (write_bytes start (rev xs) m)"
  using assms
proof (induction "length xs" arbitrary: start xs m rule: less_induct)
  case less
  consider "xs = []" | x where "xs = [x]" | x ys y where "xs = x # ys @ [y]"
  proof (cases xs)
    case (Cons x zs)
    then show ?thesis using that by (cases zs rule: rev_cases) auto
  qed
  then show ?case
  proof cases
    case 1
    with less.prems(3) have "\<not> start < start - 1"
      by (simp add: not_less word_le_nat_alt unat_minus_one)
    with 1 show ?thesis by (simp add: reverse_loop.simps [of start])
  next
    case 2
    with less.prems(1) have "m(start := x) = m" by auto
    with 2 show ?thesis by (simp add: reverse_loop.simps [of start])
  next
    case 3
    let ?n = "length ys" and ?e = "start + of_nat (Suc (length ys))"
    let ?m = "m(start := m ?e, ?e := m start)"
    have un: "unat ?e = unat start + Suc ?n"
      using less.prems(2) 3 by (simp add: unat_word_ariths unat_of_nat)
    have lt: "start < ?e" using un by (simp add: word_less_nat_alt)
    have my: "m ?e = y" and mx: "m start = x" and mid: "bytes_at m (start + 1) ys"
      using less.prems(1) 3 by (simp_all add: bytes_at_append algebra_simps)
    have "bytes_at ?m (start + 1) ys = bytes_at m (start + 1) ys"
      using less.prems(2) 3 by (intro bytes_at_between) simp
    moreover have "unat (start + 1) = unat start + 1"
      using less.prems(2) 3 by (simp add: unat_word_ariths)
    ultimately have "reverse_loop (start + 1) (start + 1 + of_nat ?n - 1) ?m =
        Some (write_bytes (start + 1) (rev ys) ?m)"
      using less.prems(2) 3 mid by (intro less.hyps) (auto simp: unat_eq_zero [symmetric] simp del: unat_eq_zero)
    then have step: "reverse_loop start ?e m = Some (write_bytes (start + 1) (rev ys) ?m)"
      using lt by (simp add: reverse_loop.simps [of start] fun_upd_def algebra_simps)
    have "write_bytes (start + 1) (rev ys) ?m = write_bytes start (rev xs) m"
      using swap_ends [of start ys m] less.prems(2) 3 my mx by simp
    with step 3 show ?thesis by (simp add: algebra_simps)
  qed
qed

text \<open>A string just written, terminated and then reversed in place.\<close>

lemma reverse_terminated:
  assumes "unat start + length ds < 2 ^ 32" and "ds \<noteq> []"
  shows "reverse_loop start (start + of_nat (length ds) - 1)
      ((write_bytes start ds m)(start + of_nat (length ds) := 0)) = Some (write_bytes start (rev ds @ [0]) m)"
proof -
  let ?e = "start + of_nat (length ds)" and ?m2 = "write_bytes start ds m"
  have out: "?e \<notin> span start (length ds)" using assms(1) by (intro after_span) simp
  have "reverse_loop start (?e - 1) (?m2(?e := 0)) = Some (write_bytes start (rev ds) (?m2(?e := 0)))"
  proof (rule reverse_loop_eq)
    have "bytes_at (?m2(?e := 0)) start ds = bytes_at ?m2 start ds"
      using out by (intro bytes_at_cong) auto
    then show "bytes_at (?m2(?e := 0)) start ds" using assms(1) by (simp add: bytes_at_write)
  qed (use assms in auto)
  also have "write_bytes start (rev ds) (?m2(?e := 0)) = write_bytes start (rev ds @ [0]) m"
  proof (rule write_bytes_eqI)
    show "length (rev ds @ [0]) \<le> 2 ^ 32" using assms(1) by simp
    show "bytes_at (write_bytes start (rev ds) (?m2(?e := 0))) start (rev ds @ [0])"
      using assms(1) out bytes_at_write [of "rev ds" start "?m2(?e := 0)"]
      by (simp add: bytes_at_append write_bytes_other)
    show "write_bytes start (rev ds) (?m2(?e := 0)) a = m a"
      if "a \<notin> span start (length (rev ds @ [0]))" for a
      using not_in_span_snoc [OF that, of "length ds"] by (simp add: write_bytes_other)
  qed
  finally show ?thesis .
qed

lemma kernel_itoa_eq:
  assumes "base \<in> {2, 8, 10, 16}" and "unat buf + length (itoa_text num base) < 2 ^ 32"
  shows "kernel_itoa num buf base m = Some (write_bytes buf (itoa_text num base @ [0]) m)"
proof -
  let ?ds = "map dchar (rdigits (nat base) (nat \<bar>num\<bar>))"
  let ?neg = "num < 0 \<and> base = 10"
  define start where "start = (if ?neg then buf + 1 else buf)"
  define m1 where "m1 = (if ?neg then m(buf := of_char CHR ''-'') else m)"
  have b: "1 < base" "base \<le> 16" using assms(1) by auto
  have ne: "?ds \<noteq> []" by (simp add: rdigits.simps)
  have tx: "itoa_text num base = (if ?neg then [of_char CHR ''-''] else []) @ rev ?ds"
    by (simp add: itoa_text_def rev_map)
  have un: "unat start + length ?ds < 2 ^ 32"
    using assms(2) unfolding tx start_def by (auto simp: unat_word_ariths)
  let ?e = "start + of_nat (length ?ds)" and ?m2 = "write_bytes start ?ds m1"
  have "kernel_itoa num buf base m = reverse_loop start (?e - 1) (?m2(?e := 0))"
    using assms(1) itoa_digits_eq [OF b, of num start m1]
    by (auto simp: kernel_itoa_def start_def m1_def)
  also have "\<dots> = Some (write_bytes start (rev ?ds @ [0]) m1)" using un ne by (rule reverse_terminated)
  also have "write_bytes start (rev ?ds @ [0]) m1 = write_bytes buf (itoa_text num base @ [0]) m"
    unfolding tx start_def m1_def by simp
  finally show ?thesis .
qed

text \<open>Reading a printed number back.\<close>

definition digit_val :: "uint8_t \<Rightarrow> nat" where
  "digit_val c = (if c \<le> 57 then unat c - 48 else unat c - 55)"

definition read_nat :: "nat \<Rightarrow> uint8_t list \<Rightarrow> nat" where
  "read_nat b cs = foldl (\<lambda>acc c. acc * b + digit_val c) 0 cs"

definition read_int :: "uint8_t list \<Rightarrow> int" where
  "read_int cs =
    (case cs of [] \<Rightarrow> 0
     | c # rest \<Rightarrow> if c = of_char CHR ''-'' then - int (read_nat 10 rest) else int (read_nat 10 cs))"

lemma digit_val_dchar: "k < 16 \<Longrightarrow> digit_val (dchar k) = k"
  by (drule less_16_cases) (auto simp: digit_val_def dchar_def numchar_def)

lemma dchar_neq: "k < 16 \<Longrightarrow> dchar k \<noteq> of_char CHR ''-''" "k < 16 \<Longrightarrow> dchar k \<noteq> 0"
  by (drule less_16_cases, auto simp: dchar_def numchar_def)+

lemma rdigits_bound: "2 \<le> b \<Longrightarrow> d \<in> set (rdigits b n) \<Longrightarrow> d < b"
proof (induction b n rule: rdigits.induct)
  case (1 b n)
  then show ?case by (cases "n < b") (auto simp: rdigits.simps [of b n])
qed

lemma read_nat_rdigits:
  assumes "2 \<le> b" and "b \<le> 16"
  shows "read_nat b (map dchar (rev (rdigits b n))) = n"
  using assms
proof (induction b n rule: rdigits.induct)
  case (1 b n)
  show ?case
  proof (cases "n < b")
    case True
    with "1.prems" show ?thesis by (simp add: rdigits.simps [of b n] read_nat_def digit_val_dchar)
  next
    case False
    have "n mod b < b" using "1.prems" by simp
    then have "n mod b < 16" using "1.prems"(2) by (rule less_le_trans)
    with False 1 show ?thesis
      by (simp add: rdigits.simps [of b n] read_nat_def digit_val_dchar)
  qed
qed

lemma rdigits_nonempty: "rdigits b n \<noteq> []"
  by (simp add: rdigits.simps)

lemma read_itoa_text: "read_int (itoa_text num 10) = num"
proof -
  let ?ds = "map dchar (rev (rdigits 10 (nat \<bar>num\<bar>)))"
  obtain d ds where ds: "?ds = d # ds" using rdigits_nonempty by (metis list.exhaust map_is_Nil_conv rev_is_Nil_conv)
  then have "d \<in> dchar ` set (rdigits 10 (nat \<bar>num\<bar>))"
    by (metis image_set list.set_intros(1) set_rev)
  then have "d \<noteq> of_char CHR ''-''" using rdigits_bound [of 10] dchar_neq(1) by fastforce
  moreover have "read_nat 10 ?ds = nat \<bar>num\<bar>" by (rule read_nat_rdigits) simp_all
  ultimately show ?thesis
    using ds by (cases "num < 0") (simp_all add: itoa_text_def read_int_def del: of_char_Char)
qed

lemma itoa_text_no_zero:
  assumes "base \<in> {2, 8, 10, 16}"
  shows "0 \<notin> set (itoa_text num base)"
proof -
  have "d < 16" if "d \<in> set (rdigits (nat base) (nat \<bar>num\<bar>))" for d
    using rdigits_bound [OF _ that] assms by auto
  then show ?thesis using dchar_neq(2) by (fastforce simp: itoa_text_def)
qed

end
