(* ===== verification/Kernel_State.thy ===== *)
theory Kernel_State
  imports Klist Irq Klib
begin

text \<open>
  The state of the running kernel: the structures of \<open>include/core/task.h\<close>, \<open>include/ipc/mutex.h\<close>,
  \<open>include/ipc/sem.h\<close> and \<open>include/cpu/cpu.h\<close>, and what the processor keeps of a task that is not
  running.

  Objects are identified by their addresses.  A \<open>task_t\<close> occupies 180 bytes; the offsets below are
  those of its members in the 32-bit layout, so that \<open>list_node_parent\<close> is the address arithmetic of
  the source.  The three list nodes of a task live in the heap of nodes, its name in byte memory, and
  the other members in the map \<open>tasks\<close>.

  A task switch leaves a function in the middle: \<open>task_dispatch\<close> jumps to the other task and returns
  only when its own task is dispatched again.  Each C function is therefore cut at the calls that may
  switch, and the piece after such a call is a value of type \<open>frame\<close>.  \<open>kstack\<close> holds the pieces the
  running task still has to execute, innermost first, and \<open>saved\<close> those of every task that was
  switched away.  A task with no frame runs its own code.
\<close>

section \<open>Tasks\<close>

record tss_t =
  tss_pre_link :: uint32_t
  tss_esp0 :: uint32_t
  tss_ss0 :: uint32_t
  tss_esp1 :: uint32_t
  tss_ss1 :: uint32_t
  tss_esp2 :: uint32_t
  tss_ss2 :: uint32_t
  tss_cr3 :: uint32_t
  tss_eip :: uint32_t
  tss_eflags :: uint32_t
  tss_eax :: uint32_t
  tss_ecx :: uint32_t
  tss_edx :: uint32_t
  tss_ebx :: uint32_t
  tss_esp :: uint32_t
  tss_ebp :: uint32_t
  tss_esi :: uint32_t
  tss_edi :: uint32_t
  tss_es :: uint32_t
  tss_cs :: uint32_t
  tss_ss :: uint32_t
  tss_ds :: uint32_t
  tss_fs :: uint32_t
  tss_gs :: uint32_t
  tss_ldt :: uint32_t
  tss_iomap :: uint32_t

datatype task_state = TASK_CREATED | TASK_RUNNING | TASK_SLEEP | TASK_READY | TASK_WAITTING

record task_t =
  tstate :: task_state
  sleep_ticks :: int
  time_ticks :: int
  slice_ticks :: int
  tss :: tss_t
  tss_sel :: int

definition TASK_NAME_SIZE :: int where "TASK_NAME_SIZE = 32"
definition TASK_TIME_SLICE_DEFAULT :: int where "TASK_TIME_SLICE_DEFAULT = 10"
definition OS_TICKS_MS :: uint32_t where "OS_TICKS_MS = 10"
definition sizeof_tss_t :: uint32_t where "sizeof_tss_t = 104"

definition off_name :: addr where "off_name = 16"
definition off_run_node :: addr where "off_run_node = 48"
definition off_all_node :: addr where "off_all_node = 56"
definition off_wait_node :: addr where "off_wait_node = 64"
definition off_tss :: addr where "off_tss = 72"

lemmas task_offsets = off_name_def off_run_node_def off_all_node_def off_wait_node_def off_tss_def

definition run_node :: "addr \<Rightarrow> addr" where "run_node task = task + off_run_node"
definition all_node :: "addr \<Rightarrow> addr" where "all_node task = task + off_all_node"
definition wait_node :: "addr \<Rightarrow> addr" where "wait_node task = task + off_wait_node"

text \<open>The task manager; \<open>first_task\<close> and \<open>idle_task\<close> are the addresses of its two embedded tasks.\<close>

record task_manager_t = kcpu +
  curr_task :: addr
  ready_list :: list_t
  task_list :: list_t
  sleep_list :: list_t
  first_task :: addr
  idle_task :: addr

section \<open>Mutexes and semaphores\<close>

record mutex_t =
  mowner :: addr
  locked_count :: int
  mwait_list :: list_t

record sem_t =
  scount :: int
  swait_list :: list_t

text \<open>
  The static mutexes of \<open>cpu.c\<close>, \<open>log.c\<close> and \<open>memory.c\<close>, and any other.
\<close>

datatype mutex_id = gdt_mutex | log_mutex | paddr_mutex | mutex_obj nat

type_synonym sem_id = nat

section \<open>Pending pieces of code and the kernel state\<close>

datatype frame =
    F_leave irq_state_t          \<comment> \<open>\<open>irq_leave_protection(state); return\<close>\<close>
  | F_log "uint8_t list"         \<comment> \<open>\<open>log_printf\<close> with this formatted text\<close>
  | F_log_body "uint8_t list"    \<comment> \<open>\<open>log_printf\<close> after its \<open>mutex_lock\<close>, with the bytes left to send\<close>
  | F_log_dispatch addr          \<comment> \<open>\<open>task_dispatch\<close> after \<open>task_switch\<close>: log the name of \<open>to\<close>\<close>
  | F_tick_slice addr            \<comment> \<open>\<open>task_time_tick\<close> after logging the end of the slice\<close>
  | F_tick_sleep                 \<comment> \<open>\<open>task_time_tick\<close> from the walk of the sleep list on\<close>
  | F_iret uint32_t              \<comment> \<open>the end of an interrupt entry: \<open>iret\<close>\<close>
  | F_gdt_scan addr uint32_t uint32_t addr       \<comment> \<open>\<open>gdt_alloc_desc\<close> after its \<open>mutex_lock\<close>\<close>
  | F_tss_fill int addr uint32_t uint32_t addr   \<comment> \<open>\<open>tss_init\<close> after \<open>gdt_alloc_desc\<close>\<close>
  | F_task_rest addr addr        \<comment> \<open>\<open>task_init\<close> after \<open>tss_init\<close>\<close>
  | F_printf "uint8_t list" "va list"   \<comment> \<open>a call of \<open>log_printf\<close> with this format and these arguments\<close>
  | F_manager_end                \<comment> \<open>\<open>task_manager_init\<close> after its \<open>task_init\<close>\<close>
  | F_first_init "addr \<times> int \<times> addr \<times> addr" addr   \<comment> \<open>a call of \<open>task_first_init\<close>\<close>
  | F_first_rest                 \<comment> \<open>\<open>task_first_init\<close> after its \<open>task_init\<close>\<close>
  | F_first_end                  \<comment> \<open>\<open>task_first_init\<close> after its message\<close>
  | F_hang                       \<comment> \<open>\<open>for(;;) hlt();\<close>\<close>

record kst = task_manager_t +
  nodes :: heap
  tasks :: "addr \<Rightarrow> task_t"
  mutexes :: "mutex_id \<Rightarrow> mutex_t"
  sems :: "sem_id \<Rightarrow> sem_t"
  kmem :: mem
  sys_tick :: uint32_t
  kstack :: "frame list"
  saved :: "addr \<Rightarrow> frame list"

definition push_frame :: "frame \<Rightarrow> kst \<Rightarrow> kst" where
  "push_frame f s = s\<lparr>kstack := f # kstack s\<rparr>"

definition upd_task :: "addr \<Rightarrow> (task_t \<Rightarrow> task_t) \<Rightarrow> kst \<Rightarrow> kst" where
  "upd_task t f s = s\<lparr>tasks := (tasks s)(t := f (tasks s t))\<rparr>"

lemmas kst_upd_defs [kernel_defs] = push_frame_def upd_task_def

section \<open>The hardware task switch\<close>

text \<open>
  \<open>far_jump(tss_sel, 0)\<close>, as the processor executes it: the descriptor that the selector denotes must
  be that of a task-state segment, otherwise the general-protection handler takes over, which never
  returns.  The outgoing context goes into the segment that the task register denotes, the incoming
  one comes from the segment the new selector denotes.  Of the context the flags, the page directory
  and the rest of the code (as frames) are modelled; the busy bit of the descriptor is not.
\<close>

definition tss_desc :: "'a kcpu_scheme \<Rightarrow> uint16_t \<Rightarrow> segment_desc_t" where
  "tss_desc s sel = gdt_table s (drop_bit 3 (uint sel))"

definition tss_task :: "'a kcpu_scheme \<Rightarrow> uint16_t \<Rightarrow> addr" where
  "tss_task s sel = desc_base (tss_desc s sel) - off_tss"

definition switch_to_tss :: "int \<Rightarrow> kst \<Rightarrow> kst" where
  "switch_to_tss sel s =
    (let sel16 = fst (far_jump (word_of_int sel) 0);
         outgoing = tss_task s (tr s);
         incoming = tss_task s sel16
     in if \<not> is_tss_desc (tss_desc s sel16) then push_frame F_hang s
        else
          let s1 = upd_task outgoing (\<lambda>t. t\<lparr>tss := (tss t)\<lparr>tss_eflags := eflags s\<rparr>\<rparr>) s;
              s2 = s1\<lparr>saved := (saved s1)(outgoing := kstack s1)\<rparr>
          in s2\<lparr>kstack := saved s2 incoming,
                eflags := tss_eflags (tss (tasks s2 incoming)),
                cr3 := tss_cr3 (tss (tasks s2 incoming)),
                tr := sel16\<rparr>)"

definition task_switch :: "addr \<Rightarrow> addr \<Rightarrow> kst \<Rightarrow> kst" where
  "task_switch from to s = switch_to_tss (tss_sel (tasks s to)) s"

lemma run_node_inj [simp]: "run_node t = run_node u \<longleftrightarrow> t = u"
  and all_node_inj [simp]: "all_node t = all_node u \<longleftrightarrow> t = u"
  and wait_node_inj [simp]: "wait_node t = wait_node u \<longleftrightarrow> t = u"
  by (simp_all add: run_node_def all_node_def wait_node_def)

lemma parent_run_node [simp]: "run_node t \<noteq> NULL \<Longrightarrow> list_node_parent (run_node t) off_run_node = t"
  and parent_wait_node [simp]:
    "wait_node t \<noteq> NULL \<Longrightarrow> list_node_parent (wait_node t) off_wait_node = t"
  by (simp_all add: run_node_def wait_node_def list_node_parent_def parent_addr_def)

end
