(* ===== verification/Kernel_Queues.thy ===== *)
theory Kernel_Queues
  imports Kernel_State
begin

text \<open>
  The queues of the kernel seen as sequences of tasks.  Every list header of the kernel state is a
  member of one family: the ready, sleep and all-tasks lists of the task manager and the wait list of
  every mutex and semaphore.  \<open>qrep T s a\<close> says that in state \<open>s\<close> header \<open>q\<close> represents the task sequence
  \<open>a q\<close>, that all tasks are objects of \<open>T\<close>, and that no two queues linked through the same kind of node
  share a task.  The sequences \<open>a\<close> are the abstract state of the scheduler.
\<close>

section \<open>Task objects in memory\<close>

definition sizeof_task_t :: nat where "sizeof_task_t = 180"

text \<open>Task objects occupy disjoint ranges of memory that do not wrap around.\<close>

definition task_space :: "addr set \<Rightarrow> bool" where
  "task_space T \<longleftrightarrow>
    (\<forall>t\<in>T. t \<noteq> NULL \<and> unat t + sizeof_task_t \<le> 2 ^ 32) \<and>
    (\<forall>t\<in>T. \<forall>u\<in>T. t \<noteq> u \<longrightarrow>
       unat t + sizeof_task_t \<le> unat u \<or> unat u + sizeof_task_t \<le> unat t)"

section \<open>The family of queues\<close>

datatype qid = Q_ready | Q_sleep | Q_all | Q_mutex mutex_id | Q_sem sem_id

datatype node_kind = K_run | K_all | K_wait

fun kind_of :: "qid \<Rightarrow> node_kind" where
  "kind_of Q_ready = K_run"
| "kind_of Q_sleep = K_run"
| "kind_of Q_all = K_all"
| "kind_of (Q_mutex m) = K_wait"
| "kind_of (Q_sem k) = K_wait"

fun knode :: "node_kind \<Rightarrow> addr \<Rightarrow> addr" where
  "knode K_run t = run_node t"
| "knode K_all t = all_node t"
| "knode K_wait t = wait_node t"

abbreviation node_of :: "qid \<Rightarrow> addr \<Rightarrow> addr" where
  "node_of q t \<equiv> knode (kind_of q) t"

fun list_of :: "kst \<Rightarrow> qid \<Rightarrow> list_t" where
  "list_of s Q_ready = ready_list s"
| "list_of s Q_sleep = sleep_list s"
| "list_of s Q_all = task_list s"
| "list_of s (Q_mutex m) = mwait_list (mutexes s m)"
| "list_of s (Q_sem k) = swait_list (sems s k)"

type_synonym queues = "qid \<Rightarrow> addr list"

definition qrep :: "addr set \<Rightarrow> kst \<Rightarrow> queues \<Rightarrow> bool" where
  "qrep T s a \<longleftrightarrow>
    (\<forall>q. dll (nodes s) (list_of s q) (map (node_of q) (a q))) \<and>
    (\<forall>q. set (a q) \<subseteq> T) \<and>
    (\<forall>q q'. q \<noteq> q' \<longrightarrow> kind_of q = kind_of q' \<longrightarrow> set (a q) \<inter> set (a q') = {})"

text \<open>A task that is on no queue linked through nodes of this kind.\<close>

definition off_kind :: "queues \<Rightarrow> node_kind \<Rightarrow> addr \<Rightarrow> bool" where
  "off_kind a k t \<longleftrightarrow> (\<forall>q. kind_of q = k \<longrightarrow> t \<notin> set (a q))"

section \<open>Nodes of distinct tasks or kinds are distinct\<close>

fun koff :: "node_kind \<Rightarrow> nat" where
  "koff K_run = 48"
| "koff K_all = 56"
| "koff K_wait = 64"

lemma unat_knode:
  assumes "unat t + sizeof_task_t \<le> 2 ^ 32"
  shows "unat (knode k t) = unat t + koff k"
proof -
  have "unat t + c < 2 ^ LENGTH(32)" if "c < 180" for c
    using assms that by (simp add: sizeof_task_t_def)
  then show ?thesis
    by (cases k)
      (simp_all add: run_node_def all_node_def wait_node_def task_offsets unat_add_lem [THEN iffD1])
qed

lemma knode_not_null: "task_space T \<Longrightarrow> t \<in> T \<Longrightarrow> knode k t \<noteq> NULL"
  using unat_knode [of t k] by (cases k) (auto simp: task_space_def unat_eq_zero [symmetric] simp del: unat_eq_zero)

lemma knode_eq_iff:
  assumes "task_space T" and "t \<in> T" and "u \<in> T"
  shows "knode k t = knode k' u \<longleftrightarrow> k = k' \<and> t = u"
proof
  assume eq: "knode k t = knode k' u"
  have "unat t + koff k = unat u + koff k'"
    using eq unat_knode [of t k] unat_knode [of u k'] assms by (simp add: task_space_def)
  moreover have "koff k + 16 < 180" and "koff k' + 16 < 180" and "koff k \<le> koff k' + 16"
    and "koff k' \<le> koff k + 16" by (cases k; cases k'; simp)+
  note sums = calculation this
  have "t = u"
  proof (rule ccontr)
    assume "t \<noteq> u"
    then have "unat t + 180 \<le> unat u \<or> unat u + 180 \<le> unat t"
      using assms by (simp add: task_space_def sizeof_task_t_def)
    then show False using sums by linarith
  qed
  with sums(1) show "k = k' \<and> t = u"
    by (cases k; cases k') simp_all
qed simp

section \<open>Changing one queue of the family\<close>

lemma qrep_dll: "qrep T s a \<Longrightarrow> dll (nodes s) (list_of s q) (map (node_of q) (a q))"
  and qrep_subset: "qrep T s a \<Longrightarrow> t \<in> set (a q) \<Longrightarrow> t \<in> T"
  by (auto simp: qrep_def)

lemma qrep_disjoint:
  "qrep T s a \<Longrightarrow> q \<noteq> q' \<Longrightarrow> kind_of q = kind_of q' \<Longrightarrow> t \<in> set (a q) \<Longrightarrow> t \<notin> set (a q')"
  unfolding qrep_def by blast

lemma qrep_distinct:
  assumes "qrep T s a"
  shows "distinct (a q)"
  using dll_distinct [OF qrep_dll [OF assms, of q]] by (simp add: distinct_map)

lemma qrep_cong:
  assumes "qrep T s a" and "nodes s' = nodes s" and "list_of s' = list_of s"
  shows "qrep T s' a"
  using assms by (simp add: qrep_def)

lemma qrep_nodes_disjoint:
  assumes "task_space T" and "qrep T s a"
  shows "\<forall>q. q \<noteq> q0 \<longrightarrow> (\<forall>t\<in>set (a q). \<forall>u\<in>set (a q0). node_of q t \<noteq> node_of q0 u)"
  using assms(1) qrep_subset [OF assms(2)] qrep_disjoint [OF assms(2)]
  by (metis knode_eq_iff)

lemma qrep_insert:
  assumes T: "task_space T" and rep: "qrep T s a" and t: "t \<in> T" "off_kind a (kind_of q) t"
    and ins: "list_insert_last (list_of s q) (node_of q t) (nodes s) = (l, h)"
    and s': "nodes s' = h" "list_of s' = (list_of s)(q := l)"
  shows "qrep T s' (a(q := a q @ [t]))"
proof -
  have "\<forall>p. dll h (((list_of s)(q := l)) p) (map (node_of p) ((a(q := a q @ [t])) p))"
  proof (rule kq.family_insert [where h = "nodes s" and ls = "list_of s" and node_of = "\<lambda>q. knode (kind_of q)" and a = a and ?q0.0 = q and t = t,
        OF _ _ _ _ ins])
    show "\<forall>q. dll (nodes s) (list_of s q) (map (node_of q) (a q))"
      using rep by (simp add: qrep_def)
    show "node_of q t \<noteq> NULL" using T t(1) by (rule knode_not_null)
    show "\<forall>p. \<forall>u\<in>set (a p). node_of q t \<noteq> node_of p u"
      using T t qrep_subset [OF rep] by (metis knode_eq_iff off_kind_def)
    show "\<forall>p. p \<noteq> q \<longrightarrow> (\<forall>t\<in>set (a p). \<forall>u\<in>set (a q). node_of p t \<noteq> node_of q u)"
      by (rule qrep_nodes_disjoint [OF T rep])
  qed
  moreover have "set ((a(q := a q @ [t])) p) \<subseteq> T" for p
    using rep t(1) by (auto simp: qrep_def)
  moreover have "set ((a(q := a q @ [t])) p) \<inter> set ((a(q := a q @ [t])) p') = {}"
    if "p \<noteq> p'" "kind_of p = kind_of p'" for p p'
    using rep t(2) that unfolding qrep_def off_kind_def by (cases "p = q"; cases "p' = q") auto
  ultimately show ?thesis unfolding qrep_def s' by blast
qed

lemma qrep_shrink:
  assumes rep: "qrep T s a" and sub: "set xs \<subseteq> set (a q)"
    and lists: "\<forall>p. dll (nodes s') (list_of s' p) (map (node_of p) ((a(q := xs)) p))"
  shows "qrep T s' (a(q := xs))"
proof -
  have "set ((a(q := xs)) p) \<subseteq> set (a p)" for p using sub by simp
  with rep lists show ?thesis unfolding qrep_def by blast
qed

lemma qrep_remove:
  assumes T: "task_space T" and rep: "qrep T s a" and a: "a q = us @ t # vs"
    and rem: "list_remove (list_of s q) (node_of q t) (nodes s) = (r, l, h)"
    and s': "nodes s' = h" "list_of s' = (list_of s)(q := l)"
  shows "qrep T s' (a(q := us @ vs))"
proof (rule qrep_shrink [OF rep])
  show "set (us @ vs) \<subseteq> set (a q)" using a by auto
  have "\<forall>p. dll (nodes s) (list_of s p) (map (node_of p) (a p))" using rep by (simp add: qrep_def)
  from kq.family_remove [where h = "nodes s" and ls = "list_of s" and node_of = "\<lambda>q. knode (kind_of q)" and a = a and ?q0.0 = q and t = t,
      OF this a qrep_nodes_disjoint [OF T rep] rem]
  show "\<forall>p. dll (nodes s') (list_of s' p) (map (node_of p) ((a(q := us @ vs)) p))"
    by (simp add: s')
qed

lemma qrep_remove_first:
  assumes T: "task_space T" and rep: "qrep T s a" and a: "a q = t # vs"
    and rem: "list_remove_first (list_of s q) (nodes s) = (r, l, h)"
    and s': "nodes s' = h" "list_of s' = (list_of s)(q := l)"
  shows "r = node_of q t" and "qrep T s' (a(q := vs))"
proof -
  have all: "\<forall>p. dll (nodes s) (list_of s p) (map (node_of p) (a p))" using rep by (simp add: qrep_def)
  note first = kq.family_remove_first [where h = "nodes s" and ls = "list_of s" and node_of = "\<lambda>q. knode (kind_of q)" and a = a and ?q0.0 = q and t = t,
      OF all a qrep_nodes_disjoint [OF T rep] rem]
  show "r = node_of q t" by (rule first(1))
  show "qrep T s' (a(q := vs))"
  proof (rule qrep_shrink [OF rep])
    show "set vs \<subseteq> set (a q)" using a by auto
    show "\<forall>p. dll (nodes s') (list_of s' p) (map (node_of p) ((a(q := vs)) p))"
      using first(2) by (simp add: s')
  qed
qed

lemma qrep_count: "qrep T s a \<Longrightarrow> list_count (list_of s q) = int (length (a q))"
  using dll_count [OF qrep_dll] by fastforce

lemma qrep_first: "qrep T s a \<Longrightarrow> list_first (list_of s q) = hdq (map (node_of q) (a q)) NULL"
  by (rule dll_first [OF qrep_dll])

section \<open>List headers after an update of the state\<close>

lemma list_of_upd [simp]:
  "list_of (s\<lparr>ready_list := l\<rparr>) = (list_of s)(Q_ready := l)"
  "list_of (s\<lparr>sleep_list := l\<rparr>) = (list_of s)(Q_sleep := l)"
  "list_of (s\<lparr>task_list := l\<rparr>) = (list_of s)(Q_all := l)"
  "list_of (s\<lparr>nodes := h\<rparr>) = list_of s"
  "list_of (s\<lparr>tasks := ts\<rparr>) = list_of s"
  "list_of (s\<lparr>curr_task := c\<rparr>) = list_of s"
  "list_of (s\<lparr>eflags := f\<rparr>) = list_of s"
  "list_of (s\<lparr>kstack := k\<rparr>) = list_of s"
  "list_of (s\<lparr>saved := sv\<rparr>) = list_of s"
  "list_of (s\<lparr>tr := x\<rparr>) = list_of s"
  "list_of (s\<lparr>cr3 := y\<rparr>) = list_of s"
  "list_of (s\<lparr>kmem := m\<rparr>) = list_of s"
  "list_of (s\<lparr>ports := p\<rparr>) = list_of s"
  "list_of (s\<lparr>outs := os\<rparr>) = list_of s"
  "list_of (s\<lparr>sys_tick := n\<rparr>) = list_of s"
  "list_of (s\<lparr>gdt_table := g\<rparr>) = list_of s"
  by (rule ext, rename_tac q, case_tac q; simp)+

lemma list_of_mutexes:
  "list_of (s\<lparr>mutexes := (mutexes s)(m := x)\<rparr>) = (list_of s)(Q_mutex m := mwait_list x)"
  by (rule ext, rename_tac q, case_tac q) auto

lemma list_of_sems:
  "list_of (s\<lparr>sems := (sems s)(k := x)\<rparr>) = (list_of s)(Q_sem k := swait_list x)"
  by (rule ext, rename_tac q, case_tac q) auto

end
