(* ===== verification/Task.thy ===== *)
theory Task
  imports Kernel_Queues
begin

text \<open>
  The scheduler of \<open>src/source/kernel/core/task.c\<close>: the ready and sleep queues, dispatching, yielding,
  time slices and sleeping.  Creation of tasks is in \<open>Task_Create\<close>.  Each definition is a C function,
  or the piece of one between two calls that may switch tasks.
\<close>

section \<open>Operations\<close>

definition task_current :: "kst \<Rightarrow> addr" where
  "task_current s = curr_task s"

definition task_first_task :: "kst \<Rightarrow> addr" where
  "task_first_task s = first_task s"

definition set_state :: "task_state \<Rightarrow> task_t \<Rightarrow> task_t" where
  "set_state st t = t\<lparr>tstate := st\<rparr>"

definition task_set_ready :: "addr \<Rightarrow> kst \<Rightarrow> kst" where
  "task_set_ready task s =
    (if task = idle_task s then s
     else
       let (l, h) = list_insert_last (ready_list s) (run_node task) (nodes s)
       in upd_task task (set_state TASK_READY) (s\<lparr>ready_list := l, nodes := h\<rparr>))"

definition task_set_block :: "addr \<Rightarrow> kst \<Rightarrow> kst" where
  "task_set_block task s =
    (if task = idle_task s then s
     else
       let (_, l, h) = list_remove (ready_list s) (run_node task) (nodes s)
       in s\<lparr>ready_list := l, nodes := h\<rparr>)"

definition task_next_run :: "kst \<Rightarrow> addr" where
  "task_next_run s =
    (if list_count (ready_list s) = 0 then idle_task s
     else list_node_parent (list_first (ready_list s)) off_run_node)"

definition task_dispatch :: "kst \<Rightarrow> kst" where
  "task_dispatch s =
    (let (state, s1) = irq_enter_protection s;
         to = task_next_run s1
     in if to \<noteq> curr_task s1 then
          let from = task_current s1;
              s2 = s1\<lparr>curr_task := to\<rparr>;
              s3 = upd_task to (set_state TASK_RUNNING) s2;
              s4 = push_frame (F_log_dispatch to) (push_frame (F_leave state) s3)
          in task_switch from to s4
        else irq_leave_protection state s1)"

definition sys_sched_yield :: "kst \<Rightarrow> kst" where
  "sys_sched_yield s =
    (let (state, s1) = irq_enter_protection s
     in if list_count (ready_list s1) > 1 then
          let current_task = task_current s1;
              s2 = task_set_block current_task s1;
              s3 = task_set_ready current_task s2
          in task_dispatch (push_frame (F_leave state) s3)
        else irq_leave_protection state s1)"

definition task_set_sleep :: "addr \<Rightarrow> uint32_t \<Rightarrow> kst \<Rightarrow> kst" where
  "task_set_sleep task ticks s =
    (if ticks = 0 then s
     else
       let s1 = upd_task task (\<lambda>t. t\<lparr>sleep_ticks := sint ticks, tstate := TASK_SLEEP\<rparr>) s;
           (l, h) = list_insert_last (sleep_list s1) (run_node task) (nodes s1)
       in s1\<lparr>sleep_list := l, nodes := h\<rparr>)"

definition task_set_wakeup :: "addr \<Rightarrow> kst \<Rightarrow> kst" where
  "task_set_wakeup task s =
    (let (_, l, h) = list_remove (sleep_list s) (run_node task) (nodes s)
     in s\<lparr>sleep_list := l, nodes := h\<rparr>)"

definition sys_sleep :: "uint32_t \<Rightarrow> kst \<Rightarrow> kst" where
  "sys_sleep ms s =
    (let (state, s1) = irq_enter_protection s;
         s2 = task_set_block (curr_task s1) s1;
         s3 = task_set_sleep (curr_task s2) ((ms + (OS_TICKS_MS - 1)) div OS_TICKS_MS) s2
     in task_dispatch (push_frame (F_leave state) s3))"

text \<open>
  \<open>task_time_tick\<close>.  One round of the loop over the sleep list, the loop (which ends when the chain of
  nodes does), and the three pieces of the function: up to the log message at the end of a slice,
  from there to the dispatch, and the rest.
\<close>

definition sleep_step :: "addr \<Rightarrow> kst \<Rightarrow> kst" where
  "sleep_step task s =
    (let s1 = upd_task task (\<lambda>t. t\<lparr>sleep_ticks := sleep_ticks t - 1\<rparr>) s
     in if sleep_ticks (tasks s1 task) = 0
        then task_set_ready task (task_set_wakeup task s1) else s1)"

partial_function (option) sleep_walk :: "addr \<Rightarrow> kst \<Rightarrow> kst option" where
  "sleep_walk node s =
    (if node \<noteq> NULL then
       let nxt = list_node_next (nodes s) node;
           task = list_node_parent node off_run_node
       in sleep_walk nxt (sleep_step task s)
     else Some s)"

definition task_time_tick_sleep :: "kst \<Rightarrow> kst option" where
  "task_time_tick_sleep s =
    map_option task_dispatch (sleep_walk (list_first (sleep_list s)) s)"

definition task_time_tick_slice :: "addr \<Rightarrow> kst \<Rightarrow> kst" where
  "task_time_tick_slice curr_t s =
    (let s1 = upd_task curr_t (\<lambda>t. t\<lparr>slice_ticks := time_ticks t\<rparr>) s;
         s2 = task_set_block curr_t s1;
         s3 = task_set_ready curr_t s2
     in task_dispatch (push_frame F_tick_sleep s3))"

definition slice_end_msg :: "uint8_t list" where
  "slice_end_msg =
    map of_char '' ******************time slice end*************************** ''"

definition task_time_tick :: "kst \<Rightarrow> kst option" where
  "task_time_tick s =
    (let curr_t = task_current s;
         s1 = upd_task curr_t (\<lambda>t. t\<lparr>slice_ticks := slice_ticks t - 1\<rparr>) s
     in if slice_ticks (tasks s1 curr_t) = 0
        then Some (push_frame (F_log slice_end_msg) (push_frame (F_tick_slice curr_t) s1))
        else task_time_tick_sleep s1)"

section \<open>What each operation leaves alone\<close>

lemma task_set_ready_frame [simp, frame_simps]:
  "idle_task (task_set_ready t s) = idle_task s" "first_task (task_set_ready t s) = first_task s"
  "curr_task (task_set_ready t s) = curr_task s" "sleep_list (task_set_ready t s) = sleep_list s"
  "task_list (task_set_ready t s) = task_list s" "mutexes (task_set_ready t s) = mutexes s"
  "sems (task_set_ready t s) = sems s" "gdt_table (task_set_ready t s) = gdt_table s"
  "tr (task_set_ready t s) = tr s" "eflags (task_set_ready t s) = eflags s"
  "kstack (task_set_ready t s) = kstack s" "saved (task_set_ready t s) = saved s"
  "kmem (task_set_ready t s) = kmem s" "outs (task_set_ready t s) = outs s"
  by (simp_all add: task_set_ready_def upd_task_def Let_def split: prod.split)

lemma task_set_block_frame [simp, frame_simps]:
  "idle_task (task_set_block t s) = idle_task s" "first_task (task_set_block t s) = first_task s"
  "curr_task (task_set_block t s) = curr_task s" "sleep_list (task_set_block t s) = sleep_list s"
  "task_list (task_set_block t s) = task_list s" "mutexes (task_set_block t s) = mutexes s"
  "sems (task_set_block t s) = sems s" "gdt_table (task_set_block t s) = gdt_table s"
  "tr (task_set_block t s) = tr s" "eflags (task_set_block t s) = eflags s"
  "kstack (task_set_block t s) = kstack s" "saved (task_set_block t s) = saved s"
  "tasks (task_set_block t s) = tasks s" "kmem (task_set_block t s) = kmem s" "outs (task_set_block t s) = outs s"
  by (simp_all add: task_set_block_def Let_def split: prod.split)

lemma task_set_sleep_frame [simp, frame_simps]:
  "idle_task (task_set_sleep t n s) = idle_task s" "first_task (task_set_sleep t n s) = first_task s"
  "curr_task (task_set_sleep t n s) = curr_task s" "ready_list (task_set_sleep t n s) = ready_list s"
  "task_list (task_set_sleep t n s) = task_list s" "mutexes (task_set_sleep t n s) = mutexes s"
  "sems (task_set_sleep t n s) = sems s" "gdt_table (task_set_sleep t n s) = gdt_table s"
  "tr (task_set_sleep t n s) = tr s" "eflags (task_set_sleep t n s) = eflags s"
  "kstack (task_set_sleep t n s) = kstack s" "saved (task_set_sleep t n s) = saved s"
  "kmem (task_set_sleep t n s) = kmem s" "outs (task_set_sleep t n s) = outs s"
  by (simp_all add: task_set_sleep_def upd_task_def Let_def split: prod.split)

lemma task_set_wakeup_frame [simp, frame_simps]:
  "idle_task (task_set_wakeup t s) = idle_task s" "first_task (task_set_wakeup t s) = first_task s"
  "curr_task (task_set_wakeup t s) = curr_task s" "ready_list (task_set_wakeup t s) = ready_list s"
  "task_list (task_set_wakeup t s) = task_list s" "mutexes (task_set_wakeup t s) = mutexes s"
  "sems (task_set_wakeup t s) = sems s" "gdt_table (task_set_wakeup t s) = gdt_table s"
  "tr (task_set_wakeup t s) = tr s" "eflags (task_set_wakeup t s) = eflags s"
  "kstack (task_set_wakeup t s) = kstack s" "saved (task_set_wakeup t s) = saved s"
  "tasks (task_set_wakeup t s) = tasks s" "kmem (task_set_wakeup t s) = kmem s" "outs (task_set_wakeup t s) = outs s"
  by (simp_all add: task_set_wakeup_def Let_def split: prod.split)

lemma push_frame_frame [simp, frame_simps]:
  "idle_task (push_frame f s) = idle_task s" "first_task (push_frame f s) = first_task s"
  "curr_task (push_frame f s) = curr_task s" "ready_list (push_frame f s) = ready_list s"
  "sleep_list (push_frame f s) = sleep_list s" "task_list (push_frame f s) = task_list s"
  "mutexes (push_frame f s) = mutexes s" "sems (push_frame f s) = sems s"
  "gdt_table (push_frame f s) = gdt_table s" "tr (push_frame f s) = tr s"
  "eflags (push_frame f s) = eflags s" "kstack (push_frame f s) = f # kstack s"
  "saved (push_frame f s) = saved s" "tasks (push_frame f s) = tasks s"
  "nodes (push_frame f s) = nodes s" "kmem (push_frame f s) = kmem s"
  "list_of (push_frame f s) = list_of s" "outs (push_frame f s) = outs s"
  by (simp_all add: push_frame_def)

lemma upd_task_frame [simp, frame_simps]:
  "idle_task (upd_task t f s) = idle_task s" "first_task (upd_task t f s) = first_task s"
  "curr_task (upd_task t f s) = curr_task s" "ready_list (upd_task t f s) = ready_list s"
  "sleep_list (upd_task t f s) = sleep_list s" "task_list (upd_task t f s) = task_list s"
  "mutexes (upd_task t f s) = mutexes s" "sems (upd_task t f s) = sems s"
  "gdt_table (upd_task t f s) = gdt_table s" "tr (upd_task t f s) = tr s"
  "eflags (upd_task t f s) = eflags s" "kstack (upd_task t f s) = kstack s"
  "saved (upd_task t f s) = saved s" "nodes (upd_task t f s) = nodes s"
  "kmem (upd_task t f s) = kmem s" "list_of (upd_task t f s) = list_of s"
  "tasks (upd_task t f s) = (tasks s)(t := f (tasks s t))" "outs (upd_task t f s) = outs s"
  by (simp_all add: upd_task_def)

lemma tasks_set_ready [simp]:
  "tasks (task_set_ready t s) =
    (if t = idle_task s then tasks s else (tasks s)(t := set_state TASK_READY (tasks s t)))"
  by (simp add: task_set_ready_def Let_def split: prod.split)


section \<open>The abstract scheduler\<close>

text \<open>
  What the operations do to the task sequences.  \<open>idle\<close> is the idle task, which is never queued.
\<close>

definition a_ready :: "addr \<Rightarrow> addr \<Rightarrow> queues \<Rightarrow> queues" where
  "a_ready idle t a = (if t = idle then a else a(Q_ready := a Q_ready @ [t]))"

definition a_block :: "addr \<Rightarrow> addr \<Rightarrow> queues \<Rightarrow> queues" where
  "a_block idle t a = (if t = idle then a else a(Q_ready := remove1 t (a Q_ready)))"

definition a_next :: "addr \<Rightarrow> queues \<Rightarrow> addr" where
  "a_next idle a = hdq (a Q_ready) idle"

definition a_sleep :: "addr \<Rightarrow> queues \<Rightarrow> queues" where
  "a_sleep t a = a(Q_sleep := a Q_sleep @ [t])"

definition a_wakeup :: "addr \<Rightarrow> queues \<Rightarrow> queues" where
  "a_wakeup t a = a(Q_sleep := remove1 t (a Q_sleep))"

definition a_rotate :: "addr \<Rightarrow> addr \<Rightarrow> queues \<Rightarrow> queues" where
  "a_rotate idle t a = a_ready idle t (a_block idle t a)"

lemma a_next_simps: "a Q_ready = [] \<Longrightarrow> a_next idle a = idle" "a Q_ready = t # ts \<Longrightarrow> a_next idle a = t"
  by (simp_all add: a_next_def)

lemma off_kind_run_iff: "off_kind a K_run t \<longleftrightarrow> t \<notin> set (a Q_ready) \<and> t \<notin> set (a Q_sleep)"
proof
  assume "off_kind a K_run t"
  then show "t \<notin> set (a Q_ready) \<and> t \<notin> set (a Q_sleep)" by (auto simp: off_kind_def)
next
  assume *: "t \<notin> set (a Q_ready) \<and> t \<notin> set (a Q_sleep)"
  have "t \<notin> set (a q)" if "kind_of q = K_run" for q using * that by (cases q) auto
  then show "off_kind a K_run t" by (simp add: off_kind_def)
qed

section \<open>The operations refine the abstract scheduler\<close>

lemma task_set_ready_rep:
  assumes "task_space T" and "qrep T s a" and "t \<in> T" and "t = idle_task s \<or> off_kind a K_run t"
  shows "qrep T (task_set_ready t s) (a_ready (idle_task s) t a)"
proof (cases "t = idle_task s")
  case True
  with assms show ?thesis by (simp add: task_set_ready_def a_ready_def)
next
  case False
  obtain l h where ins: "list_insert_last (list_of s Q_ready) (node_of Q_ready t) (nodes s) = (l, h)"
    by (cases "list_insert_last (list_of s Q_ready) (node_of Q_ready t) (nodes s)")
  with False assms show ?thesis
    by (simp add: a_ready_def)
      (rule qrep_insert [OF assms(1,2,3) _ ins], simp_all add: task_set_ready_def)
qed

lemma task_set_block_rep:
  assumes "task_space T" and "qrep T s a" and "t = idle_task s \<or> t \<in> set (a Q_ready)"
  shows "qrep T (task_set_block t s) (a_block (idle_task s) t a)"
proof (cases "t = idle_task s")
  case True
  with assms show ?thesis by (simp add: task_set_block_def a_block_def)
next
  case False
  with assms(3) obtain us vs where a: "a Q_ready = us @ t # vs" by (auto simp: in_set_conv_decomp)
  with qrep_distinct [OF assms(2), of Q_ready] have "remove1 t (a Q_ready) = us @ vs"
    by (simp add: remove1_split)
  moreover obtain r l h
    where "list_remove (list_of s Q_ready) (node_of Q_ready t) (nodes s) = (r, l, h)"
    by (cases "list_remove (list_of s Q_ready) (node_of Q_ready t) (nodes s)") auto
  ultimately show ?thesis
    using False qrep_remove [OF assms(1,2) a, of r l h "task_set_block t s"]
    by (simp add: a_block_def task_set_block_def)
qed

lemma task_set_sleep_rep:
  assumes "task_space T" and "qrep T s a" and "t \<in> T" and "off_kind a K_run t" and "n \<noteq> 0"
  shows "qrep T (task_set_sleep t n s) (a_sleep t a)"
proof -
  obtain l h where ins: "list_insert_last (list_of s Q_sleep) (node_of Q_sleep t) (nodes s) = (l, h)"
    by (cases "list_insert_last (list_of s Q_sleep) (node_of Q_sleep t) (nodes s)")
  with assms show ?thesis
    unfolding a_sleep_def
    by (intro qrep_insert [OF assms(1,2,3) _ ins]) (simp_all add: task_set_sleep_def)
qed

lemma task_set_wakeup_rep:
  assumes "task_space T" and "qrep T s a" and "t \<in> set (a Q_sleep)"
  shows "qrep T (task_set_wakeup t s) (a_wakeup t a)"
proof -
  from assms(3) obtain us vs where a: "a Q_sleep = us @ t # vs" by (auto simp: in_set_conv_decomp)
  with qrep_distinct [OF assms(2), of Q_sleep] have "remove1 t (a Q_sleep) = us @ vs"
    by (simp add: remove1_split)
  moreover obtain r l h
    where "list_remove (list_of s Q_sleep) (node_of Q_sleep t) (nodes s) = (r, l, h)"
    by (cases "list_remove (list_of s Q_sleep) (node_of Q_sleep t) (nodes s)") auto
  ultimately show ?thesis
    using qrep_remove [OF assms(1,2) a, of r l h "task_set_wakeup t s"]
    by (simp add: a_wakeup_def task_set_wakeup_def)
qed

lemma task_next_run_rep:
  assumes "task_space T" and "qrep T s a"
  shows "task_next_run s = a_next (idle_task s) a"
proof (cases "a Q_ready")
  case Nil
  then show ?thesis
    using qrep_count [OF assms(2), of Q_ready] by (simp add: task_next_run_def a_next_def)
next
  case (Cons t ts)
  then have "run_node t \<noteq> NULL"
    using knode_not_null [OF assms(1), of t K_run] qrep_subset [OF assms(2), of t Q_ready] by simp
  with Cons show ?thesis
    using qrep_count [OF assms(2), of Q_ready] qrep_first [OF assms(2), of Q_ready]
    by (simp add: task_next_run_def a_next_def)
qed

lemma a_next_in:
  assumes "qrep T s a" and "idle \<in> T"
  shows "a_next idle a \<in> T"
  using assms(2) qrep_subset [OF assms(1), of _ Q_ready] by (cases "a Q_ready") (simp_all add: a_next_def)

section \<open>Dispatching\<close>

text \<open>
  Every task's selector denotes a task-state segment descriptor whose base is the segment inside that
  task, and the task register denotes the current task.
\<close>

definition tss_ok :: "addr set \<Rightarrow> kst \<Rightarrow> bool" where
  "tss_ok T s \<longleftrightarrow>
    (\<forall>t\<in>T. is_tss_desc (tss_desc s (word_of_int (tss_sel (tasks s t)))) \<and>
            tss_task s (word_of_int (tss_sel (tasks s t))) = t)"

definition tr_ok :: "kst \<Rightarrow> bool" where
  "tr_ok s \<longleftrightarrow> tss_task s (tr s) = curr_task s"

lemma irq_protection_simps [simp]:
  "irq_enter_protection s = (eflags s, cli s)"
  "irq_leave_protection st s = s\<lparr>eflags := st\<rparr>"
  by (simp_all add: irq_enter_protection_def irq_leave_protection_def irq_disable_global_def
      read_eflags_def write_eflags_def)

lemma cli_frame [simp, frame_simps]:
  "idle_task (cli s) = idle_task s" "first_task (cli s) = first_task s"
  "curr_task (cli s) = curr_task s" "ready_list (cli s) = ready_list s"
  "sleep_list (cli s) = sleep_list s" "task_list (cli s) = task_list s"
  "mutexes (cli s) = mutexes s" "sems (cli s) = sems s" "gdt_table (cli s) = gdt_table s"
  "tr (cli s) = tr s" "kstack (cli s) = kstack s" "saved (cli s) = saved s"
  "nodes (cli s) = nodes s" "kmem (cli s) = kmem s" "list_of (cli s) = list_of s"
  "tasks (cli s) = tasks s" "task_next_run (cli s) = task_next_run s" "outs (cli s) = outs s"
  by (simp_all add: cli_def task_next_run_def)

lemma task_next_run_eflags [simp]: "task_next_run (s\<lparr>eflags := f\<rparr>) = task_next_run s"
  by (simp add: task_next_run_def)

lemma task_next_run_push [simp]: "task_next_run (push_frame f s) = task_next_run s"
  by (simp add: task_next_run_def)

lemma eflags_cli: "eflags (cli s) = eflags s AND NOT EFLAGS_IF"
  by (simp add: cli_def)

lemma switch_to_tss_frame [simp, frame_simps]:
  "idle_task (switch_to_tss n s) = idle_task s" "first_task (switch_to_tss n s) = first_task s"
  "curr_task (switch_to_tss n s) = curr_task s" "ready_list (switch_to_tss n s) = ready_list s"
  "sleep_list (switch_to_tss n s) = sleep_list s" "task_list (switch_to_tss n s) = task_list s"
  "mutexes (switch_to_tss n s) = mutexes s" "sems (switch_to_tss n s) = sems s"
  "gdt_table (switch_to_tss n s) = gdt_table s" "nodes (switch_to_tss n s) = nodes s"
  "kmem (switch_to_tss n s) = kmem s" "list_of (switch_to_tss n s) = list_of s" "outs (switch_to_tss n s) = outs s"
  by (simp_all add: switch_to_tss_def Let_def)

lemma qrep_dispatch: "qrep T s a \<Longrightarrow> qrep T (task_dispatch s) a"
  by (erule qrep_cong) (simp_all add: task_dispatch_def task_switch_def Let_def cli_def)

lemma task_dispatch_frame [simp, frame_simps]:
  "idle_task (task_dispatch s) = idle_task s" "first_task (task_dispatch s) = first_task s"
  "ready_list (task_dispatch s) = ready_list s" "sleep_list (task_dispatch s) = sleep_list s"
  "task_list (task_dispatch s) = task_list s" "mutexes (task_dispatch s) = mutexes s"
  "sems (task_dispatch s) = sems s" "gdt_table (task_dispatch s) = gdt_table s"
  "nodes (task_dispatch s) = nodes s" "kmem (task_dispatch s) = kmem s"
  "list_of (task_dispatch s) = list_of s" "outs (task_dispatch s) = outs s"
  by (simp_all add: task_dispatch_def task_switch_def Let_def)

lemma task_dispatch_stay: "task_next_run s = curr_task s \<Longrightarrow> task_dispatch s = s"
  by (simp add: task_dispatch_def) (simp add: cli_def)

lemma task_dispatch_curr:
  assumes "task_space T" and "qrep T s a"
  shows "curr_task (task_dispatch s) = a_next (idle_task s) a"
proof (cases "task_next_run s = curr_task s")
  case True
  then show ?thesis using task_next_run_rep [OF assms] by (simp add: task_dispatch_stay)
next
  case False
  then show ?thesis using task_next_run_rep [OF assms]
    by (simp add: task_dispatch_def task_switch_def Let_def)
qed

text \<open>
  The transfer of control: the tasks' segments are found through the descriptor table, the outgoing
  task keeps the rest of \<open>task_dispatch\<close> and what its callers still have to do, and the incoming task
  continues where it had been switched away.
\<close>

lemma task_dispatch_switch:
  assumes "task_space T" and "qrep T s a" and tss: "tss_ok T s" and tr: "tr_ok s"
    and "idle_task s \<in> T" and "curr_task s \<in> T"
  defines "new \<equiv> a_next (idle_task s) a"
  assumes neq: "new \<noteq> curr_task s"
  shows "kstack (task_dispatch s) = saved s new"
    and "saved (task_dispatch s) =
      (saved s)(curr_task s := F_log_dispatch new # F_leave (eflags s) # kstack s)"
    and "eflags (task_dispatch s) = tss_eflags (tss (tasks s new))"
    and "tasks (task_dispatch s) =
      (tasks s)(new := set_state TASK_RUNNING (tasks s new),
        curr_task s := (tasks s (curr_task s))
          \<lparr>tss := (tss (tasks s (curr_task s)))\<lparr>tss_eflags := eflags s AND NOT EFLAGS_IF\<rparr>\<rparr>)"
    and "tr (task_dispatch s) = word_of_int (tss_sel (tasks s new))"
proof -
  have next_run: "task_next_run s = new" using task_next_run_rep [OF assms(1,2)] by (simp add: new_def)
  have "new \<in> T" unfolding new_def using assms(2,5) by (rule a_next_in)
  then have sel: "is_tss_desc (tss_desc s (word_of_int (tss_sel (tasks s new))))"
    "tss_task s (word_of_int (tss_sel (tasks s new))) = new"
    using tss by (simp_all add: tss_ok_def)
  have cur: "tss_task s (tr s) = curr_task s" using tr by (simp add: tr_ok_def)
  note defs = task_dispatch_def task_switch_def switch_to_tss_def Let_def push_frame_def
    upd_task_def set_state_def tss_task_def tss_desc_def cli_def
  have desc: "desc_base (gdt_table s (drop_bit 3 (uint (tr s)))) - off_tss = curr_task s"
    "is_tss_desc (gdt_table s (drop_bit 3 (uint (word_of_int (tss_sel (tasks s new)) :: uint16_t))))"
    "desc_base (gdt_table s (drop_bit 3 (uint (word_of_int (tss_sel (tasks s new)) :: uint16_t))))
       - off_tss = new"
    using sel cur by (simp_all add: tss_task_def tss_desc_def)
  show "kstack (task_dispatch s) = saved s new"
    using next_run neq desc by (simp add: defs fun_upd_twist)
  show "saved (task_dispatch s) =
      (saved s)(curr_task s := F_log_dispatch new # F_leave (eflags s) # kstack s)"
    using next_run neq desc by (simp add: defs fun_upd_twist)
  show "eflags (task_dispatch s) = tss_eflags (tss (tasks s new))"
    using next_run neq desc by (simp add: defs fun_upd_twist)
  show "tasks (task_dispatch s) =
      (tasks s)(new := set_state TASK_RUNNING (tasks s new),
        curr_task s := (tasks s (curr_task s))
          \<lparr>tss := (tss (tasks s (curr_task s)))\<lparr>tss_eflags := eflags s AND NOT EFLAGS_IF\<rparr>\<rparr>)"
    using next_run neq desc by (simp add: defs fun_upd_twist)
  show "tr (task_dispatch s) = word_of_int (tss_sel (tasks s new))"
    using next_run neq desc by (simp add: defs fun_upd_twist)
qed

section \<open>The scheduler invariant\<close>

text \<open>
  \<open>sched_pre\<close>: the queues are well formed, the idle task is on none of them, no task both waits for a
  synchronisation object and is ready or asleep, and the descriptor table and the task register agree
  with the tasks.  \<open>sched_inv\<close> adds that the current task is the head of the ready queue, or the idle
  task when that queue is empty; every dispatch establishes it.
\<close>

definition sched_pre :: "addr set \<Rightarrow> kst \<Rightarrow> queues \<Rightarrow> bool" where
  "sched_pre T s a \<longleftrightarrow>
    task_space T \<and> qrep T s a \<and> idle_task s \<in> T \<and> curr_task s \<in> T \<and>
    off_kind a K_run (idle_task s) \<and> off_kind a K_wait (idle_task s) \<and>
    (\<forall>t. off_kind a K_run t \<or> off_kind a K_wait t) \<and> tss_ok T s \<and> tr_ok s"

definition sched_inv :: "addr set \<Rightarrow> kst \<Rightarrow> queues \<Rightarrow> bool" where
  "sched_inv T s a \<longleftrightarrow> sched_pre T s a \<and> curr_task s = a_next (idle_task s) a"

lemma sched_preD:
  assumes "sched_pre T s a"
  shows "task_space T" "qrep T s a" "idle_task s \<in> T" "curr_task s \<in> T"
    "off_kind a K_run (idle_task s)" "off_kind a K_wait (idle_task s)"
    "off_kind a K_run t \<or> off_kind a K_wait t" "tss_ok T s" "tr_ok s"
  using assms by (auto simp: sched_pre_def)

lemma sched_invD:
  assumes "sched_inv T s a"
  shows "sched_pre T s a" "curr_task s = a_next (idle_task s) a"
  using assms by (simp_all add: sched_inv_def)

lemma tss_ok_cong:
  "gdt_table s' = gdt_table s \<Longrightarrow> (\<And>t. tss_sel (tasks s' t) = tss_sel (tasks s t)) \<Longrightarrow>
   tss_ok T s' = tss_ok T s"
  by (simp add: tss_ok_def tss_task_def tss_desc_def)

lemma tr_ok_cong:
  "gdt_table s' = gdt_table s \<Longrightarrow> tr s' = tr s \<Longrightarrow> curr_task s' = curr_task s \<Longrightarrow> tr_ok s' = tr_ok s"
  by (simp add: tr_ok_def tss_task_def tss_desc_def)

text \<open>A change of the queues only, seen from the rest of the invariant.\<close>

lemma sched_pre_change:
  assumes "sched_pre T s a" and "qrep T s' a'"
    and "idle_task s' = idle_task s" "curr_task s' = curr_task s" "gdt_table s' = gdt_table s"
      "tr s' = tr s" "\<And>t. tss_sel (tasks s' t) = tss_sel (tasks s t)"
    and "off_kind a' K_run (idle_task s)" "off_kind a' K_wait (idle_task s)"
      "\<And>t. off_kind a' K_run t \<or> off_kind a' K_wait t"
  shows "sched_pre T s' a'"
  using assms tss_ok_cong [of s' s T] tr_ok_cong [of s' s] by (simp add: sched_pre_def)

lemma sched_pre_cong:
  assumes "sched_pre T s a" and "nodes s' = nodes s" "list_of s' = list_of s"
    and "idle_task s' = idle_task s" "curr_task s' = curr_task s" "gdt_table s' = gdt_table s"
      "tr s' = tr s" "\<And>t. tss_sel (tasks s' t) = tss_sel (tasks s t)"
  shows "sched_pre T s' a"
  by (rule sched_pre_change [OF assms(1) qrep_cong [OF sched_preD(2) [OF assms(1)] assms(2,3)] assms(4-8)])
    (use sched_preD [OF assms(1)] in auto)

lemma sched_pre_cli [simp]: "sched_pre T (cli s) a \<longleftrightarrow> sched_pre T s a"
  and sched_pre_push [simp]: "sched_pre T (push_frame f s) a \<longleftrightarrow> sched_pre T s a"
  and sched_pre_eflags [simp]: "sched_pre T (s\<lparr>eflags := x\<rparr>) a \<longleftrightarrow> sched_pre T s a"
  and sched_pre_kstack [simp]: "sched_pre T (s\<lparr>kstack := k\<rparr>) a \<longleftrightarrow> sched_pre T s a"
  by (auto elim!: sched_pre_cong)

lemma sched_pre_upd_task:
  "sched_pre T s a \<Longrightarrow> (\<And>x. tss_sel (f x) = tss_sel x) \<Longrightarrow> sched_pre T (upd_task t f s) a"
  by (erule sched_pre_cong) simp_all

lemma off_kind_wait_iff: "off_kind a K_wait t \<longleftrightarrow>
    (\<forall>m. t \<notin> set (a (Q_mutex m))) \<and> (\<forall>k. t \<notin> set (a (Q_sem k)))"
proof
  assume "off_kind a K_wait t"
  then show "(\<forall>m. t \<notin> set (a (Q_mutex m))) \<and> (\<forall>k. t \<notin> set (a (Q_sem k)))"
    by (auto simp: off_kind_def)
next
  assume *: "(\<forall>m. t \<notin> set (a (Q_mutex m))) \<and> (\<forall>k. t \<notin> set (a (Q_sem k)))"
  have "t \<notin> set (a q)" if "kind_of q = K_wait" for q using * that by (cases q) auto
  then show "off_kind a K_wait t" by (simp add: off_kind_def)
qed

lemma off_kind_upd_run:
  assumes "kind_of q = K_run"
  shows "off_kind (a(q := xs)) K_wait t = off_kind a K_wait t"
  using assms unfolding off_kind_def by (metis fun_upd_other node_kind.distinct(3))

lemma task_set_ready_pre:
  assumes "sched_pre T s a" and "t \<in> T"
    and "t = idle_task s \<or> (off_kind a K_run t \<and> off_kind a K_wait t)"
  shows "sched_pre T (task_set_ready t s) (a_ready (idle_task s) t a)"
proof (rule sched_pre_change [OF assms(1)])
  note inv = sched_preD [OF assms(1)]
  show "qrep T (task_set_ready t s) (a_ready (idle_task s) t a)"
    using inv assms(2,3) by (intro task_set_ready_rep) auto
  show "off_kind (a_ready (idle_task s) t a) K_run (idle_task s)"
    using inv(5) by (auto simp: a_ready_def off_kind_run_iff)
  show "off_kind (a_ready (idle_task s) t a) K_wait (idle_task s)"
    using inv(6) by (simp add: a_ready_def off_kind_upd_run)
  show "off_kind (a_ready (idle_task s) t a) K_run u \<or> off_kind (a_ready (idle_task s) t a) K_wait u" for u
    using inv(7) [of u] assms(3) by (auto simp: a_ready_def off_kind_upd_run off_kind_run_iff)
qed (simp_all add: set_state_def)

lemma task_set_block_pre:
  assumes "sched_pre T s a" and "t = idle_task s \<or> t \<in> set (a Q_ready)"
  shows "sched_pre T (task_set_block t s) (a_block (idle_task s) t a)"
proof (rule sched_pre_change [OF assms(1)])
  note inv = sched_preD [OF assms(1)]
  show "qrep T (task_set_block t s) (a_block (idle_task s) t a)"
    using inv assms(2) by (intro task_set_block_rep) auto
  have sub: "set (remove1 t (a Q_ready)) \<subseteq> set (a Q_ready)" by (rule set_remove1_subset)
  show "off_kind (a_block (idle_task s) t a) K_run (idle_task s)"
    using inv(5) sub by (auto simp: a_block_def off_kind_run_iff)
  show "off_kind (a_block (idle_task s) t a) K_wait (idle_task s)"
    using inv(6) by (simp add: a_block_def off_kind_upd_run)
  show "off_kind (a_block (idle_task s) t a) K_run u \<or> off_kind (a_block (idle_task s) t a) K_wait u" for u
    using inv(7) [of u] sub by (auto simp: a_block_def off_kind_upd_run off_kind_run_iff)
qed simp_all

lemma task_set_sleep_pre:
  assumes "sched_pre T s a" and "t \<in> T" and "t \<noteq> idle_task s"
    and "off_kind a K_run t" and "off_kind a K_wait t" and "n \<noteq> 0"
  shows "sched_pre T (task_set_sleep t n s) (a_sleep t a)"
proof (rule sched_pre_change [OF assms(1)])
  note inv = sched_preD [OF assms(1)]
  show "qrep T (task_set_sleep t n s) (a_sleep t a)"
    using inv assms by (intro task_set_sleep_rep) auto
  show "off_kind (a_sleep t a) K_run (idle_task s)"
    using inv(5) assms(3) by (auto simp: a_sleep_def off_kind_run_iff)
  show "off_kind (a_sleep t a) K_wait (idle_task s)"
    using inv(6) by (simp add: a_sleep_def off_kind_upd_run)
  show "off_kind (a_sleep t a) K_run u \<or> off_kind (a_sleep t a) K_wait u" for u
    using inv(7) [of u] assms(5) by (auto simp: a_sleep_def off_kind_upd_run off_kind_run_iff)
qed (simp_all add: task_set_sleep_def Let_def split: prod.split)

lemma task_set_wakeup_pre:
  assumes "sched_pre T s a" and "t \<in> set (a Q_sleep)"
  shows "sched_pre T (task_set_wakeup t s) (a_wakeup t a)"
proof (rule sched_pre_change [OF assms(1)])
  note inv = sched_preD [OF assms(1)]
  show "qrep T (task_set_wakeup t s) (a_wakeup t a)"
    using inv assms(2) by (intro task_set_wakeup_rep) auto
  have sub: "set (remove1 t (a Q_sleep)) \<subseteq> set (a Q_sleep)" by (rule set_remove1_subset)
  show "off_kind (a_wakeup t a) K_run (idle_task s)"
    using inv(5) sub by (auto simp: a_wakeup_def off_kind_run_iff)
  show "off_kind (a_wakeup t a) K_wait (idle_task s)"
    using inv(6) by (simp add: a_wakeup_def off_kind_upd_run)
  show "off_kind (a_wakeup t a) K_run u \<or> off_kind (a_wakeup t a) K_wait u" for u
    using inv(7) [of u] sub by (auto simp: a_wakeup_def off_kind_upd_run off_kind_run_iff)
qed simp_all

lemma task_dispatch_inv:
  assumes "sched_pre T s a"
  shows "sched_inv T (task_dispatch s) a"
proof (cases "a_next (idle_task s) a = curr_task s")
  case True
  with assms task_next_run_rep [OF sched_preD(1,2) [OF assms]] show ?thesis
    by (simp add: task_dispatch_stay sched_inv_def)
next
  case False
  note inv = sched_preD [OF assms]
  note sw = task_dispatch_switch [OF inv(1,2,8,9,3,4) False]
  have cur: "curr_task (task_dispatch s) = a_next (idle_task s) a"
    by (rule task_dispatch_curr [OF inv(1,2)])
  have sel: "tss_sel (tasks (task_dispatch s) t) = tss_sel (tasks s t)" for t
    by (simp add: sw(4) set_state_def)
  have in_T: "a_next (idle_task s) a \<in> T" using inv(2,3) by (rule a_next_in)
  have "tss_ok T (task_dispatch s)" using inv(8) tss_ok_cong [of "task_dispatch s" s T] sel by simp
  moreover have "tr_ok (task_dispatch s)"
    using inv(8) in_T by (simp add: tr_ok_def sw(5) cur tss_ok_def tss_task_def tss_desc_def)
  ultimately show ?thesis
    using inv cur in_T qrep_dispatch [OF inv(2)]
    by (simp add: sched_inv_def sched_pre_def)
qed

section \<open>Yielding, sleeping and time slices\<close>

lemma a_rotate_ready:
  "t \<noteq> idle \<Longrightarrow> a Q_ready = t # ts \<Longrightarrow> a_rotate idle t a = a(Q_ready := ts @ [t])"
  by (simp add: a_rotate_def a_ready_def a_block_def)

lemma curr_not_idle:
  assumes "sched_inv T s a" and "curr_task s \<noteq> idle_task s"
  obtains ts where "a Q_ready = curr_task s # ts"
  using assms by (cases "a Q_ready") (auto simp: sched_inv_def a_next_def)

lemma curr_idle_iff:
  assumes "sched_inv T s a"
  shows "curr_task s = idle_task s \<longleftrightarrow> a Q_ready = []"
  using assms sched_preD(5) [OF sched_invD(1) [OF assms]]
  by (cases "a Q_ready") (auto simp: sched_inv_def a_next_def off_kind_run_iff)

lemma block_ready_off:
  assumes "sched_pre T s a" and "t = idle_task s \<or> t \<in> set (a Q_ready)"
  shows "t = idle_task s \<or>
    (off_kind (a_block (idle_task s) t a) K_run t \<and> off_kind (a_block (idle_task s) t a) K_wait t)"
proof (cases "t = idle_task s")
  case False
  note inv = sched_preD [OF assms(1)]
  from False assms(2) have t: "t \<in> set (a Q_ready)" by simp
  have "t \<notin> set (remove1 t (a Q_ready))" using qrep_distinct [OF inv(2)] by simp
  moreover have "t \<notin> set (a Q_sleep)" using qrep_disjoint [OF inv(2), of Q_ready Q_sleep t] t by simp
  moreover have "off_kind a K_wait t" using inv(7) [of t] t by (auto simp: off_kind_run_iff)
  ultimately show ?thesis
    using False by (simp add: a_block_def off_kind_run_iff off_kind_upd_run)
qed simp

text \<open>Taking a task off the ready queue and queueing it again moves it to the tail.\<close>

lemma requeue_pre:
  assumes "sched_pre T s a" and "t \<in> T" and "t = idle_task s \<or> t \<in> set (a Q_ready)"
  shows "sched_pre T (task_set_ready t (task_set_block t s)) (a_rotate (idle_task s) t a)"
  unfolding a_rotate_def
  using task_set_ready_pre [OF task_set_block_pre [OF assms(1,3)] assms(2)] block_ready_off [OF assms(1,3)]
  by simp

lemma sys_sched_yield_inv:
  assumes "sched_inv T s a"
  shows "sched_inv T (sys_sched_yield s)
    (if length (a Q_ready) > 1 then a_rotate (idle_task s) (curr_task s) a else a)"
proof -
  note pre = sched_invD(1) [OF assms] and inv = sched_preD [OF sched_invD(1) [OF assms]]
  have cnt: "list_count (ready_list s) = int (length (a Q_ready))"
    using qrep_count [OF inv(2), of Q_ready] by simp
  have cur: "curr_task s = idle_task s \<or> curr_task s \<in> set (a Q_ready)"
    using curr_not_idle [OF assms] by (metis list.set_intros(1))
  show ?thesis
  proof (cases "length (a Q_ready) > 1")
    case True
    have "sched_pre T (task_set_ready (curr_task s) (task_set_block (curr_task s) (cli s)))
        (a_rotate (idle_task s) (curr_task s) a)"
      using requeue_pre [of T "cli s" a "curr_task s"] pre inv(4) cur by simp
    then have "sched_inv T (sys_sched_yield s) (a_rotate (idle_task s) (curr_task s) a)"
      using True cnt by (simp add: sys_sched_yield_def task_current_def Let_def task_dispatch_inv)
    with True show ?thesis by simp
  next
    case False
    then have "sys_sched_yield s = s"
      using cnt by (simp add: sys_sched_yield_def) (simp add: cli_def)
    with False assms show ?thesis by simp
  qed
qed

lemma task_time_tick_slice_inv:
  assumes "sched_inv T s a"
  shows "sched_inv T (task_time_tick_slice (curr_task s) s)
    (a_rotate (idle_task s) (curr_task s) a)"
proof -
  note pre = sched_invD(1) [OF assms] and inv = sched_preD [OF sched_invD(1) [OF assms]]
  have cur: "curr_task s = idle_task s \<or> curr_task s \<in> set (a Q_ready)"
    using curr_not_idle [OF assms] by (metis list.set_intros(1))
  let ?s1 = "upd_task (curr_task s) (\<lambda>t. t\<lparr>slice_ticks := time_ticks t\<rparr>) s"
  have "sched_pre T ?s1 a" using pre by (rule sched_pre_upd_task) simp
  from requeue_pre [OF this] inv(4) cur show ?thesis
    by (simp add: task_time_tick_slice_def Let_def task_dispatch_inv)
qed

text \<open>Number of ticks that \<open>sys_sleep\<close> computes: milliseconds rounded up, in 32-bit arithmetic.\<close>

definition sleep_ticks_of :: "uint32_t \<Rightarrow> uint32_t" where
  "sleep_ticks_of ms = (ms + (OS_TICKS_MS - 1)) div OS_TICKS_MS"

lemma sys_sleep_inv:
  assumes "sched_inv T s a" and "curr_task s \<noteq> idle_task s"
  shows "sched_inv T (sys_sleep ms s)
    (if sleep_ticks_of ms = 0 then a_block (idle_task s) (curr_task s) a
     else a_sleep (curr_task s) (a_block (idle_task s) (curr_task s) a))"
proof -
  note pre = sched_invD(1) [OF assms(1)] and inv = sched_preD [OF sched_invD(1) [OF assms(1)]]
  let ?c = "curr_task s" and ?a1 = "a_block (idle_task s) (curr_task s) a"
  have cur: "?c = idle_task s \<or> ?c \<in> set (a Q_ready)"
    using curr_not_idle [OF assms] by (metis list.set_intros(1))
  have blk: "sched_pre T (task_set_block ?c (cli s)) ?a1"
    using task_set_block_pre [of T "cli s" a ?c] pre cur by simp
  have off: "off_kind ?a1 K_run ?c" "off_kind ?a1 K_wait ?c"
    using block_ready_off [OF pre cur] assms(2) by simp_all
  show ?thesis
  proof (cases "sleep_ticks_of ms = 0")
    case True
    with blk show ?thesis
      by (simp add: sys_sleep_def task_set_sleep_def sleep_ticks_of_def [symmetric] task_dispatch_inv)
  next
    case False
    with task_set_sleep_pre [OF blk _ _ off False] inv(4) assms(2) show ?thesis
      by (simp add: sys_sleep_def sleep_ticks_of_def [symmetric] task_dispatch_inv)
  qed
qed

section \<open>The walk over the sleep list\<close>

text \<open>
  The effect of one tick on a sleeping task, and on the queues: the tasks of \<open>vs\<close> whose counter
  reaches zero leave the sleep queue and join the ready queue in their order.
\<close>

definition tick_task :: "task_t \<Rightarrow> task_t" where
  "tick_task t =
    (if sleep_ticks t = 1 then t\<lparr>sleep_ticks := 0, tstate := TASK_READY\<rparr>
     else t\<lparr>sleep_ticks := sleep_ticks t - 1\<rparr>)"

definition due :: "kst \<Rightarrow> addr \<Rightarrow> bool" where
  "due s t \<longleftrightarrow> sleep_ticks (tasks s t) = 1"

definition a_tick :: "kst \<Rightarrow> addr list \<Rightarrow> addr list \<Rightarrow> queues \<Rightarrow> queues" where
  "a_tick s us vs a =
    a(Q_ready := a Q_ready @ filter (due s) vs, Q_sleep := us @ filter (\<lambda>t. \<not> due s t) vs)"

text \<open>The parts of the state that waking tasks up does not touch.\<close>

definition same_context :: "kst \<Rightarrow> kst \<Rightarrow> bool" where
  "same_context s s' \<longleftrightarrow>
    idle_task s' = idle_task s \<and> first_task s' = first_task s \<and> curr_task s' = curr_task s \<and>
    gdt_table s' = gdt_table s \<and> tr s' = tr s \<and> eflags s' = eflags s \<and> kstack s' = kstack s \<and>
    saved s' = saved s \<and> mutexes s' = mutexes s \<and> sems s' = sems s \<and> kmem s' = kmem s \<and> outs s' = outs s"

lemma same_context_trans: "same_context s s' \<Longrightarrow> same_context s' s'' \<Longrightarrow> same_context s s''"
  by (simp add: same_context_def)

lemma sleep_step_context: "same_context s (sleep_step t s)"
  by (simp add: same_context_def sleep_step_def Let_def)

lemma sleep_step_tasks:
  "t \<noteq> idle_task s \<Longrightarrow> tasks (sleep_step t s) = (tasks s)(t := tick_task (tasks s t))"
  by (simp add: sleep_step_def tick_task_def Let_def set_state_def)

lemma sleep_step_pre:
  assumes "sched_pre T s a" and "a Q_sleep = us @ t # vs"
  shows "sched_pre T (sleep_step t s)
    (if due s t then a(Q_ready := a Q_ready @ [t], Q_sleep := us @ vs) else a)"
proof -
  note inv = sched_preD [OF assms(1)]
  let ?s1 = "upd_task t (\<lambda>t. t\<lparr>sleep_ticks := sleep_ticks t - 1\<rparr>) s"
  have s1: "sched_pre T ?s1 a" using assms(1) by (rule sched_pre_upd_task) simp
  have t: "t \<in> set (a Q_sleep)" using assms(2) by simp
  have idle: "t \<noteq> idle_task s" using t inv(5) by (auto simp: off_kind_run_iff)
  have in_T: "t \<in> T" using qrep_subset [OF inv(2) t] .
  have rem: "remove1 t (a Q_sleep) = us @ vs" and fresh: "t \<notin> set (us @ vs)"
    using qrep_distinct [OF inv(2), of Q_sleep] assms(2) by (simp_all add: remove1_split)
  have "t \<notin> set (a Q_ready)" using qrep_disjoint [OF inv(2), of Q_sleep Q_ready t] t by simp
  then have off: "off_kind (a_wakeup t a) K_run t" using fresh rem
    by (simp add: off_kind_run_iff a_wakeup_def)
  have "off_kind a K_wait t" using inv(7) [of t] t by (auto simp: off_kind_run_iff)
  then have offw: "off_kind (a_wakeup t a) K_wait t" by (simp add: a_wakeup_def off_kind_upd_run)
  show ?thesis
  proof (cases "due s t")
    case True
    have eq: "a_ready (idle_task s) t (a_wakeup t a) = a(Q_ready := a Q_ready @ [t], Q_sleep := us @ vs)"
      using idle rem by (simp add: a_ready_def a_wakeup_def fun_upd_twist)
    from task_set_ready_pre [OF task_set_wakeup_pre [OF s1 t] in_T] off offw
    have "sched_pre T (task_set_ready t (task_set_wakeup t ?s1)) (a_ready (idle_task s) t (a_wakeup t a))"
      by simp
    with True eq show ?thesis by (simp add: sleep_step_def due_def Let_def)
  next
    case False
    with s1 show ?thesis by (simp add: sleep_step_def due_def Let_def)
  qed
qed

lemma sleep_walk_spec:
  assumes "sched_pre T s a" and "a Q_sleep = us @ vs"
  shows "\<exists>s'. sleep_walk (hdq (map run_node vs) NULL) s = Some s' \<and>
    sched_pre T s' (a_tick s us vs a) \<and> same_context s s' \<and>
    tasks s' = (\<lambda>t. if t \<in> set vs then tick_task (tasks s t) else tasks s t)"
  using assms
proof (induction vs arbitrary: s a us)
  case Nil
  have "a_tick s us [] a = a" using Nil.prems(2) by (auto simp: a_tick_def fun_eq_iff)
  with Nil.prems(1) show ?case
    by (simp add: sleep_walk.simps [of NULL] same_context_def)
next
  case (Cons t vs)
  note inv = sched_preD [OF Cons.prems(1)]
  let ?s1 = "sleep_step t s"
  let ?a1 = "if due s t then a(Q_ready := a Q_ready @ [t], Q_sleep := us @ vs) else a"
  let ?us = "if due s t then us else us @ [t]"
  have t: "t \<in> set (a Q_sleep)" "t \<in> T" using Cons.prems(2) qrep_subset [OF inv(2), of t Q_sleep] by auto
  have d: "distinct (us @ t # vs)" using qrep_distinct [OF inv(2), of Q_sleep] Cons.prems(2) by simp
  have idle: "t \<noteq> idle_task s" using t(1) inv(5) by (auto simp: off_kind_run_iff)
  have nz: "run_node t \<noteq> NULL" using knode_not_null [OF inv(1) t(2), of K_run] by simp
  have "list_node_next (nodes s) (run_node t) = hdq (map run_node vs) NULL"
    using dll_next [of "nodes s" "sleep_list s" "map run_node us" "run_node t" "map run_node vs"]
      qrep_dll [OF inv(2), of Q_sleep] Cons.prems(2) by simp
  then have walk: "sleep_walk (hdq (map run_node (t # vs)) NULL) s = sleep_walk (hdq (map run_node vs) NULL) ?s1"
    using nz by (simp add: sleep_walk.simps [of "run_node t"])
  have "sched_pre T ?s1 ?a1" by (rule sleep_step_pre [OF Cons.prems])
  moreover have "?a1 Q_sleep = ?us @ vs" using Cons.prems(2) by simp
  ultimately obtain s' where s': "sleep_walk (hdq (map run_node vs) NULL) ?s1 = Some s'"
    "sched_pre T s' (a_tick ?s1 ?us vs ?a1)" "same_context ?s1 s'"
    "tasks s' = (\<lambda>u. if u \<in> set vs then tick_task (tasks ?s1 u) else tasks ?s1 u)"
    using Cons.IH by blast
  have due: "filter (due ?s1) vs = filter (due s) vs" "filter (\<lambda>t. \<not> due ?s1 t) vs = filter (\<lambda>t. \<not> due s t) vs"
    using d by (auto intro!: filter_cong simp: due_def sleep_step_tasks [OF idle] split: if_splits)
  have "a_tick ?s1 ?us vs ?a1 = a_tick s us (t # vs) a"
    by (simp add: a_tick_def due fun_upd_twist)
  moreover have "tasks s' = (\<lambda>u. if u \<in> set (t # vs) then tick_task (tasks s u) else tasks s u)"
    using d by (auto simp: s'(4) sleep_step_tasks [OF idle])
  ultimately show ?case
    using s' walk same_context_trans [OF sleep_step_context s'(3)] by auto
qed

text \<open>One whole tick on the sleep queue, and the dispatch that follows it.\<close>

lemma task_time_tick_sleep_spec:
  assumes "sched_pre T s a"
  shows "\<exists>s'. task_time_tick_sleep s = Some (task_dispatch s') \<and>
    sched_pre T s' (a_tick s [] (a Q_sleep) a) \<and> same_context s s' \<and>
    tasks s' = (\<lambda>t. if t \<in> set (a Q_sleep) then tick_task (tasks s t) else tasks s t)"
proof -
  have "list_first (sleep_list s) = hdq (map run_node (a Q_sleep)) NULL"
    using qrep_first [OF sched_preD(2) [OF assms], of Q_sleep] by simp
  then show ?thesis
    using sleep_walk_spec [OF assms, of "[]" "a Q_sleep"] by (auto simp: task_time_tick_sleep_def)
qed

end
