(* ===== verification/Ipc.thy ===== *)
theory Ipc
  imports Task
begin

text \<open>
  Mutexes and semaphores: \<open>src/source/kernel/ipc/mutex.c\<close> and \<open>sem.c\<close>.  A blocked task is taken off the
  ready queue and parked on the object's wait list; a release hands the object to the first waiter.
  The abstract objects \<open>alock\<close> and \<open>asem\<close> say what is promised: a reentrant lock, respectively a counter,
  with first-in-first-out waiters.
\<close>

section \<open>Mutex\<close>

definition mutex_init :: "mutex_id \<Rightarrow> kst \<Rightarrow> kst" where
  "mutex_init m s =
    s\<lparr>mutexes := (mutexes s)(m := \<lparr>mowner = NULL, locked_count = 0, mwait_list = list_init\<rparr>)\<rparr>"

definition upd_mutex :: "mutex_id \<Rightarrow> (mutex_t \<Rightarrow> mutex_t) \<Rightarrow> kst \<Rightarrow> kst" where
  "upd_mutex m f s = s\<lparr>mutexes := (mutexes s)(m := f (mutexes s m))\<rparr>"

definition mutex_lock :: "mutex_id \<Rightarrow> kst \<Rightarrow> kst" where
  "mutex_lock m s =
    (let (state, s1) = irq_enter_protection s;
         cur = task_current s1
     in if locked_count (mutexes s1 m) = 0 then
          irq_leave_protection state
            (upd_mutex m (\<lambda>x. x\<lparr>locked_count := locked_count x + 1, mowner := cur\<rparr>) s1)
        else if mowner (mutexes s1 m) = cur then
          irq_leave_protection state
            (upd_mutex m (\<lambda>x. x\<lparr>locked_count := locked_count x + 1\<rparr>) s1)
        else
          let s2 = task_set_block cur s1;
              (l, h) = list_insert_last (mwait_list (mutexes s2 m)) (wait_node cur) (nodes s2);
              s3 = upd_mutex m (\<lambda>x. x\<lparr>mwait_list := l\<rparr>) (s2\<lparr>nodes := h\<rparr>)
          in task_dispatch (push_frame (F_leave state) s3))"

definition mutex_unlock :: "mutex_id \<Rightarrow> kst \<Rightarrow> kst" where
  "mutex_unlock m s =
    (let (state, s1) = irq_enter_protection s;
         cur = task_current s1
     in if mowner (mutexes s1 m) = cur then
          let s2 = upd_mutex m (\<lambda>x. x\<lparr>locked_count := locked_count x - 1\<rparr>) s1
          in if locked_count (mutexes s2 m) = 0 then
               let s3 = upd_mutex m (\<lambda>x. x\<lparr>mowner := NULL\<rparr>) s2
               in if list_count (mwait_list (mutexes s3 m)) \<noteq> 0 then
                    let (node, l, h) = list_remove_first (mwait_list (mutexes s3 m)) (nodes s3);
                        s4 = upd_mutex m (\<lambda>x. x\<lparr>mwait_list := l\<rparr>) (s3\<lparr>nodes := h\<rparr>);
                        task = list_node_parent node off_wait_node;
                        s5 = task_set_ready task s4;
                        s6 = upd_mutex m (\<lambda>x. x\<lparr>locked_count := 1, mowner := task\<rparr>) s5
                    in task_dispatch (push_frame (F_leave state) s6)
                  else irq_leave_protection state s3
             else irq_leave_protection state s2
        else irq_leave_protection state s1)"

section \<open>Semaphore\<close>

definition sem_init :: "sem_id \<Rightarrow> int \<Rightarrow> kst \<Rightarrow> kst" where
  "sem_init k init_count s =
    s\<lparr>sems := (sems s)(k := \<lparr>scount = init_count, swait_list = list_init\<rparr>)\<rparr>"

definition upd_sem :: "sem_id \<Rightarrow> (sem_t \<Rightarrow> sem_t) \<Rightarrow> kst \<Rightarrow> kst" where
  "upd_sem k f s = s\<lparr>sems := (sems s)(k := f (sems s k))\<rparr>"

definition sem_wait :: "sem_id \<Rightarrow> kst \<Rightarrow> kst" where
  "sem_wait k s =
    (let (state, s1) = irq_enter_protection s
     in if scount (sems s1 k) > 0 then
          irq_leave_protection state (upd_sem k (\<lambda>x. x\<lparr>scount := scount x - 1\<rparr>) s1)
        else
          let cur = task_current s1;
              s2 = task_set_block cur s1;
              (l, h) = list_insert_last (swait_list (sems s2 k)) (wait_node cur) (nodes s2);
              s3 = upd_sem k (\<lambda>x. x\<lparr>swait_list := l\<rparr>) (s2\<lparr>nodes := h\<rparr>)
          in task_dispatch (push_frame (F_leave state) s3))"

definition sem_notify :: "sem_id \<Rightarrow> kst \<Rightarrow> kst" where
  "sem_notify k s =
    (let (state, s1) = irq_enter_protection s
     in if list_count (swait_list (sems s1 k)) \<noteq> 0 then
          let (node, l, h) = list_remove_first (swait_list (sems s1 k)) (nodes s1);
              s2 = upd_sem k (\<lambda>x. x\<lparr>swait_list := l\<rparr>) (s1\<lparr>nodes := h\<rparr>);
              task = list_node_parent node off_wait_node;
              s3 = task_set_ready task s2
          in task_dispatch (push_frame (F_leave state) s3)
        else
          irq_leave_protection state (upd_sem k (\<lambda>x. x\<lparr>scount := scount x + 1\<rparr>) s1))"

definition sem_count :: "sem_id \<Rightarrow> kst \<Rightarrow> int \<times> kst" where
  "sem_count k s =
    (let (state, s1) = irq_enter_protection s;
         count = scount (sems s1 k)
     in (count, irq_leave_protection state s1))"

section \<open>Abstract objects\<close>

record alock =
  holder :: addr
  depth :: int
  lwaiters :: "addr list"

definition a_lock :: "addr \<Rightarrow> alock \<Rightarrow> alock" where
  "a_lock t L =
    (if depth L = 0 then L\<lparr>holder := t, depth := 1\<rparr>
     else if holder L = t then L\<lparr>depth := depth L + 1\<rparr>
     else L\<lparr>lwaiters := lwaiters L @ [t]\<rparr>)"

definition a_unlock :: "addr \<Rightarrow> alock \<Rightarrow> alock" where
  "a_unlock t L =
    (if holder L \<noteq> t then L
     else if depth L \<noteq> 1 then L\<lparr>depth := depth L - 1\<rparr>
     else case lwaiters L of
       [] \<Rightarrow> L\<lparr>holder := NULL, depth := 0\<rparr>
     | w # ws \<Rightarrow> \<lparr>holder = w, depth = 1, lwaiters = ws\<rparr>)"

definition alock_of :: "kst \<Rightarrow> queues \<Rightarrow> mutex_id \<Rightarrow> alock" where
  "alock_of s a m =
    \<lparr>holder = mowner (mutexes s m), depth = locked_count (mutexes s m), lwaiters = a (Q_mutex m)\<rparr>"

record asem =
  avail :: int
  swaiters :: "addr list"

definition a_wait :: "addr \<Rightarrow> asem \<Rightarrow> asem" where
  "a_wait t S =
    (if avail S > 0 then S\<lparr>avail := avail S - 1\<rparr> else S\<lparr>swaiters := swaiters S @ [t]\<rparr>)"

definition a_notify :: "asem \<Rightarrow> asem" where
  "a_notify S =
    (case swaiters S of [] \<Rightarrow> S\<lparr>avail := avail S + 1\<rparr> | w # ws \<Rightarrow> S\<lparr>swaiters := ws\<rparr>)"

definition asem_of :: "kst \<Rightarrow> queues \<Rightarrow> sem_id \<Rightarrow> asem" where
  "asem_of s a k = \<lparr>avail = scount (sems s k), swaiters = a (Q_sem k)\<rparr>"

section \<open>Parking and waking\<close>

lemma upd_mutex_frame [simp, frame_simps]:
  "idle_task (upd_mutex m f s) = idle_task s" "first_task (upd_mutex m f s) = first_task s"
  "curr_task (upd_mutex m f s) = curr_task s" "ready_list (upd_mutex m f s) = ready_list s"
  "sleep_list (upd_mutex m f s) = sleep_list s" "task_list (upd_mutex m f s) = task_list s"
  "sems (upd_mutex m f s) = sems s" "gdt_table (upd_mutex m f s) = gdt_table s"
  "tr (upd_mutex m f s) = tr s" "eflags (upd_mutex m f s) = eflags s"
  "kstack (upd_mutex m f s) = kstack s" "saved (upd_mutex m f s) = saved s"
  "tasks (upd_mutex m f s) = tasks s" "nodes (upd_mutex m f s) = nodes s"
  "kmem (upd_mutex m f s) = kmem s"
  "mutexes (upd_mutex m f s) = (mutexes s)(m := f (mutexes s m))"
  "list_of (upd_mutex m f s) = (list_of s)(Q_mutex m := mwait_list (f (mutexes s m)))"
  by (simp_all add: upd_mutex_def list_of_mutexes)

lemma upd_sem_frame [simp, frame_simps]:
  "idle_task (upd_sem k f s) = idle_task s" "first_task (upd_sem k f s) = first_task s"
  "curr_task (upd_sem k f s) = curr_task s" "ready_list (upd_sem k f s) = ready_list s"
  "sleep_list (upd_sem k f s) = sleep_list s" "task_list (upd_sem k f s) = task_list s"
  "mutexes (upd_sem k f s) = mutexes s" "gdt_table (upd_sem k f s) = gdt_table s"
  "tr (upd_sem k f s) = tr s" "eflags (upd_sem k f s) = eflags s"
  "kstack (upd_sem k f s) = kstack s" "saved (upd_sem k f s) = saved s"
  "tasks (upd_sem k f s) = tasks s" "nodes (upd_sem k f s) = nodes s"
  "kmem (upd_sem k f s) = kmem s" "sems (upd_sem k f s) = (sems s)(k := f (sems s k))"
  "list_of (upd_sem k f s) = (list_of s)(Q_sem k := swait_list (f (sems s k)))"
  by (simp_all add: upd_sem_def list_of_sems)

lemma list_of_same: "(list_of s)(q := list_of s q) = list_of s"
  by simp

text \<open>The current task leaves the ready queue for a wait list.\<close>

lemma park_pre:
  assumes inv: "sched_inv T s a" and ni: "curr_task s \<noteq> idle_task s" and q: "kind_of q = K_wait"
    and ins: "list_insert_last (list_of s q) (wait_node (curr_task s)) (nodes (task_set_block (curr_task s) (cli s)))
      = (l, h)"
    and s3: "nodes s3 = h" "list_of s3 = (list_of (task_set_block (curr_task s) (cli s)))(q := l)"
      "idle_task s3 = idle_task s" "curr_task s3 = curr_task s" "gdt_table s3 = gdt_table s"
      "tr s3 = tr s" "\<And>t. tss_sel (tasks s3 t) = tss_sel (tasks s t)"
  shows "sched_pre T s3 (a(Q_ready := tl (a Q_ready), q := a q @ [curr_task s]))"
proof -
  note pre = sched_invD(1) [OF inv]
  let ?c = "curr_task s" and ?s2 = "task_set_block (curr_task s) (cli s)"
  obtain ts where ts: "a Q_ready = ?c # ts" using curr_not_idle [OF inv ni] .
  let ?a1 = "a(Q_ready := ts)"
  have q_ne: "q \<noteq> Q_ready" using q by auto
  have a1: "a_block (idle_task s) ?c a = ?a1" using ni ts by (simp add: a_block_def)
  have cur: "?c = idle_task s \<or> ?c \<in> set (a Q_ready)" using ts by simp
  have blk: "sched_pre T ?s2 ?a1" using task_set_block_pre [of T "cli s" a ?c] pre cur a1 by simp
  note inv2 = sched_preD [OF blk]
  have off: "off_kind ?a1 K_run ?c" "off_kind ?a1 K_wait ?c"
    using block_ready_off [OF pre cur] ni a1 by simp_all
  have lq: "list_of ?s2 q = list_of s q" using q by (cases q) simp_all
  have eq: "a(Q_ready := tl (a Q_ready), q := a q @ [?c]) = ?a1(q := ?a1 q @ [?c])"
    using q_ne ts by simp
  have rep: "qrep T s3 (?a1(q := ?a1 q @ [?c]))"
  proof (rule qrep_insert [OF inv2(1,2)])
    show "list_insert_last (list_of ?s2 q) (node_of q ?c) (nodes ?s2) = (l, h)"
      using ins q lq by simp
  qed (use sched_preD(4) [OF pre] off q s3 in simp_all)
  have run: "off_kind (?a1(q := ?a1 q @ [?c])) K_run t \<longleftrightarrow> off_kind ?a1 K_run t" for t
    using q q_ne by (cases q) (simp_all add: off_kind_run_iff)
  have wait: "off_kind (?a1(q := ?a1 q @ [?c])) K_wait t \<longleftrightarrow> off_kind ?a1 K_wait t \<and> t \<noteq> ?c" for t
    using q unfolding off_kind_def by auto
  show ?thesis unfolding eq
  proof (rule sched_pre_change [OF blk rep])
    show "off_kind (?a1(q := ?a1 q @ [?c])) K_run t \<or> off_kind (?a1(q := ?a1 q @ [?c])) K_wait t" for t
      using inv2(7) [of t] off run wait by auto
  qed (use s3 inv2 ni run wait in simp_all)
qed

text \<open>The first waiter leaves a wait list for the tail of the ready queue.\<close>

lemma wake_pre:
  assumes pre: "sched_pre T s a" and q: "kind_of q = K_wait" and a: "a q = t # ts"
    and rem: "list_remove_first (list_of s q) (nodes s) = (r, l, h)"
    and s1: "nodes s1 = h" "list_of s1 = (list_of s)(q := l)"
      "idle_task s1 = idle_task s" "curr_task s1 = curr_task s" "gdt_table s1 = gdt_table s"
      "tr s1 = tr s" "\<And>t. tss_sel (tasks s1 t) = tss_sel (tasks s t)"
  shows "list_node_parent r off_wait_node = t"
    and "sched_pre T (task_set_ready t s1) (a(q := ts, Q_ready := a Q_ready @ [t]))"
    and "t \<noteq> idle_task s"
proof -
  note inv = sched_preD [OF pre]
  have t: "t \<in> set (a q)" "t \<in> T" using a qrep_subset [OF inv(2), of t q] by auto
  note first = qrep_remove_first [OF inv(1,2) a rem s1(1,2)]
  have "wait_node t \<noteq> NULL" using knode_not_null [OF inv(1) t(2), of K_wait] by simp
  with first(1) q show "list_node_parent r off_wait_node = t" by simp
  show idle: "t \<noteq> idle_task s" using inv(6) t(1) q by (auto simp: off_kind_def)
  have not_wait: "\<not> off_kind a K_wait t" using t(1) q by (auto simp: off_kind_def)
  have run: "off_kind (a(q := ts)) K_run u \<longleftrightarrow> off_kind a K_run u" for u
    using q by (cases q) (simp_all add: off_kind_run_iff)
  have wait: "off_kind a K_wait u \<Longrightarrow> off_kind (a(q := ts)) K_wait u" for u
    using a by (auto simp: off_kind_def)
  have s1_pre: "sched_pre T s1 (a(q := ts))"
    by (rule sched_pre_change [OF pre first(2)]) (use s1 inv run wait in auto)
  have "t \<notin> set ts" using qrep_distinct [OF inv(2), of q] a by simp
  then have offw: "off_kind (a(q := ts)) K_wait t"
    using qrep_disjoint [OF inv(2)] t(1) q unfolding off_kind_def by (metis fun_upd_apply)
  have offr: "off_kind (a(q := ts)) K_run t" using run inv(7) [of t] not_wait by blast
  have "sched_pre T (task_set_ready t s1) (a_ready (idle_task s1) t (a(q := ts)))"
    using offr offw by (intro task_set_ready_pre [OF s1_pre t(2)]) simp
  moreover have "a_ready (idle_task s1) t (a(q := ts)) = a(q := ts, Q_ready := a Q_ready @ [t])"
    using idle s1(3) q by (cases q) (simp_all add: a_ready_def)
  ultimately show "sched_pre T (task_set_ready t s1) (a(q := ts, Q_ready := a Q_ready @ [t]))" by simp
qed

section \<open>The operations refine the abstract objects\<close>

lemma sched_pre_upd_mutex:
  "sched_pre T s a \<Longrightarrow> (\<And>x. mwait_list (f x) = mwait_list x) \<Longrightarrow> sched_pre T (upd_mutex m f s) a"
  by (erule sched_pre_cong) (simp_all add: list_of.simps(4) [symmetric] del: list_of.simps(4))

lemma sched_pre_upd_sem:
  "sched_pre T s a \<Longrightarrow> (\<And>x. swait_list (f x) = swait_list x) \<Longrightarrow> sched_pre T (upd_sem k f s) a"
  by (erule sched_pre_cong) (simp_all add: list_of.simps(5) [symmetric] del: list_of.simps(5))

lemma sched_inv_upd_mutex:
  "sched_inv T s a \<Longrightarrow> (\<And>x. mwait_list (f x) = mwait_list x) \<Longrightarrow> sched_inv T (upd_mutex m f s) a"
  by (simp add: sched_inv_def sched_pre_upd_mutex)

lemma sched_inv_upd_sem:
  "sched_inv T s a \<Longrightarrow> (\<And>x. swait_list (f x) = swait_list x) \<Longrightarrow> sched_inv T (upd_sem k f s) a"
  by (simp add: sched_inv_def sched_pre_upd_sem)

text \<open>Leaving the protected section restores the flags, whatever was updated inside.\<close>

lemma protect_upd_mutex: "(upd_mutex m f (cli s))\<lparr>eflags := eflags s\<rparr> = upd_mutex m f s"
  by (simp add: upd_mutex_def cli_def)

lemma protect_upd_sem: "(upd_sem k f (cli s))\<lparr>eflags := eflags s\<rparr> = upd_sem k f s"
  by (simp add: upd_sem_def cli_def)

lemma protect_skip: "(cli s)\<lparr>eflags := eflags s\<rparr> = s"
  by (simp add: cli_def)

definition contended :: "kst \<Rightarrow> mutex_id \<Rightarrow> bool" where
  "contended s m \<longleftrightarrow> locked_count (mutexes s m) \<noteq> 0 \<and> mowner (mutexes s m) \<noteq> curr_task s"

lemma mutex_lock_free:
  "locked_count (mutexes s m) = 0 \<Longrightarrow>
   mutex_lock m s = upd_mutex m (\<lambda>x. x\<lparr>locked_count := locked_count x + 1, mowner := curr_task s\<rparr>) s"
  by (simp add: mutex_lock_def task_current_def protect_upd_mutex)

lemma mutex_lock_again:
  "locked_count (mutexes s m) \<noteq> 0 \<Longrightarrow> mowner (mutexes s m) = curr_task s \<Longrightarrow>
   mutex_lock m s = upd_mutex m (\<lambda>x. x\<lparr>locked_count := locked_count x + 1\<rparr>) s"
  by (simp add: mutex_lock_def task_current_def protect_upd_mutex)

lemma mutex_lock_contended:
  assumes "sched_inv T s a" and "contended s m" and "curr_task s \<noteq> idle_task s"
  shows "sched_inv T (mutex_lock m s)
      (a(Q_ready := tl (a Q_ready), Q_mutex m := a (Q_mutex m) @ [curr_task s]))"
    and "mowner (mutexes (mutex_lock m s) m) = mowner (mutexes s m)"
    and "locked_count (mutexes (mutex_lock m s) m) = locked_count (mutexes s m)"
proof -
  let ?s2 = "task_set_block (curr_task s) (cli s)"
  obtain l h where ins: "list_insert_last (mwait_list (mutexes s m)) (wait_node (curr_task s)) (nodes ?s2) = (l, h)"
    by (cases "list_insert_last (mwait_list (mutexes s m)) (wait_node (curr_task s)) (nodes ?s2)")
  let ?s3 = "upd_mutex m (\<lambda>x. x\<lparr>mwait_list := l\<rparr>) (?s2\<lparr>nodes := h\<rparr>)"
  have eq: "mutex_lock m s = task_dispatch (push_frame (F_leave (eflags s)) ?s3)"
    using assms(2) ins by (simp add: mutex_lock_def contended_def task_current_def)
  have "sched_pre T ?s3 (a(Q_ready := tl (a Q_ready), Q_mutex m := a (Q_mutex m) @ [curr_task s]))"
    using ins by (intro park_pre [OF assms(1,3), of "Q_mutex m" l h]) simp_all
  then show "sched_inv T (mutex_lock m s)
      (a(Q_ready := tl (a Q_ready), Q_mutex m := a (Q_mutex m) @ [curr_task s]))"
    unfolding eq by (simp add: task_dispatch_inv)
  show "mowner (mutexes (mutex_lock m s) m) = mowner (mutexes s m)"
    and "locked_count (mutexes (mutex_lock m s) m) = locked_count (mutexes s m)"
    unfolding eq by simp_all
qed

definition q_lock :: "kst \<Rightarrow> mutex_id \<Rightarrow> queues \<Rightarrow> queues" where
  "q_lock s m a =
    (if contended s m
     then a(Q_ready := tl (a Q_ready), Q_mutex m := a (Q_mutex m) @ [curr_task s]) else a)"

lemma mutex_lock_refines:
  assumes "sched_inv T s a" and "contended s m \<longrightarrow> curr_task s \<noteq> idle_task s"
  shows "sched_inv T (mutex_lock m s) (q_lock s m a)"
    and "alock_of (mutex_lock m s) (q_lock s m a) m = a_lock (curr_task s) (alock_of s a m)"
proof -
  consider "locked_count (mutexes s m) = 0"
    | "locked_count (mutexes s m) \<noteq> 0" "mowner (mutexes s m) = curr_task s" | "contended s m"
    unfolding contended_def by blast
  then have "sched_inv T (mutex_lock m s) (q_lock s m a) \<and>
    alock_of (mutex_lock m s) (q_lock s m a) m = a_lock (curr_task s) (alock_of s a m)"
  proof cases
    case 1
    then show ?thesis using assms(1)
      by (simp add: mutex_lock_free sched_inv_upd_mutex q_lock_def contended_def alock_of_def a_lock_def)
  next
    case 2
    then show ?thesis using assms(1)
      by (simp add: mutex_lock_again sched_inv_upd_mutex q_lock_def contended_def alock_of_def a_lock_def)
  next
    case 3
    with assms have "curr_task s \<noteq> idle_task s" by blast
    from 3 mutex_lock_contended [OF assms(1) 3 this] show ?thesis
      by (simp add: q_lock_def alock_of_def a_lock_def contended_def)
  qed
  then show "sched_inv T (mutex_lock m s) (q_lock s m a)"
    and "alock_of (mutex_lock m s) (q_lock s m a) m = a_lock (curr_task s) (alock_of s a m)"
    by simp_all
qed

text \<open>The unlock that hands the mutex over.\<close>

definition hands_over :: "kst \<Rightarrow> queues \<Rightarrow> mutex_id \<Rightarrow> bool" where
  "hands_over s a m \<longleftrightarrow>
    mowner (mutexes s m) = curr_task s \<and> locked_count (mutexes s m) = 1 \<and> a (Q_mutex m) \<noteq> []"

definition q_unlock :: "kst \<Rightarrow> mutex_id \<Rightarrow> queues \<Rightarrow> queues" where
  "q_unlock s m a =
    (if hands_over s a m
     then a(Q_mutex m := tl (a (Q_mutex m)), Q_ready := a Q_ready @ [hd (a (Q_mutex m))]) else a)"

lemma mutex_unlock_foreign: "mowner (mutexes s m) \<noteq> curr_task s \<Longrightarrow> mutex_unlock m s = s"
  by (simp add: mutex_unlock_def task_current_def protect_skip)

lemma mutex_unlock_nested:
  "mowner (mutexes s m) = curr_task s \<Longrightarrow> locked_count (mutexes s m) \<noteq> 1 \<Longrightarrow>
   mutex_unlock m s = upd_mutex m (\<lambda>x. x\<lparr>locked_count := locked_count x - 1\<rparr>) s"
  by (simp add: mutex_unlock_def task_current_def protect_upd_mutex)

lemma mutex_unlock_last:
  assumes "qrep T s a" and "a (Q_mutex m) = []"
    and "mowner (mutexes s m) = curr_task s" and "locked_count (mutexes s m) = 1"
  shows "mutex_unlock m s = upd_mutex m (\<lambda>x. x\<lparr>locked_count := 0, mowner := NULL\<rparr>) s"
proof -
  have "list_count (mwait_list (mutexes s m)) = 0"
    using qrep_count [OF assms(1), of "Q_mutex m"] assms(2) by simp
  with assms(3,4) show ?thesis
    by (simp add: mutex_unlock_def task_current_def upd_mutex_def cli_def)
qed

lemma mutex_unlock_hand_over:
  assumes "sched_pre T s a" and "hands_over s a m" and w: "a (Q_mutex m) = w # ws"
  shows "sched_inv T (mutex_unlock m s) (a(Q_mutex m := ws, Q_ready := a Q_ready @ [w]))"
    and "mowner (mutexes (mutex_unlock m s) m) = w"
    and "locked_count (mutexes (mutex_unlock m s) m) = 1"
proof -
  let ?s3 = "upd_mutex m (\<lambda>x. x\<lparr>mowner := NULL\<rparr>)
    (upd_mutex m (\<lambda>x. x\<lparr>locked_count := locked_count x - 1\<rparr>) (cli s))"
  have cnt: "list_count (mwait_list (mutexes s m)) \<noteq> 0"
    using qrep_count [OF sched_preD(2) [OF assms(1)], of "Q_mutex m"] w by simp
  obtain r l h where rem: "list_remove_first (mwait_list (mutexes s m)) (nodes s) = (r, l, h)"
    by (cases "list_remove_first (mwait_list (mutexes s m)) (nodes s)") auto
  let ?s4 = "upd_mutex m (\<lambda>x. x\<lparr>mwait_list := l\<rparr>) (?s3\<lparr>nodes := h\<rparr>)"
  have s3: "sched_pre T ?s3 a"
    using assms(1) by (intro sched_pre_upd_mutex) simp_all
  have rem3: "list_remove_first (list_of ?s3 (Q_mutex m)) (nodes ?s3) = (r, l, h)"
    using rem by simp
  note wake = wake_pre [OF s3 _ w rem3, of ?s4]
  have parent: "list_node_parent r off_wait_node = w" by (rule wake(1)) simp_all
  have ready: "sched_pre T (task_set_ready w ?s4) (a(Q_mutex m := ws, Q_ready := a Q_ready @ [w]))"
    by (rule wake(2)) simp_all
  let ?s6 = "upd_mutex m (\<lambda>x. x\<lparr>locked_count := 1, mowner := w\<rparr>) (task_set_ready w ?s4)"
  have eq: "mutex_unlock m s = task_dispatch (push_frame (F_leave (eflags s)) ?s6)"
    using assms(2) cnt rem parent by (simp add: mutex_unlock_def hands_over_def task_current_def Let_def)
  have "sched_pre T ?s6 (a(Q_mutex m := ws, Q_ready := a Q_ready @ [w]))"
    using ready by (rule sched_pre_upd_mutex) simp
  then show "sched_inv T (mutex_unlock m s) (a(Q_mutex m := ws, Q_ready := a Q_ready @ [w]))"
    unfolding eq by (simp add: task_dispatch_inv)
  show "mowner (mutexes (mutex_unlock m s) m) = w" and "locked_count (mutexes (mutex_unlock m s) m) = 1"
    unfolding eq by simp_all
qed

lemma mutex_unlock_refines:
  assumes "sched_inv T s a"
  shows "sched_inv T (mutex_unlock m s) (q_unlock s m a)"
    and "alock_of (mutex_unlock m s) (q_unlock s m a) m = a_unlock (curr_task s) (alock_of s a m)"
proof -
  note rep = sched_preD(2) [OF sched_invD(1) [OF assms]]
  consider "mowner (mutexes s m) \<noteq> curr_task s"
    | "mowner (mutexes s m) = curr_task s" "locked_count (mutexes s m) \<noteq> 1"
    | "mowner (mutexes s m) = curr_task s" "locked_count (mutexes s m) = 1" "a (Q_mutex m) = []"
    | w ws where "hands_over s a m" "a (Q_mutex m) = w # ws"
    unfolding hands_over_def by (metis list.exhaust)
  then have "sched_inv T (mutex_unlock m s) (q_unlock s m a) \<and>
    alock_of (mutex_unlock m s) (q_unlock s m a) m = a_unlock (curr_task s) (alock_of s a m)"
  proof cases
    case 1
    then show ?thesis using assms
      by (simp add: mutex_unlock_foreign q_unlock_def hands_over_def alock_of_def a_unlock_def)
  next
    case 2
    then show ?thesis using assms
      by (simp add: mutex_unlock_nested sched_inv_upd_mutex q_unlock_def hands_over_def alock_of_def a_unlock_def)
  next
    case 3
    then show ?thesis using assms mutex_unlock_last [OF rep 3(3,1,2)]
      by (simp add: sched_inv_upd_mutex q_unlock_def hands_over_def alock_of_def a_unlock_def)
  next
    case (4 w ws)
    with mutex_unlock_hand_over [OF sched_invD(1) [OF assms] 4] show ?thesis
      by (simp add: q_unlock_def alock_of_def a_unlock_def hands_over_def)
  qed
  then show "sched_inv T (mutex_unlock m s) (q_unlock s m a)"
    and "alock_of (mutex_unlock m s) (q_unlock s m a) m = a_unlock (curr_task s) (alock_of s a m)"
    by simp_all
qed

definition q_wait :: "kst \<Rightarrow> sem_id \<Rightarrow> queues \<Rightarrow> queues" where
  "q_wait s k a =
    (if scount (sems s k) > 0 then a
     else a(Q_ready := tl (a Q_ready), Q_sem k := a (Q_sem k) @ [curr_task s]))"

definition q_notify :: "sem_id \<Rightarrow> queues \<Rightarrow> queues" where
  "q_notify k a =
    (if a (Q_sem k) = [] then a
     else a(Q_sem k := tl (a (Q_sem k)), Q_ready := a Q_ready @ [hd (a (Q_sem k))]))"

lemma sem_wait_refines:
  assumes "sched_inv T s a" and "scount (sems s k) > 0 \<or> curr_task s \<noteq> idle_task s"
  shows "sched_inv T (sem_wait k s) (q_wait s k a)"
    and "asem_of (sem_wait k s) (q_wait s k a) k = a_wait (curr_task s) (asem_of s a k)"
proof -
  have "sched_inv T (sem_wait k s) (q_wait s k a) \<and>
    asem_of (sem_wait k s) (q_wait s k a) k = a_wait (curr_task s) (asem_of s a k)"
  proof (cases "scount (sems s k) > 0")
    case True
    then have "sem_wait k s = upd_sem k (\<lambda>x. x\<lparr>scount := scount x - 1\<rparr>) s"
      by (simp add: sem_wait_def protect_upd_sem)
    with True assms(1) show ?thesis
      by (simp add: sched_inv_upd_sem q_wait_def asem_of_def a_wait_def)
  next
    case False
    let ?s2 = "task_set_block (curr_task s) (cli s)"
    obtain l h where ins: "list_insert_last (swait_list (sems s k)) (wait_node (curr_task s)) (nodes ?s2) = (l, h)"
      by (cases "list_insert_last (swait_list (sems s k)) (wait_node (curr_task s)) (nodes ?s2)")
    let ?s3 = "upd_sem k (\<lambda>x. x\<lparr>swait_list := l\<rparr>) (?s2\<lparr>nodes := h\<rparr>)"
    have eq: "sem_wait k s = task_dispatch (push_frame (F_leave (eflags s)) ?s3)"
      using False ins by (simp add: sem_wait_def task_current_def Let_def)
    have "sched_pre T ?s3 (a(Q_ready := tl (a Q_ready), Q_sem k := a (Q_sem k) @ [curr_task s]))"
      using ins False assms(2) by (intro park_pre [OF assms(1), of "Q_sem k" l h]) simp_all
    with False show ?thesis
      unfolding eq by (simp add: q_wait_def task_dispatch_inv asem_of_def a_wait_def)
  qed
  then show "sched_inv T (sem_wait k s) (q_wait s k a)"
    and "asem_of (sem_wait k s) (q_wait s k a) k = a_wait (curr_task s) (asem_of s a k)"
    by simp_all
qed

lemma sem_notify_refines:
  assumes "sched_inv T s a"
  shows "sched_inv T (sem_notify k s) (q_notify k a)"
    and "asem_of (sem_notify k s) (q_notify k a) k = a_notify (asem_of s a k)"
proof -
  note pre = sched_invD(1) [OF assms]
  have cnt: "list_count (swait_list (sems s k)) = int (length (a (Q_sem k)))"
    using qrep_count [OF sched_preD(2) [OF pre], of "Q_sem k"] by simp
  have "sched_inv T (sem_notify k s) (q_notify k a) \<and>
    asem_of (sem_notify k s) (q_notify k a) k = a_notify (asem_of s a k)"
  proof (cases "a (Q_sem k)")
    case Nil
    then have "sem_notify k s = upd_sem k (\<lambda>x. x\<lparr>scount := scount x + 1\<rparr>) s"
      using cnt by (simp add: sem_notify_def protect_upd_sem)
    with Nil assms show ?thesis
      by (simp add: sched_inv_upd_sem q_notify_def asem_of_def a_notify_def)
  next
    case (Cons w ws)
    obtain r l h where rem: "list_remove_first (swait_list (sems s k)) (nodes s) = (r, l, h)"
      by (cases "list_remove_first (swait_list (sems s k)) (nodes s)") auto
    let ?s2 = "upd_sem k (\<lambda>x. x\<lparr>swait_list := l\<rparr>) ((cli s)\<lparr>nodes := h\<rparr>)"
    have rem': "list_remove_first (list_of (cli s) (Q_sem k)) (nodes (cli s)) = (r, l, h)"
      using rem by simp
    have pre': "sched_pre T (cli s) a" using pre by simp
    note wake = wake_pre [OF pre' _ Cons rem', of ?s2]
    have parent: "list_node_parent r off_wait_node = w" by (rule wake(1)) simp_all
    have ready: "sched_pre T (task_set_ready w ?s2) (a(Q_sem k := ws, Q_ready := a Q_ready @ [w]))"
      by (rule wake(2)) simp_all
    have eq: "sem_notify k s = task_dispatch (push_frame (F_leave (eflags s)) (task_set_ready w ?s2))"
      using cnt Cons rem parent by (simp add: sem_notify_def Let_def)
    show ?thesis
      unfolding eq using ready Cons by (simp add: q_notify_def task_dispatch_inv asem_of_def a_notify_def)
  qed
  then show "sched_inv T (sem_notify k s) (q_notify k a)"
    and "asem_of (sem_notify k s) (q_notify k a) k = a_notify (asem_of s a k)"
    by simp_all
qed

lemma sem_count_spec: "sem_count k s = (scount (sems s k), s)"
  by (simp add: sem_count_def protect_skip)

section \<open>Laws of the abstract objects\<close>

text \<open>A lock nobody holds has no waiters and no holder, and the holder of a lock does not wait for it.\<close>

definition alock_ok :: "alock \<Rightarrow> bool" where
  "alock_ok L \<longleftrightarrow> 0 \<le> depth L \<and> (depth L = 0 \<longrightarrow> lwaiters L = []) \<and>
    (depth L \<noteq> 0 \<longrightarrow> holder L \<notin> set (lwaiters L)) \<and> distinct (lwaiters L)"

lemma a_lock_ok: "alock_ok L \<Longrightarrow> t \<notin> set (lwaiters L) \<Longrightarrow> alock_ok (a_lock t L)"
  by (auto simp: alock_ok_def a_lock_def)

lemma a_unlock_ok: "alock_ok L \<Longrightarrow> depth L \<noteq> 0 \<Longrightarrow> alock_ok (a_unlock t L)"
  by (auto simp: alock_ok_def a_unlock_def split: list.splits)

text \<open>A critical section: locking and unlocking by the same task, uncontended, changes nothing.\<close>

lemma a_lock_unlock:
  "alock_ok L \<Longrightarrow> depth L \<noteq> 0 \<Longrightarrow> holder L = t \<Longrightarrow> a_unlock t (a_lock t L) = L"
  "alock_ok L \<Longrightarrow> depth L = 0 \<Longrightarrow> holder L = NULL \<Longrightarrow> a_unlock t (a_lock t L) = L"
  by (auto simp: alock_ok_def a_lock_def a_unlock_def)

text \<open>Releases in turn serve the waiters in their order of arrival.\<close>

definition release :: "alock \<Rightarrow> alock" where
  "release L = a_unlock (holder L) L"

lemma release_fifo:
  assumes "depth L = 1" and "i < length (lwaiters L)"
  shows "(release ^^ Suc i) L = \<lparr>holder = lwaiters L ! i, depth = 1, lwaiters = drop (Suc i) (lwaiters L)\<rparr>"
  using assms(2)
proof (induction i)
  case 0
  with assms(1) show ?case
    by (cases "lwaiters L") (simp_all add: release_def a_unlock_def)
next
  case (Suc i)
  then have "drop (Suc i) (lwaiters L) = lwaiters L ! Suc i # drop (Suc (Suc i)) (lwaiters L)"
    by (simp add: Cons_nth_drop_Suc)
  with Suc show ?case
    by (simp add: release_def a_unlock_def)
qed

text \<open>A semaphore with units available has nobody waiting.\<close>

definition asem_ok :: "asem \<Rightarrow> bool" where
  "asem_ok S \<longleftrightarrow> 0 \<le> avail S \<and> (0 < avail S \<longrightarrow> swaiters S = [])"

lemma a_wait_ok: "asem_ok S \<Longrightarrow> asem_ok (a_wait t S)"
  and a_notify_ok: "asem_ok S \<Longrightarrow> asem_ok (a_notify S)"
  by (auto simp: asem_ok_def a_wait_def a_notify_def split: list.splits)

text \<open>
  Units are conserved: the balance of available units and waiters goes down by one with every wait
  and up by one with every notification.
\<close>

definition balance :: "asem \<Rightarrow> int" where
  "balance S = avail S - int (length (swaiters S))"

lemma balance_wait: "balance (a_wait t S) = balance S - 1"
  and balance_notify: "balance (a_notify S) = balance S + 1"
  by (auto simp: balance_def a_wait_def a_notify_def split: list.splits)

end
