(* ===== verification/Sample_State.thy ===== *)
theory Sample_State
  imports Ipc
begin

text \<open>
  A concrete kernel state: six tasks, two of them ready, one asleep for one more tick, one
  waiting for a mutex that the running task holds, one waiting for a semaphore, and the idle
  task.  The theorems about the scheduler and the synchronisation objects are instantiated on it.
\<close>

abbreviation "idle0 \<equiv> (0x1000 :: addr)"
abbreviation "task1 \<equiv> (0x2000 :: addr)"
abbreviation "task2 \<equiv> (0x3000 :: addr)"
abbreviation "task3 \<equiv> (0x4000 :: addr)"
abbreviation "task4 \<equiv> (0x5000 :: addr)"
abbreviation "task5 \<equiv> (0x6000 :: addr)"

definition sample_tasks :: "addr set" where
  "sample_tasks = {idle0, task1, task2, task3, task4, task5}"

definition sample_tss :: tss_t where
  "sample_tss =
    \<lparr>tss_pre_link = 0, tss_esp0 = 0, tss_ss0 = 0x10, tss_esp1 = 0, tss_ss1 = 0, tss_esp2 = 0,
     tss_ss2 = 0, tss_cr3 = 0, tss_eip = 0, tss_eflags = 0x202, tss_eax = 0, tss_ecx = 0,
     tss_edx = 0, tss_ebx = 0, tss_esp = 0, tss_ebp = 0, tss_esi = 0, tss_edi = 0, tss_es = 0x10,
     tss_cs = 8, tss_ss = 0x10, tss_ds = 0x10, tss_fs = 0x10, tss_gs = 0x10, tss_ldt = 0,
     tss_iomap = 0\<rparr>"

definition sample_task :: "addr \<Rightarrow> task_t" where
  "sample_task t =
    \<lparr>tstate = TASK_CREATED, sleep_ticks = 0, time_ticks = 10, slice_ticks = 10, tss = sample_tss,
     tss_sel = uint (drop_bit 12 t + 2) * 8\<rparr>"

definition sample_gdt :: gdt_t where
  "sample_gdt i =
    (if 3 \<le> i \<and> i \<le> 8 then make_segment_desc (word_of_int (i - 2) * 0x1000 + off_tss) 104 0x89
     else make_segment_desc 0 0 0)"

definition empty_state :: kst where
  "empty_state =
    \<lparr>eflags = 0x202, tr = 0x18, cr0 = 1, cr3 = 0, cr4 = 0,
     gdtr = make_dtr 0 0, idtr = make_dtr 0 0, ports = (\<lambda>_. 0), outs = [],
     gdt_table = sample_gdt, idt_table = (\<lambda>_. gate_desc_set 0 0 0),
     curr_task = idle0, ready_list = list_init, task_list = list_init, sleep_list = list_init,
     first_task = task1, idle_task = idle0,
     nodes = (\<lambda>_. \<lparr>node_pre = NULL, node_next = NULL\<rparr>), tasks = sample_task,
     mutexes = (\<lambda>_. \<lparr>mowner = NULL, locked_count = 0, mwait_list = list_init\<rparr>),
     sems = (\<lambda>_. \<lparr>scount = 0, swait_list = list_init\<rparr>),
     kmem = (\<lambda>_. 0), sys_tick = 0, kstack = [], saved = (\<lambda>_. [])\<rparr>"

text \<open>Nobody is queued: the idle task runs.\<close>

lemma sample_space: "task_space sample_tasks"
  by (simp add: task_space_def sample_tasks_def sizeof_task_t_def)

lemma sample_tss_ok:
  assumes "gdt_table s = sample_gdt" and "\<And>t. tss_sel (tasks s t) = uint (drop_bit 12 t + 2) * 8"
  shows "tss_ok sample_tasks s"
  unfolding tss_ok_def sample_tasks_def
  by (simp add: assms tss_task_def tss_desc_def sample_gdt_def is_tss_desc_def seg_consts make_segment_desc_def [of _ 104 "0x89"] off_tss_def desc_base_def)

lemma empty_state_pre: "sched_pre sample_tasks empty_state (\<lambda>_. [])"
proof -
  have "qrep sample_tasks empty_state (\<lambda>_. [])"
    unfolding qrep_def
  proof (intro conjI allI)
    fix q
    show "dll (nodes empty_state) (list_of empty_state q) (map (node_of q) [])"
      by (cases q) (simp_all add: empty_state_def)
  qed simp_all
  moreover have "tss_ok sample_tasks empty_state"
    by (rule sample_tss_ok) (simp_all add: empty_state_def sample_task_def)
  moreover have "tr_ok empty_state"
    by (simp add: tr_ok_def empty_state_def tss_task_def tss_desc_def sample_gdt_def)
  ultimately show ?thesis
    unfolding sched_pre_def using sample_space
    by (simp add: off_kind_def empty_state_def sample_tasks_def)
qed

text \<open>Parking a task of its own on a wait list, as the blocking operations do.\<close>

definition add_mutex_waiter :: "mutex_id \<Rightarrow> addr \<Rightarrow> kst \<Rightarrow> kst" where
  "add_mutex_waiter m t s =
    (let (l, h) = list_insert_last (mwait_list (mutexes s m)) (wait_node t) (nodes s)
     in upd_mutex m (\<lambda>x. x\<lparr>mwait_list := l\<rparr>) (s\<lparr>nodes := h\<rparr>))"

definition add_sem_waiter :: "sem_id \<Rightarrow> addr \<Rightarrow> kst \<Rightarrow> kst" where
  "add_sem_waiter k t s =
    (let (l, h) = list_insert_last (swait_list (sems s k)) (wait_node t) (nodes s)
     in upd_sem k (\<lambda>x. x\<lparr>swait_list := l\<rparr>) (s\<lparr>nodes := h\<rparr>))"

lemma add_waiter_pre:
  assumes "sched_pre T s a" and q: "kind_of q = K_wait" and t: "t \<in> T" "t \<noteq> idle_task s"
    and off: "off_kind a K_run t" "off_kind a K_wait t"
    and ins: "list_insert_last (list_of s q) (wait_node t) (nodes s) = (l, h)"
    and s': "nodes s' = h" "list_of s' = (list_of s)(q := l)"
      "idle_task s' = idle_task s" "curr_task s' = curr_task s" "gdt_table s' = gdt_table s"
      "tr s' = tr s" "\<And>t. tss_sel (tasks s' t) = tss_sel (tasks s t)"
  shows "sched_pre T s' (a(q := a q @ [t]))"
proof -
  note inv = sched_preD [OF assms(1)]
  have rep: "qrep T s' (a(q := a q @ [t]))"
    by (rule qrep_insert [OF inv(1,2) t(1)]) (use q off ins s' in simp_all)
  have run: "off_kind (a(q := a q @ [t])) K_run u \<longleftrightarrow> off_kind a K_run u" for u
    using q by (cases q) (simp_all add: off_kind_run_iff)
  have wait: "off_kind (a(q := a q @ [t])) K_wait u \<longleftrightarrow> off_kind a K_wait u \<and> u \<noteq> t" for u
    using q unfolding off_kind_def by auto
  show ?thesis
  proof (rule sched_pre_change [OF assms(1) rep])
    show "off_kind (a(q := a q @ [t])) K_run u \<or> off_kind (a(q := a q @ [t])) K_wait u" for u
      using inv(7) [of u] off run wait by auto
  qed (use s' inv t run wait in simp_all)
qed

lemma add_mutex_waiter_pre:
  assumes "sched_pre T s a" "t \<in> T" "t \<noteq> idle_task s" "off_kind a K_run t" "off_kind a K_wait t"
  shows "sched_pre T (add_mutex_waiter m t s) (a(Q_mutex m := a (Q_mutex m) @ [t]))"
proof -
  obtain l h where ins: "list_insert_last (list_of s (Q_mutex m)) (wait_node t) (nodes s) = (l, h)"
    by (cases "list_insert_last (list_of s (Q_mutex m)) (wait_node t) (nodes s)")
  show ?thesis
    by (rule add_waiter_pre [OF assms(1) _ assms(2-5) ins])
      (use ins in \<open>simp_all add: add_mutex_waiter_def Let_def\<close>)
qed

lemma add_sem_waiter_pre:
  assumes "sched_pre T s a" "t \<in> T" "t \<noteq> idle_task s" "off_kind a K_run t" "off_kind a K_wait t"
  shows "sched_pre T (add_sem_waiter k t s) (a(Q_sem k := a (Q_sem k) @ [t]))"
proof -
  obtain l h where ins: "list_insert_last (list_of s (Q_sem k)) (wait_node t) (nodes s) = (l, h)"
    by (cases "list_insert_last (list_of s (Q_sem k)) (wait_node t) (nodes s)")
  show ?thesis
    by (rule add_waiter_pre [OF assms(1) _ assms(2-5) ins])
      (use ins in \<open>simp_all add: add_sem_waiter_def Let_def\<close>)
qed

abbreviation "mutex1 \<equiv> mutex_obj 10"
abbreviation "mutex2 \<equiv> mutex_obj 20"

definition sample_held :: kst where
  "sample_held =
    upd_mutex mutex1 (\<lambda>x. x\<lparr>mowner := task1, locked_count := 1\<rparr>)
      (upd_mutex mutex2 (\<lambda>x. x\<lparr>mowner := task2, locked_count := 1\<rparr>)
        (upd_sem 20 (\<lambda>x. x\<lparr>scount := 3\<rparr>) empty_state))"

definition sample_ready :: kst where
  "sample_ready = task_set_sleep task3 1 (task_set_ready task2 (task_set_ready task1 sample_held))"

definition sample_state :: kst where
  "sample_state =
    (add_sem_waiter 10 task5 (add_mutex_waiter mutex1 task4 sample_ready))\<lparr>curr_task := task1, tr := 0x20\<rparr>"

definition sample_queues :: queues where
  "sample_queues =
    (\<lambda>_. [])(Q_ready := [task1, task2], Q_sleep := [task3], Q_mutex mutex1 := [task4], Q_sem 10 := [task5])"

lemma sched_pre_run:
  assumes "sched_pre T s a" and "t \<in> T" and "tss_task s n = t"
  shows "sched_pre T (s\<lparr>curr_task := t, tr := n\<rparr>) a"
proof -
  note inv = sched_preD [OF assms(1)]
  have "qrep T (s\<lparr>curr_task := t, tr := n\<rparr>) a" using inv(2) by (rule qrep_cong) simp_all
  moreover have "tss_ok T (s\<lparr>curr_task := t, tr := n\<rparr>)" using inv(8) by (subst tss_ok_cong [of _ s]) simp_all
  moreover have "tr_ok (s\<lparr>curr_task := t, tr := n\<rparr>)"
    using assms(3) by (simp add: tr_ok_def tss_task_def tss_desc_def)
  ultimately show ?thesis using assms inv by (simp add: sched_pre_def)
qed

lemma sample_held_pre: "sched_pre sample_tasks sample_held (\<lambda>_. [])"
  unfolding sample_held_def
  by (intro sched_pre_upd_mutex sched_pre_upd_sem empty_state_pre) simp_all

lemma sample_held_idle [simp]: "idle_task sample_held = idle0"
  by (simp add: sample_held_def empty_state_def)

lemma sample_ready_pre:
  "sched_pre sample_tasks sample_ready ((\<lambda>_. [])(Q_ready := [task1, task2], Q_sleep := [task3]))"
proof -
  have 1: "sched_pre sample_tasks (task_set_ready task1 sample_held) ((\<lambda>_. [])(Q_ready := [task1]))"
    using task_set_ready_pre [OF sample_held_pre, of task1]
    by (simp add: sample_tasks_def off_kind_def a_ready_def)
  have 2: "sched_pre sample_tasks (task_set_ready task2 (task_set_ready task1 sample_held))
      ((\<lambda>_. [])(Q_ready := [task1, task2]))"
    using task_set_ready_pre [OF 1, of task2]
    by (simp add: sample_tasks_def off_kind_def a_ready_def)
  have "a_sleep task3 ((\<lambda>_. [])(Q_ready := [task1, task2])) =
      (\<lambda>_. [])(Q_ready := [task1, task2], Q_sleep := [task3])"
    by (simp add: a_sleep_def)
  with task_set_sleep_pre [OF 2, of task3 1] show ?thesis
    unfolding sample_ready_def
    by (simp add: sample_tasks_def off_kind_def)
qed

lemma sample_inv: "sched_inv sample_tasks sample_state sample_queues"
proof -
  have idle [simp]: "idle_task sample_ready = idle0" by (simp add: sample_ready_def)
  have 1: "sched_pre sample_tasks (add_mutex_waiter mutex1 task4 sample_ready)
      ((\<lambda>_. [])(Q_ready := [task1, task2], Q_sleep := [task3], Q_mutex mutex1 := [task4]))"
    using add_mutex_waiter_pre [OF sample_ready_pre, of task4 mutex1]
    by (simp add: sample_tasks_def off_kind_def)
  have idle1 [simp]: "idle_task (add_mutex_waiter mutex1 task4 sample_ready) = idle0"
    by (simp add: add_mutex_waiter_def Let_def split: prod.split)
  have 2: "sched_pre sample_tasks (add_sem_waiter 10 task5 (add_mutex_waiter mutex1 task4 sample_ready)) sample_queues"
    using add_sem_waiter_pre [OF 1, of task5 10]
    by (simp add: sample_tasks_def off_kind_def sample_queues_def)
  have gdt: "gdt_table (add_sem_waiter 10 task5 (add_mutex_waiter mutex1 task4 sample_ready)) = sample_gdt"
    by (simp add: add_sem_waiter_def add_mutex_waiter_def Let_def sample_ready_def sample_held_def
        empty_state_def split: prod.split)
  have "sched_pre sample_tasks sample_state sample_queues"
    unfolding sample_state_def
    by (rule sched_pre_run [OF 2])
      (simp_all add: sample_tasks_def tss_task_def tss_desc_def gdt sample_gdt_def)
  moreover have "idle_task sample_state = idle0"
    by (simp add: sample_state_def add_sem_waiter_def add_mutex_waiter_def Let_def split: prod.split)
  ultimately show ?thesis
    by (simp add: sched_inv_def a_next_def sample_queues_def) (simp add: sample_state_def)
qed

lemma sample_simps [simp]:
  "curr_task sample_state = task1" "idle_task sample_state = idle0"
  "mowner (mutexes sample_state mutex1) = task1" "locked_count (mutexes sample_state mutex1) = 1"
  "mowner (mutexes sample_state mutex2) = task2" "locked_count (mutexes sample_state mutex2) = 1"
  "locked_count (mutexes sample_state (mutex_obj 30)) = 0"
  "scount (sems sample_state 10) = 0" "scount (sems sample_state 20) = 3"
  by (simp_all add: sample_state_def add_sem_waiter_def add_mutex_waiter_def Let_def sample_ready_def
      sample_held_def empty_state_def split: prod.split)

lemma sample_context:
  "kstack sample_state = []" "saved sample_state = (\<lambda>_. [])" "eflags sample_state = 0x202"
  by (simp_all add: sample_state_def add_sem_waiter_def add_mutex_waiter_def Let_def sample_ready_def
      sample_held_def empty_state_def split: prod.split)

lemma sample_mem: "kmem sample_state = (\<lambda>_. 0)"
  by (simp add: sample_state_def add_sem_waiter_def add_mutex_waiter_def Let_def sample_ready_def
      sample_held_def empty_state_def split: prod.split)

lemma sample_task_fields:
  "sleep_ticks (tasks sample_state task3) = 1" "slice_ticks (tasks sample_state task1) = 10"
  "tss_eflags (tss (tasks sample_state t)) = 0x202"
  by (auto simp: sample_state_def add_sem_waiter_def add_mutex_waiter_def Let_def sample_ready_def
      sample_held_def empty_state_def task_set_sleep_def set_state_def sample_task_def sample_tss_def
      split: prod.split)

lemma sample_queues_simps [simp]:
  "sample_queues Q_ready = [task1, task2]" "sample_queues Q_sleep = [task3]"
  "sample_queues (Q_mutex mutex1) = [task4]" "sample_queues (Q_sem 10) = [task5]"
  "sample_queues (Q_mutex mutex2) = []" "sample_queues (Q_sem 20) = []"
  by (simp_all add: sample_queues_def)

end
