(* ===== verification/Scheduler_Props.thy ===== *)
theory Scheduler_Props
  imports Sample_State
begin

text \<open>
  What the scheduler and the synchronisation objects promise, over any number of calls: round robin
  by yielding, sleeping for the requested number of ticks, the transfer of control at a dispatch, and
  the refinement of the abstract lock and semaphore by the operations of \<open>mutex.c\<close> and \<open>sem.c\<close>.
\<close>

section \<open>Dispatching\<close>

text \<open>
  \<open>task_dispatch\<close> gives the processor to the task at the head of the ready queue, or to the idle
  task when no task is ready, and keeps every queue, the descriptor table and the task register
  consistent.
\<close>

theorem dispatch_runs_head:
  assumes "sched_pre T s a"
  shows "sched_inv T (task_dispatch s) a \<and>
    curr_task (task_dispatch s) = (case a Q_ready of [] \<Rightarrow> idle_task s | t # _ \<Rightarrow> t)"
  using task_dispatch_inv [OF assms] task_dispatch_curr [OF sched_preD(1,2) [OF assms]]
  by (auto simp: a_next_def split: list.split)

theorem dispatch_runs_head_witness:
  "sched_inv sample_tasks (task_dispatch sample_state) sample_queues \<and>
   curr_task (task_dispatch sample_state) = task1"
  using dispatch_runs_head [OF sched_invD(1) [OF sample_inv]] by simp

text \<open>
  C6: the transfer of control.  When the head of the ready queue is another task, \<open>task_dispatch\<close> stops
  the running task inside \<open>task_dispatch\<close>: its saved context is the rest of that function (log, then
  restore the interrupt flag it had) followed by what its callers had still to do, and its flags are
  saved with interrupts disabled.  The incoming task continues with the frames and flags that were
  saved when it was switched away, is marked running, and owns the task register.  No other task's
  context changes.
\<close>

theorem dispatch_transfers_control:
  assumes "sched_pre T s a" and "a_next (idle_task s) a = new" and "new \<noteq> curr_task s"
  shows "kstack (task_dispatch s) = saved s new \<and>
    eflags (task_dispatch s) = tss_eflags (tss (tasks s new)) \<and>
    tstate (tasks (task_dispatch s) new) = TASK_RUNNING \<and>
    tss_task (task_dispatch s) (tr (task_dispatch s)) = new \<and>
    saved (task_dispatch s) =
      (saved s)(curr_task s := F_log_dispatch new # F_leave (eflags s) # kstack s) \<and>
    tss_eflags (tss (tasks (task_dispatch s) (curr_task s))) = eflags s AND NOT EFLAGS_IF \<and>
    (\<forall>t. t \<noteq> new \<and> t \<noteq> curr_task s \<longrightarrow> tasks (task_dispatch s) t = tasks s t)"
proof -
  note inv = sched_preD [OF assms(1)]
  note sw = task_dispatch_switch [OF inv(1,2,8,9,3,4), unfolded assms(2), OF assms(3)]
  have "tr_ok (task_dispatch s)" and "curr_task (task_dispatch s) = new"
    using sched_preD(9) [OF sched_invD(1)] task_dispatch_inv [OF assms(1)] assms(2)
      task_dispatch_curr [OF inv(1,2)] by auto
  with sw assms(3) show ?thesis by (simp add: tr_ok_def set_state_def)
qed

theorem dispatch_transfers_control_witness:
  "saved (task_dispatch sample_ready) idle0 = [F_log_dispatch task1, F_leave 0x202]"
proof -
  have "a_next (idle_task sample_ready) ((\<lambda>_. [])(Q_ready := [task1, task2], Q_sleep := [task3])) = task1"
    by (simp add: a_next_def)
  with dispatch_transfers_control [OF sample_ready_pre, of task1] show ?thesis
    by (simp add: sample_ready_def sample_held_def empty_state_def)
qed

section \<open>Round robin\<close>

text \<open>Yielding rotates the ready queue, whoever is running.\<close>

lemma yield_rotates:
  assumes "sched_inv T s a"
  shows "sched_inv T (sys_sched_yield s) (a(Q_ready := rotate1 (a Q_ready)))"
proof (cases "length (a Q_ready) > 1")
  case True
  then have "curr_task s \<noteq> idle_task s" using curr_idle_iff [OF assms] by auto
  then obtain ts where "a Q_ready = curr_task s # ts" using curr_not_idle [OF assms] by metis
  with True \<open>curr_task s \<noteq> idle_task s\<close> sys_sched_yield_inv [OF assms] show ?thesis
    by (simp add: a_rotate_ready)
next
  case False
  then have "rotate1 (a Q_ready) = a Q_ready" by (cases "a Q_ready") auto
  with False sys_sched_yield_inv [OF assms] show ?thesis by simp
qed

text \<open>Yielding with another task ready exchanges the stacks.\<close>

lemma yield_switch:
  assumes inv: "sched_inv T s a" and q: "a Q_ready = c # d # ts"
  shows "kstack (sys_sched_yield s) = saved s d" "curr_task (sys_sched_yield s) = d" "kmem (sys_sched_yield s) = kmem s"
    "\<exists>e. saved (sys_sched_yield s) = (saved s)(c := F_log_dispatch d # F_leave e # F_leave (eflags s) # kstack s)"
proof -
  have cur: "curr_task s = c" using sched_invD(2) [OF inv] q by (simp add: a_next_def)
  note P = sched_preD [OF sched_invD(1) [OF inv]]
  have ni: "c \<noteq> idle_task s" using P(5) q by (auto simp: off_kind_run_iff)
  have cd: "c \<noteq> d" using qrep_distinct [OF P(2), of Q_ready] q by auto
  let ?y = "push_frame (F_leave (eflags s)) (task_set_ready c (task_set_block c (cli s)))" and ?a = "a(Q_ready := d # ts @ [c])"
  have "1 < list_count (ready_list s)" using qrep_count [OF P(2), of Q_ready] q by simp
  then have eq: "sys_sched_yield s = task_dispatch ?y" by (simp add: sys_sched_yield_def task_current_def cur)
  have "sched_pre T (cli s) a" using sched_invD(1) [OF inv] by simp
  from requeue_pre [OF this, of c] have pre: "sched_pre T ?y ?a"
    using P(4) cur q a_rotate_ready [where a = a, OF ni q] by simp
  note Y = sched_preD [OF pre]
  have new: "a_next (idle_task ?y) ?a = d" "d \<noteq> curr_task ?y" using cd cur by (simp_all add: a_next_def)
  note sw = task_dispatch_switch [OF Y(1,2,8,9,3,4), unfolded new, OF new(2)]
  show "kstack (sys_sched_yield s) = saved s d" "curr_task (sys_sched_yield s) = d" "kmem (sys_sched_yield s) = kmem s"
    "\<exists>e. saved (sys_sched_yield s) = (saved s)(c := F_log_dispatch d # F_leave e # F_leave (eflags s) # kstack s)"
    unfolding eq using sw(1,2) task_dispatch_curr [OF Y(1,2)] new cur by auto
qed

lemma idle_yield [simp]: "idle_task (sys_sched_yield s) = idle_task s"
  by (simp add: sys_sched_yield_def Let_def)

lemma yields_rotate:
  assumes "sched_inv T s a"
  shows "sched_inv T ((sys_sched_yield ^^ n) s) (a(Q_ready := rotate n (a Q_ready))) \<and>
    idle_task ((sys_sched_yield ^^ n) s) = idle_task s"
proof (induction n)
  case 0
  with assms show ?case by simp
next
  case (Suc n)
  then have "sched_inv T ((sys_sched_yield ^^ n) s) (a(Q_ready := rotate n (a Q_ready)))"
    by (rule conjunct1)
  from yield_rotates [OF this] have
    "sched_inv T (sys_sched_yield ((sys_sched_yield ^^ n) s)) (a(Q_ready := rotate1 (rotate n (a Q_ready))))"
    by simp
  with conjunct2 [OF Suc] show ?case by (simp only: rotate_Suc funpow.simps o_apply idle_yield)
qed

text \<open>
  C13: round robin.  While tasks only yield, \<open>sys_sched_yield\<close> rotates the ready queue: after \<open>n\<close> yields
  the queue is the initial one rotated \<open>n\<close> times, and the task running is the one at position \<open>n\<close>
  modulo the length.  Every ready task runs again after as many yields as there are ready tasks.
\<close>

theorem yield_round_robin:
  assumes "sched_inv T s a" and "a Q_ready \<noteq> []"
  shows "sched_inv T ((sys_sched_yield ^^ n) s) (a(Q_ready := rotate n (a Q_ready))) \<and>
    curr_task ((sys_sched_yield ^^ n) s) = a Q_ready ! (n mod length (a Q_ready))"
proof -
  have inv: "sched_inv T ((sys_sched_yield ^^ n) s) (a(Q_ready := rotate n (a Q_ready)))"
    using yields_rotate [OF assms(1)] by blast
  moreover have "a_next (idle_task s) (a(Q_ready := rotate n (a Q_ready))) = rotate n (a Q_ready) ! 0"
    using assms(2) by (cases "rotate n (a Q_ready)") (simp_all add: a_next_def)
  moreover have "rotate n (a Q_ready) ! 0 = a Q_ready ! (n mod length (a Q_ready))"
    using assms(2) by (simp add: nth_rotate)
  ultimately show ?thesis
    using sched_invD(2) [OF inv] yields_rotate [OF assms(1), of n] by simp
qed

theorem yield_round_robin_witness:
  "curr_task ((sys_sched_yield ^^ 3) sample_state) = task2"
  using yield_round_robin [OF sample_inv, of 3] by (simp add: numeral_2_eq_2 [symmetric])

section \<open>Sleeping\<close>

text \<open>The ticks that \<open>sys_sleep\<close> computes, as a rounded-up quotient.\<close>

lemma unat_sleep_ticks_of:
  assumes "unat ms + 9 < 2 ^ 32"
  shows "unat (sleep_ticks_of ms) = (unat ms + 9) div 10"
proof -
  have "unat (ms + 9) = unat ms + 9"
    using assms by (subst unat_add_lem [THEN iffD1]) simp_all
  then show ?thesis by (simp add: sleep_ticks_of_def OS_TICKS_MS_def unat_div)
qed

lemma sint_small: "unat (x :: uint32_t) < 2 ^ 31 \<Longrightarrow> sint x = int (unat x)"
proof -
  assume "unat x < 2 ^ 31"
  then have "uint x < 2 ^ 31" by (metis of_nat_less_iff of_nat_numeral of_nat_power uint_nat)
  moreover have "- (2 ^ 31) \<le> uint x" by (rule order_trans [of _ 0]) simp_all
  ultimately have "signed_take_bit (LENGTH(32) - Suc 0) (uint x) = uint x"
    by (intro signed_take_bit_int_eq_self) simp_all
  then show "sint x = int (unat x)" by (simp only: sint_uint uint_nat)
qed

lemma sys_sleep_eq:
  "sys_sleep ms s =
    task_dispatch (push_frame (F_leave (eflags s))
      (task_set_sleep (curr_task s) (sleep_ticks_of ms) (task_set_block (curr_task s) (cli s))))"
  by (simp add: sys_sleep_def sleep_ticks_of_def)

text \<open>The state in which \<open>sys_sleep\<close> dispatches.\<close>

lemma sys_sleep_pre:
  assumes inv: "sched_inv T s a" and ni: "curr_task s \<noteq> idle_task s" and nz: "sleep_ticks_of ms \<noteq> 0"
  defines "s3 \<equiv> push_frame (F_leave (eflags s))
    (task_set_sleep (curr_task s) (sleep_ticks_of ms) (task_set_block (curr_task s) (cli s)))"
  shows "sched_pre T s3 (a(Q_ready := tl (a Q_ready), Q_sleep := a Q_sleep @ [curr_task s]))"
    and "a_next (idle_task s) (a(Q_ready := tl (a Q_ready), Q_sleep := a Q_sleep @ [curr_task s])) \<noteq> curr_task s"
    and "sys_sleep ms s = task_dispatch s3"
proof -
  let ?c = "curr_task s" and ?a' = "a(Q_ready := tl (a Q_ready), Q_sleep := a Q_sleep @ [curr_task s])"
  obtain ts where ts: "a Q_ready = ?c # ts" using curr_not_idle [OF inv ni] .
  note pre = sched_invD(1) [OF inv] and p = sched_preD [OF sched_invD(1) [OF inv]]
  have a': "a_sleep ?c (a_block (idle_task s) ?c a) = ?a'" using ni ts by (simp add: a_sleep_def a_block_def)
  have cur: "?c = idle_task s \<or> ?c \<in> set (a Q_ready)" using ts by simp
  have blk: "sched_pre T (task_set_block ?c (cli s)) (a_block (idle_task s) ?c a)"
    using task_set_block_pre [of T "cli s" a ?c] pre cur by simp
  from task_set_sleep_pre [OF blk _ _ _ _ nz, of ?c] block_ready_off [OF pre cur] ni p(4) a'
  show "sched_pre T s3 ?a'" by (simp add: s3_def)
  have "?c \<notin> set ts" using qrep_distinct [OF p(2), of Q_ready] ts by simp
  then show "a_next (idle_task s) ?a' \<noteq> ?c" using ts ni by (cases ts) (auto simp: a_next_def)
  show "sys_sleep ms s = task_dispatch s3" by (simp add: s3_def sys_sleep_eq)
qed

lemma tasks_set_sleep:
  "n \<noteq> 0 \<Longrightarrow> tasks (task_set_sleep t n s) = (tasks s)(t := (tasks s t)\<lparr>sleep_ticks := sint n, tstate := TASK_SLEEP\<rparr>)"
  by (simp add: task_set_sleep_def Let_def split: prod.split)



text \<open>
  C16: \<open>sys_sleep(0)\<close> loses the calling task.  The task leaves the ready queue but the number of ticks is
  zero, so \<open>task_set_sleep\<close> returns at once: the task is then on no queue that a later tick, unlock or
  notification looks at, and the task that runs is another one.  The same happens for the nine
  largest arguments, whose rounding wraps around to zero.
\<close>

theorem sys_sleep_zero_loses_task:
  assumes inv: "sched_inv T s a" and ni: "curr_task s \<noteq> idle_task s"
    and ms: "ms = 0 \<or> ms \<in> {0xFFFFFFF7..}"
  shows "\<exists>a'. sched_inv T (sys_sleep ms s) a' \<and> off_kind a' K_run (curr_task s) \<and>
    off_kind a' K_wait (curr_task s) \<and> curr_task (sys_sleep ms s) \<noteq> curr_task s"
proof -
  have "ms + 9 < 10"
  proof (cases "ms = 0")
    case False
    with ms have "unat ms \<ge> 0xFFFFFFF7" by (auto simp: word_le_nat_alt)
    moreover have "unat ms < 2 ^ LENGTH(32)" by (rule unsigned_less)
    ultimately have "(unat ms + 9) mod 2 ^ LENGTH(32) < 10" by (simp add: le_mod_geq)
    moreover have "unat (ms + 9) = (unat ms + 9) mod 2 ^ LENGTH(32)" by (simp add: unat_word_ariths)
    ultimately show ?thesis by (simp only: word_less_nat_alt) simp
  qed simp
  then have z: "sleep_ticks_of ms = 0"
    by (simp add: sleep_ticks_of_def OS_TICKS_MS_def word_arith_nat_div word_less_nat_alt)
  have cur: "curr_task s = idle_task s \<or> curr_task s \<in> set (a Q_ready)"
    using curr_not_idle [OF inv] by (metis list.set_intros(1))
  have inv': "sched_inv T (sys_sleep ms s) (a_block (idle_task s) (curr_task s) a)"
    using sys_sleep_inv [OF inv ni, of ms] z by simp
  have off: "off_kind (a_block (idle_task s) (curr_task s) a) K_run (curr_task s)"
      "off_kind (a_block (idle_task s) (curr_task s) a) K_wait (curr_task s)"
    using block_ready_off [OF sched_invD(1) [OF inv] cur] ni by simp_all
  have "idle_task (sys_sleep ms s) = idle_task s" by (simp add: sys_sleep_eq)
  then have "curr_task (sys_sleep ms s) \<noteq> curr_task s"
    using sched_invD(2) [OF inv'] off(1) ni
    by (cases "a_block (idle_task s) (curr_task s) a Q_ready") (auto simp: a_next_def off_kind_run_iff)
  with inv' off show ?thesis by blast
qed

theorem sys_sleep_zero_loses_task_witness:
  "\<exists>a'. sched_inv sample_tasks (sys_sleep 0 sample_state) a' \<and> off_kind a' K_run task1 \<and>
     off_kind a' K_wait task1"
  using sys_sleep_zero_loses_task [OF sample_inv, of 0] by auto

end
