(* ===== verification/Ipc_Props.thy ===== *)
theory Ipc_Props
  imports Sample_State
begin

text \<open>
  The operations of \<open>mutex.c\<close> and \<open>sem.c\<close> implement the abstract lock and the abstract semaphore, on
  every branch, and keep the objects' own invariants.
\<close>

section \<open>Frame\<close>

lemma alock_of_other:
  "m' \<noteq> m \<Longrightarrow> mutexes s' m' = mutexes s m' \<Longrightarrow> a' (Q_mutex m') = a (Q_mutex m') \<Longrightarrow>
   alock_of s' a' m' = alock_of s a m'"
  by (simp add: alock_of_def)

lemma mutex_lock_other: "m' \<noteq> m \<Longrightarrow> mutexes (mutex_lock m s) m' = mutexes s m'"
  by (simp add: mutex_lock_def Let_def split: prod.split)

lemma mutex_lock_uncontended:
  "\<not> contended s m \<Longrightarrow> curr_task (mutex_lock m s) = curr_task s \<and>
     kstack (mutex_lock m s) = kstack s \<and> eflags (mutex_lock m s) = eflags s"
  by (cases "locked_count (mutexes s m) = 0")
    (simp_all add: mutex_lock_free mutex_lock_again contended_def)

lemma mutex_unlock_other: "m' \<noteq> m \<Longrightarrow> mutexes (mutex_unlock m s) m' = mutexes s m'"
  by (simp add: mutex_unlock_def Let_def split: prod.split)

lemma curr_not_waiting:
  assumes "sched_inv T s a"
  shows "off_kind a K_wait (curr_task s)"
proof (cases "curr_task s = idle_task s")
  case True
  then show ?thesis using sched_preD(6) [OF sched_invD(1) [OF assms]] by simp
next
  case False
  then obtain ts where "a Q_ready = curr_task s # ts" using curr_not_idle [OF assms] by metis
  then show ?thesis
    using sched_preD(7) [OF sched_invD(1) [OF assms], of "curr_task s"] by (auto simp: off_kind_run_iff)
qed

lemma curr_not_null:
  assumes "sched_inv T s a"
  shows "curr_task s \<noteq> NULL"
  using sched_preD(1,4) [OF sched_invD(1) [OF assms]] by (auto simp: task_space_def)

section \<open>Mutexes\<close>

text \<open>A well-formed mutex: the abstract lock is, and a free mutex has no owner.\<close>

definition mutex_ok :: "kst \<Rightarrow> queues \<Rightarrow> mutex_id \<Rightarrow> bool" where
  "mutex_ok s a m \<longleftrightarrow> alock_ok (alock_of s a m) \<and>
    (locked_count (mutexes s m) = 0 \<longrightarrow> mowner (mutexes s m) = NULL)"

lemma mutex_ok_cong:
  "mutexes s' m = mutexes s m \<Longrightarrow> a' (Q_mutex m) = a (Q_mutex m) \<Longrightarrow> mutex_ok s' a' m = mutex_ok s a m"
  by (simp add: mutex_ok_def alock_of_def)

text \<open>
  C7: \<open>mutex_lock\<close> implements the abstract reentrant lock.  A free mutex becomes the caller's, the owner
  enters once more, and in both cases the call returns at once in the same task with the interrupt
  flag as before; otherwise the caller leaves the ready queue, joins the waiters at the end and the
  next ready task runs.  Other mutexes are untouched.
\<close>

theorem mutex_lock_implements_lock:
  assumes "sched_inv T s a" and "contended s m \<longrightarrow> curr_task s \<noteq> idle_task s"
  shows "sched_inv T (mutex_lock m s) (q_lock s m a) \<and>
    alock_of (mutex_lock m s) (q_lock s m a) m = a_lock (curr_task s) (alock_of s a m) \<and>
    (\<forall>m'. m' \<noteq> m \<longrightarrow> alock_of (mutex_lock m s) (q_lock s m a) m' = alock_of s a m') \<and>
    (\<not> contended s m \<longrightarrow> curr_task (mutex_lock m s) = curr_task s \<and>
       kstack (mutex_lock m s) = kstack s \<and> eflags (mutex_lock m s) = eflags s)"
proof (intro conjI allI impI)
  show "alock_of (mutex_lock m s) (q_lock s m a) m' = alock_of s a m'" if "m' \<noteq> m" for m'
    using that by (intro alock_of_other [OF that]) (simp_all add: mutex_lock_other q_lock_def)
qed (use mutex_lock_refines [OF assms] mutex_lock_uncontended [of s m] in auto)

theorem mutex_lock_implements_lock_witness:
  "alock_of (mutex_lock mutex2 sample_state) (q_lock sample_state mutex2 sample_queues) mutex2 =
     \<lparr>holder = task2, depth = 1, lwaiters = [task1]\<rparr> \<and>
   curr_task (mutex_lock mutex1 sample_state) = task1"
  using mutex_lock_implements_lock [OF sample_inv, of mutex2]
    mutex_lock_implements_lock [OF sample_inv, of mutex1]
  by (simp add: a_lock_def alock_of_def contended_def)

text \<open>
  C8: \<open>mutex_unlock\<close> implements the abstract release.  A task that is not the owner changes nothing,
  an inner release only counts down, and the last release frees the mutex or hands it directly to the
  first waiter, which becomes ready and owns the mutex with count one before it runs.
\<close>

theorem mutex_unlock_implements_release:
  assumes "sched_inv T s a"
  shows "sched_inv T (mutex_unlock m s) (q_unlock s m a) \<and>
    alock_of (mutex_unlock m s) (q_unlock s m a) m = a_unlock (curr_task s) (alock_of s a m) \<and>
    (\<forall>m'. m' \<noteq> m \<longrightarrow> alock_of (mutex_unlock m s) (q_unlock s m a) m' = alock_of s a m') \<and>
    (mowner (mutexes s m) \<noteq> curr_task s \<longrightarrow> mutex_unlock m s = s)"
proof (intro conjI allI impI)
  show "alock_of (mutex_unlock m s) (q_unlock s m a) m' = alock_of s a m'" if "m' \<noteq> m" for m'
    using that by (intro alock_of_other [OF that]) (simp_all add: mutex_unlock_other q_unlock_def)
qed (use mutex_unlock_refines [OF assms] mutex_unlock_foreign in auto)

theorem mutex_unlock_implements_release_witness:
  "alock_of (mutex_unlock mutex1 sample_state) (q_unlock sample_state mutex1 sample_queues) mutex1 =
     \<lparr>holder = task4, depth = 1, lwaiters = []\<rparr> \<and> mutex_unlock mutex2 sample_state = sample_state"
  using mutex_unlock_implements_release [OF sample_inv, of mutex1]
    mutex_unlock_implements_release [OF sample_inv, of mutex2]
  by (simp add: a_unlock_def alock_of_def)

lemma mutex_lock_ok:
  assumes "sched_inv T s a" and "contended s m \<longrightarrow> curr_task s \<noteq> idle_task s" and "mutex_ok s a m'"
  shows "mutex_ok (mutex_lock m s) (q_lock s m a) m'"
proof (cases "m' = m")
  case True
  have "curr_task s \<notin> set (lwaiters (alock_of s a m))"
    using curr_not_waiting [OF assms(1)] by (simp add: alock_of_def off_kind_wait_iff)
  then have "alock_ok (a_lock (curr_task s) (alock_of s a m))"
    using assms(3) True by (intro a_lock_ok) (simp_all add: mutex_ok_def)
  moreover have "depth (a_lock (curr_task s) (alock_of s a m)) \<noteq> 0"
    using assms(3) True by (auto simp: mutex_ok_def alock_ok_def a_lock_def)
  moreover have "depth (alock_of (mutex_lock m s) (q_lock s m a) m) = locked_count (mutexes (mutex_lock m s) m)"
    by (simp add: alock_of_def)
  ultimately show ?thesis
    using True mutex_lock_refines(2) [OF assms(1,2)] by (simp add: mutex_ok_def)
next
  case False
  with assms(3) show ?thesis by (subst mutex_ok_cong [of _ _ s _ a]) (simp_all add: mutex_lock_other q_lock_def)
qed

lemma mutex_unlock_ok:
  assumes "sched_inv T s a" and "mutex_ok s a m'"
  shows "mutex_ok (mutex_unlock m s) (q_unlock s m a) m'"
proof (cases "m' = m")
  case True
  show ?thesis
  proof (cases "mowner (mutexes s m) = curr_task s")
    case own: True
    then have nz: "locked_count (mutexes s m) \<noteq> 0"
      using curr_not_null [OF assms(1)] assms(2) True by (auto simp: mutex_ok_def)
    then have "alock_ok (a_unlock (curr_task s) (alock_of s a m))"
      using assms(2) True by (intro a_unlock_ok) (simp_all add: mutex_ok_def alock_of_def)
    moreover have "depth (a_unlock (curr_task s) (alock_of s a m)) = 0 \<Longrightarrow>
        holder (a_unlock (curr_task s) (alock_of s a m)) = NULL"
      using own by (auto simp: a_unlock_def alock_of_def split: list.splits if_splits)
    ultimately show ?thesis
      using True mutex_unlock_refines(2) [OF assms(1), of m, symmetric]
      by (simp add: mutex_ok_def) (simp add: alock_of_def)
  next
    case False
    with True assms(2) show ?thesis
      by (simp add: mutex_unlock_foreign q_unlock_def hands_over_def)
  qed
next
  case False
  with assms(2) show ?thesis by (subst mutex_ok_cong [of _ _ s _ a]) (simp_all add: mutex_unlock_other q_unlock_def)
qed

text \<open>
  A nested critical section.  When the running task locks a mutex it can get at once and then
  unlocks it, the mutex, the queues and the running task are as before.
\<close>

theorem mutex_lock_unlock_restores:
  assumes inv: "sched_inv T s a" and ok: "mutex_ok s a m" and free: "\<not> contended s m"
  shows "mutex_unlock m (mutex_lock m s) = s"
proof -
  have nc: "locked_count (mutexes s m) = 0 \<or> mowner (mutexes s m) = curr_task s"
    using free by (auto simp: contended_def)
  show ?thesis
  proof (cases "locked_count (mutexes s m) = 0")
    case True
    let ?s1 = "upd_mutex m (\<lambda>x. x\<lparr>locked_count := locked_count x + 1, mowner := curr_task s\<rparr>) s"
    have empty: "a (Q_mutex m) = []" and null: "mowner (mutexes s m) = NULL"
      using ok True by (simp_all add: mutex_ok_def alock_ok_def alock_of_def)
    have "sched_inv T ?s1 a" using inv by (rule sched_inv_upd_mutex) simp
    then have "qrep T ?s1 a" by (rule sched_preD(2) [OF sched_invD(1)])
    from mutex_unlock_last [OF this empty]
    have "mutex_unlock m ?s1 = upd_mutex m (\<lambda>x. x\<lparr>locked_count := 0, mowner := NULL\<rparr>) ?s1"
      using True by simp
    also have "\<dots> = s"
    proof -
      have "(mutexes s m)\<lparr>locked_count := 0, mowner := NULL\<rparr> = mutexes s m" using True null by simp
      then show ?thesis by (simp add: upd_mutex_def)
    qed
    finally show ?thesis using True by (simp add: mutex_lock_free)
  next
    case False
    then have "0 < locked_count (mutexes s m)"
      using ok by (simp add: mutex_ok_def alock_ok_def alock_of_def)
    with False nc show ?thesis
      by (simp add: mutex_lock_again mutex_unlock_nested) (simp add: upd_mutex_def)
  qed
qed

theorem mutex_lock_unlock_restores_witness:
  "mutex_unlock mutex1 (mutex_lock mutex1 sample_state) = sample_state"
  by (rule mutex_lock_unlock_restores [OF sample_inv])
    (simp_all add: contended_def mutex_ok_def alock_of_def alock_ok_def)

section \<open>Semaphores\<close>

lemma sem_wait_other: "k' \<noteq> k \<Longrightarrow> sems (sem_wait k s) k' = sems s k'"
  by (simp add: sem_wait_def Let_def split: prod.split)

lemma sem_notify_other: "k' \<noteq> k \<Longrightarrow> sems (sem_notify k s) k' = sems s k'"
  by (simp add: sem_notify_def Let_def split: prod.split)

text \<open>
  C9: \<open>sem_wait\<close> implements the abstract wait: with units available it takes one and returns; otherwise
  the caller is parked at the end of the wait list and the next ready task runs.  The balance of units
  minus waiters goes down by exactly one, and units and waiters never coexist.
\<close>

theorem sem_wait_implements_wait:
  assumes "sched_inv T s a" and "scount (sems s k) > 0 \<or> curr_task s \<noteq> idle_task s"
    and "asem_ok (asem_of s a k)"
  shows "sched_inv T (sem_wait k s) (q_wait s k a) \<and>
    asem_of (sem_wait k s) (q_wait s k a) k = a_wait (curr_task s) (asem_of s a k) \<and>
    balance (asem_of (sem_wait k s) (q_wait s k a) k) = balance (asem_of s a k) - 1 \<and>
    asem_ok (asem_of (sem_wait k s) (q_wait s k a) k) \<and>
    (scount (sems s k) = 0 \<longrightarrow> off_kind (q_wait s k a) K_run (curr_task s))"
proof (intro conjI impI)
  assume "scount (sems s k) = 0"
  with assms(2) have "curr_task s \<noteq> idle_task s" by simp
  then obtain ts where ts: "a Q_ready = curr_task s # ts" using curr_not_idle [OF assms(1)] by metis
  note rep = sched_preD(2) [OF sched_invD(1) [OF assms(1)]]
  from ts qrep_distinct [OF rep, of Q_ready] qrep_disjoint [OF rep, of Q_ready Q_sleep "curr_task s"]
  show "off_kind (q_wait s k a) K_run (curr_task s)"
    using \<open>scount (sems s k) = 0\<close> by (simp add: q_wait_def off_kind_run_iff)
qed (use sem_wait_refines [OF assms(1,2)] in \<open>simp_all add: balance_wait a_wait_ok [OF assms(3)]\<close>)

theorem sem_wait_implements_wait_witness:
  "asem_of (sem_wait 10 sample_state) (q_wait sample_state 10 sample_queues) 10 =
     \<lparr>avail = 0, swaiters = [task5, task1]\<rparr> \<and>
   asem_of (sem_wait 20 sample_state) (q_wait sample_state 20 sample_queues) 20 =
     \<lparr>avail = 2, swaiters = []\<rparr>"
  using sem_wait_implements_wait [OF sample_inv, of 10] sem_wait_implements_wait [OF sample_inv, of 20]
  by (simp add: asem_of_def asem_ok_def a_wait_def)

text \<open>
  C10: \<open>sem_notify\<close> implements the abstract notification: the first waiter becomes ready without the
  count changing, or, with nobody waiting, the count goes up by one.  The balance of units minus
  waiters goes up by exactly one, so no notification is lost.
\<close>

theorem sem_notify_implements_notify:
  assumes "sched_inv T s a" and "asem_ok (asem_of s a k)"
  shows "sched_inv T (sem_notify k s) (q_notify k a) \<and>
    asem_of (sem_notify k s) (q_notify k a) k = a_notify (asem_of s a k) \<and>
    balance (asem_of (sem_notify k s) (q_notify k a) k) = balance (asem_of s a k) + 1 \<and>
    asem_ok (asem_of (sem_notify k s) (q_notify k a) k) \<and>
    (a (Q_sem k) \<noteq> [] \<longrightarrow> hd (a (Q_sem k)) \<in> set (q_notify k a Q_ready))"
  using sem_notify_refines [OF assms(1)]
  by (simp add: balance_notify a_notify_ok [OF assms(2)] q_notify_def)

theorem sem_notify_implements_notify_witness:
  "asem_of (sem_notify 10 sample_state) (q_notify 10 sample_queues) 10 = \<lparr>avail = 0, swaiters = []\<rparr> \<and>
   q_notify 10 sample_queues Q_ready = [task1, task2, task5]"
  using sem_notify_implements_notify [OF sample_inv, of 10]
  by (simp add: asem_of_def asem_ok_def a_notify_def q_notify_def)

text \<open>The queues after \<open>n\<close> notifications: the first \<open>n\<close> waiters have moved to the end of the ready queue.\<close>

definition notified :: "sem_id \<Rightarrow> nat \<Rightarrow> queues \<Rightarrow> queues" where
  "notified k n a = a(Q_sem k := drop n (a (Q_sem k)), Q_ready := a Q_ready @ take n (a (Q_sem k)))"

lemma notified_0 [simp]: "notified k 0 a = a"
  by (simp add: notified_def)

lemma q_notify_notified: "q_notify k (notified k n a) = notified k (Suc n) a"
proof (cases "n < length (a (Q_sem k))")
  case True
  then show ?thesis
    by (simp add: q_notify_def notified_def hd_drop_conv_nth take_Suc_conv_app_nth drop_Suc tl_drop fun_upd_twist)
qed (simp add: q_notify_def notified_def)

text \<open>
  C11: a semaphore is fair.  However often it is notified, the waiters become ready in the order in which
  they began to wait, one for each notification: after \<open>n\<close> notifications the first \<open>n\<close> of them stand at the
  end of the ready queue in that order, the others still wait, and every notification that found no
  waiter has added one unit.
\<close>

theorem sem_notify_wakes_in_order:
  assumes "sched_inv T s a"
  shows "sched_inv T ((sem_notify k ^^ n) s) (notified k n a) \<and>
    scount (sems ((sem_notify k ^^ n) s) k) = scount (sems s k) + int (n - length (a (Q_sem k)))"
proof (induction n)
  case (Suc n)
  note sem = sem_notify_refines [OF conjunct1 [OF Suc], of k, unfolded q_notify_notified]
  let ?q = "a (Q_sem k)"
  have "scount (sems (sem_notify k ((sem_notify k ^^ n) s)) k) =
      scount (sems ((sem_notify k ^^ n) s) k) + (if drop n ?q = [] then 1 else 0)"
    using arg_cong [OF sem(2), of avail] by (simp add: asem_of_def a_notify_def notified_def split: list.splits)
  also have "\<dots> = scount (sems s k) + int (Suc n - length ?q)" using conjunct2 [OF Suc] by auto
  finally show ?case using sem(1) by simp
qed (simp add: assms)

theorem sem_notify_wakes_in_order_witness:
  "sched_inv sample_tasks ((sem_notify 10 ^^ 3) sample_state)
     (sample_queues(Q_sem 10 := [], Q_ready := [task1, task2, task5])) \<and>
   scount (sems ((sem_notify 10 ^^ 3) sample_state) 10) = 2"
  using sem_notify_wakes_in_order [OF sample_inv, where k = 10 and n = 3] by (simp add: notified_def)

end
