(* ===== verification/Klib_Props.thy ===== *)
theory Klib_Props
  imports Klib
begin

text \<open>
  What the routines of \<open>klib.c\<close> guarantee on byte memory: the text that the formatter produces is
  specified independently of memory by \<open>fmt_text\<close>, and the formatter is shown to write it; the string
  and memory routines are characterised with everything they leave alone.
\<close>

section \<open>The text of a formatted message\<close>

text \<open>A variable argument as the reader of the message sees it.\<close>

datatype sarg = SInt int | SStr "uint8_t list"

fun conv_text :: "uint8_t \<Rightarrow> sarg list \<Rightarrow> (uint8_t list \<times> sarg list) option" where
  "conv_text ch args =
    (if ch = of_char CHR ''s'' then
       case args of SStr xs # rest \<Rightarrow> Some (xs, rest) | _ \<Rightarrow> None
     else if ch = of_char CHR ''d'' then
       case args of SInt n # rest \<Rightarrow> Some (itoa_text n 10, rest) | _ \<Rightarrow> None
     else if ch = of_char CHR ''c'' then
       case args of SInt n # rest \<Rightarrow> Some ([word_of_int n], rest) | _ \<Rightarrow> None
     else if ch = of_char CHR ''x'' then
       case args of SInt n # rest \<Rightarrow> Some (itoa_text n 16, rest) | _ \<Rightarrow> None
     else Some ([], args))"

declare conv_text.simps [simp del]

fun fmt_text :: "fmt_state \<Rightarrow> uint8_t list \<Rightarrow> sarg list \<Rightarrow> uint8_t list option" where
  "fmt_text st [] args = Some []"
| "fmt_text NORMAL (ch # fmt) args =
    (if ch = of_char CHR ''%'' then fmt_text READ_FMT fmt args
     else map_option (Cons ch) (fmt_text NORMAL fmt args))"
| "fmt_text READ_FMT (ch # fmt) args =
    Option.bind (conv_text ch args) (\<lambda>(t, rest). map_option ((@) t) (fmt_text NORMAL fmt rest))"

text \<open>The argument in memory denotes the argument of the message, outside the region \<open>R\<close>.\<close>

fun arg_is :: "mem \<Rightarrow> addr set \<Rightarrow> va \<Rightarrow> sarg \<Rightarrow> bool" where
  "arg_is m R (VInt n) (SInt k) \<longleftrightarrow> n = k"
| "arg_is m R (VPtr p) (SStr xs) \<longleftrightarrow>
    p \<noteq> NULL \<and> cstring m p xs \<and> span p (Suc (length xs)) \<inter> R = {}"
| "arg_is m R _ _ \<longleftrightarrow> False"

lemma arg_is_change:
  assumes "arg_is m R a b" and "\<And>x. x \<notin> R \<Longrightarrow> m' x = m x" and "R' \<subseteq> R"
  shows "arg_is m' R' a b"
proof (cases "(m, R, a, b)" rule: arg_is.cases)
  case (2 m0 R0 p xs)
  with assms(1) have str: "cstring m p xs" and dis: "span p (Suc (length xs)) \<inter> R = {}" by simp_all
  have "bytes_at m' p (xs @ [0]) = bytes_at m p (xs @ [0])"
    using dis assms(2) by (intro bytes_at_cong) auto
  with 2 assms(1,3) str dis show ?thesis by (auto simp: cstring_def)
qed (use assms(1) in auto)

lemma args_change:
  assumes "list_all2 (arg_is m R) as bs" and "\<And>x. x \<notin> R \<Longrightarrow> m' x = m x" and "R' \<subseteq> R"
  shows "list_all2 (arg_is m' R') as bs"
  using assms(1) by (rule list_all2_mono) (rule arg_is_change [OF _ assms(2,3)])

text \<open>What one step has written: \<open>u\<close> at \<open>p\<close>, possibly a zero after it, and nothing else.\<close>

definition written :: "addr \<Rightarrow> uint8_t list \<Rightarrow> mem \<Rightarrow> mem \<Rightarrow> bool" where
  "written p u m m' \<longleftrightarrow> bytes_at m' p u \<and>
    (\<forall>a. a \<notin> span p (Suc (length u)) \<longrightarrow> m' a = m a) \<and>
    (m' (p + of_nat (length u)) = m (p + of_nat (length u)) \<or> m' (p + of_nat (length u)) = 0)"

lemma written_write: "length u < 2 ^ 32 \<Longrightarrow> written p u m (write_bytes p u m)"
  using after_span [of "length u" p] span_mono [of "length u" "Suc (length u)" p]
  by (auto simp: written_def bytes_at_write intro!: write_bytes_other simp del: span.simps)

lemma written_write_zero: "length u < 2 ^ 32 \<Longrightarrow> written p u m (write_bytes p (u @ [0]) m)"
  using bytes_at_write [of "u @ [0]" p m]
  by (auto simp: written_def bytes_at_append write_bytes_other)

lemma written_append:
  assumes "written p u m m1" and "written (p + of_nat (length u)) t m1 m2" and "length (u @ t) < 2 ^ 32"
  shows "written p (u @ t) m m2"
proof -
  let ?q = "p + of_nat (length u)"
  have sub: "span p (Suc (length (u @ t))) = span p (length u) \<union> span ?q (Suc (length t))"
    using span_append [of p "length u" "Suc (length t)"] by simp
  have dis: "span p (length u) \<inter> span ?q (Suc (length t)) = {}"
    using assms(3) by (intro span_adjacent) simp
  have "m2 a = m1 a" if "a \<in> span p (length u)" for a
    using assms(2) dis that unfolding written_def by blast
  then have "bytes_at m2 p u = bytes_at m1 p u" by (rule bytes_at_cong)
  then have bytes: "bytes_at m2 p (u @ t)" using assms(1,2) by (simp add: written_def bytes_at_append)
  have frame: "m2 a = m a" if "a \<notin> span p (Suc (length (u @ t)))" for a
  proof -
    have "a \<notin> span ?q (Suc (length t))" and "a \<notin> span p (length u)" and "a \<noteq> ?q"
      using that sub by auto
    then have "a \<notin> span p (Suc (length u))" by (simp only: span_snoc) simp
    with \<open>a \<notin> span ?q (Suc (length t))\<close> assms(1,2) show ?thesis by (simp add: written_def)
  qed
  have last: "m2 (p + of_nat (length (u @ t))) = m (p + of_nat (length (u @ t))) \<or>
      m2 (p + of_nat (length (u @ t))) = 0"
  proof (cases t)
    case Nil
    with assms show ?thesis by (auto simp: written_def)
  next
    case (Cons c cs)
    have out: "p + of_nat (length (u @ t)) \<notin> span p (length (u @ t))"
      using assms(3) by (rule after_span)
    have "span p (Suc (length u)) \<subseteq> span p (length (u @ t))" using Cons by (intro span_mono) simp
    with out have "m1 (p + of_nat (length (u @ t))) = m (p + of_nat (length (u @ t)))"
      using assms(1) unfolding written_def by blast
    then show ?thesis using assms(2) by (auto simp: written_def algebra_simps)
  qed
  from bytes frame last show ?thesis by (auto simp: written_def)
qed

text \<open>One conversion.\<close>

lemma strlen_at:
  assumes "cstring m p xs" and "p \<noteq> NULL"
  shows "advance p m = Some (p + of_nat (length xs), m)"
  using kernel_strlen_cstring [OF assms] by (simp add: advance_def)

lemma itoa_advance:
  assumes "base \<in> {2, 8, 10, 16}" and "unat p + length (itoa_text n base) < 2 ^ 32" and "p \<noteq> NULL"
  shows "Option.bind (kernel_itoa n p base m) (advance p) =
    Some (p + of_nat (length (itoa_text n base)), write_bytes p (itoa_text n base @ [0]) m)"
proof -
  have "cstring (write_bytes p (itoa_text n base @ [0]) m) p (itoa_text n base)"
    using itoa_text_no_zero [OF assms(1)] assms(2) by (simp add: cstring_def bytes_at_write)
  from strlen_at [OF this assms(3)] show ?thesis by (simp add: kernel_itoa_eq [OF assms(1,2)])
qed

lemma args_int:
  assumes "list_all2 (arg_is m R) as (SInt n # bs)"
  obtains as' where "as = VInt n # as'" "list_all2 (arg_is m R) as' bs"
  using assms by (auto simp: list_all2_Cons2 elim!: arg_is.elims)

lemma conv_int:
  assumes "conv_text ch bs = Some (u, bs')" and "ch \<in> {of_char CHR ''d'', of_char CHR ''c'', of_char CHR ''x''}"
  obtains n where "bs = SInt n # bs'"
    "u = (if ch = of_char CHR ''d'' then itoa_text n 10 else if ch = of_char CHR ''c'' then [word_of_int n] else itoa_text n 16)"
  using assms by (auto simp: conv_text.simps split: list.splits sarg.splits)

lemma convert_string:
  assumes "list_all2 (arg_is m R) as (SStr u # bs)" and "span p (Suc (length u)) \<subseteq> R" and "length u < 2 ^ 32"
  shows "\<exists>as' m'. convert (of_char CHR ''s'') as p m = Some (as', p + of_nat (length u), m') \<and>
    written p u m m' \<and> list_all2 (arg_is m R) as' bs"
proof -
  from assms(1) obtain q as' where as: "as = VPtr q # as'" "arg_is m R (VPtr q) (SStr u)" "list_all2 (arg_is m R) as' bs"
    by (auto simp: list_all2_Cons2 elim!: arg_is.elims)
  then have q: "q \<noteq> NULL" "cstring m q u" "span q (Suc (length u)) \<inter> R = {}" by simp_all
  have "span p (length u) \<inter> span q (length u) = {}"
    using q(3) assms(2) span_mono [of "length u" "Suc (length u)" p]
      span_mono [of "length u" "Suc (length u)" q] by fastforce
  then have "memcpy_loop p q (int (length u)) m = Some (write_bytes p u m)"
    using q(2) by (intro memcpy_loop_eq) (simp_all add: cstring_def bytes_at_append)
  with as kernel_strlen_cstring [OF q(2,1)] written_write [OF assms(3)] show ?thesis
    by (simp add: convert.simps)
qed

lemma convert_writes:
  assumes "conv_text ch bs = Some (u, bs')" and "list_all2 (arg_is m R) as bs"
    and "span p (Suc (length u)) \<subseteq> R" and "unat p + length u < 2 ^ 32" and "p \<noteq> NULL"
  shows "\<exists>as' m'. convert ch as p m = Some (as', p + of_nat (length u), m') \<and>
    written p u m m' \<and> list_all2 (arg_is m R) as' bs'"
proof -
  have len: "length u < 2 ^ 32" using assms(4) by simp
  consider "ch = of_char CHR ''s''"
    | "ch \<in> {of_char CHR ''d'', of_char CHR ''c'', of_char CHR ''x''}"
    | "ch \<noteq> of_char CHR ''s''" "ch \<noteq> of_char CHR ''d''" "ch \<noteq> of_char CHR ''c''" "ch \<noteq> of_char CHR ''x''"
    by blast
  then show ?thesis
  proof cases
    case 1
    with assms(1) have "bs = SStr u # bs'" by (auto simp: conv_text.simps split: list.splits sarg.splits)
    with 1 convert_string [OF _ assms(3) len] assms(2) show ?thesis by blast
  next
    case 2
    from conv_int [OF assms(1) 2] obtain n where bs: "bs = SInt n # bs'"
      and u: "u = (if ch = of_char CHR ''d'' then itoa_text n 10 else if ch = of_char CHR ''c'' then [word_of_int n]
        else itoa_text n 16)" .
    from assms(2) [unfolded bs] obtain as' where as: "as = VInt n # as'" "list_all2 (arg_is m R) as' bs'" by (rule args_int)
    show ?thesis
      using 2 u as itoa_advance [of 10 p n m] itoa_advance [of 16 p n m] assms(4,5) written_write_zero [OF len]
        written_write [OF len, of p m]
      by (elim insertE) (simp_all add: convert.simps)
  next
    case 3
    with assms(1) have "u = []" "bs' = bs" by (simp_all add: conv_text.simps)
    with 3 assms(2) show ?thesis by (simp add: convert.simps written_def)
  qed
qed

text \<open>The whole format.\<close>

text \<open>After a conversion the rest of the arguments is still readable while the rest \<open>t\<close> of the text is written.\<close>

lemma convert_step:
  assumes conv: "conv_text ch bs = Some (u, rest)" and args: "list_all2 (arg_is m (span p (Suc (length (u @ t))))) as bs"
    and room: "unat p + length (u @ t) < 2 ^ 32" and "p \<noteq> NULL"
  defines "q \<equiv> p + of_nat (length u)"
  shows "\<exists>as' m1. convert ch as p m = Some (as', q, m1) \<and> written p u m m1 \<and>
    list_all2 (arg_is m1 (span q (Suc (length t)))) as' rest \<and> unat q = unat p + length u \<and> q \<noteq> NULL"
proof -
  let ?R = "span p (Suc (length (u @ t)))"
  have sub: "span p (Suc (length u)) \<subseteq> ?R" by (intro span_mono) simp
  have "unat p + length u < 2 ^ 32" using room by simp
  from convert_writes [OF conv args sub this assms(4)] obtain as' m1 where
    c: "convert ch as p m = Some (as', q, m1)" "written p u m m1" "list_all2 (arg_is m ?R) as' rest"
    unfolding q_def by blast
  have q: "unat q = unat p + length u" using room by (simp add: q_def unat_word_ariths unat_of_nat)
  have "?R = span p (length u) \<union> span q (Suc (length t))"
    using span_append [of p "length u" "Suc (length t)"] by (simp add: q_def)
  then have "span q (Suc (length t)) \<subseteq> ?R" by blast
  moreover have "m1 x = m x" if "x \<notin> ?R" for x using c(2) sub that unfolding written_def by blast
  ultimately have "list_all2 (arg_is m1 (span q (Suc (length t)))) as' rest" using args_change [OF c(3)] by blast
  moreover have "q \<noteq> NULL" using q assms(4) by (metis add_is_0 unat_eq_zero)
  ultimately show ?thesis using c q by blast
qed

lemma vsprintf_loop_writes:
  assumes "fmt_text st fmt bs = Some msg" and "list_all2 (arg_is m (span p (Suc (length msg)))) as bs"
    and "unat p + length msg < 2 ^ 32" and "p \<noteq> NULL"
  shows "\<exists>m'. vsprintf_loop st fmt as p m = Some (p + of_nat (length msg), m') \<and> written p msg m m'"
  using assms
proof (induction st fmt bs arbitrary: as p m msg rule: fmt_text.induct)
  case (1 st args)
  then show ?case by (simp add: written_def)
next
  case (2 ch fmt args)
  show ?case
  proof (cases "ch = of_char CHR ''%''")
    case True
    with 2 show ?thesis by simp
  next
    case False
    with "2.prems"(1) obtain t where t: "fmt_text NORMAL fmt args = Some t" "msg = ch # t" by auto
    have p1: "unat (p + 1) = unat p + 1" using "2.prems"(3) t(2) by (auto simp: unat_word_ariths)
    have "written p [ch] m (m(p := ch))" using written_write [of "[ch]" p m] by simp
    moreover have "list_all2 (arg_is (m(p := ch)) (span (p + 1) (Suc (length t)))) as args"
      using t(2) by (intro args_change [OF "2.prems"(2)]) auto
    then obtain m' where "vsprintf_loop NORMAL fmt as (p + 1) (m(p := ch)) = Some (p + 1 + of_nat (length t), m')"
      "written (p + 1) t (m(p := ch)) m'"
      using "2.IH"(2) [OF False t(1), of "m(p := ch)" "p + 1" as] "2.prems"(3) t(2) p1 by fastforce
    moreover have "length ([ch] @ t) < 2 ^ 32" using "2.prems"(3) t(2) by simp
    ultimately show ?thesis
      using False t(2) written_append [of p "[ch]" m "m(p := ch)" t m'] by (simp add: algebra_simps)
  qed
next
  case (3 ch fmt args)
  from "3.prems"(1) obtain u rest t where
    u: "conv_text ch args = Some (u, rest)" "fmt_text NORMAL fmt rest = Some t" "msg = u @ t"
    by (auto simp: bind_eq_Some_conv)
  let ?q = "p + of_nat (length u)"
  from convert_step [OF u(1) "3.prems"(2,3) [unfolded u(3)] "3.prems"(4)] obtain as' m1 where
    c: "convert ch as p m = Some (as', ?q, m1)" "written p u m m1" and rest: "list_all2 (arg_is m1 (span ?q (Suc (length t)))) as' rest"
    and q: "unat ?q = unat p + length u" "?q \<noteq> NULL" by blast
  from "3.IH" [OF u(1) refl u(2) rest] q "3.prems"(3) u(3) obtain m2 where
    "vsprintf_loop NORMAL fmt as' ?q m1 = Some (?q + of_nat (length t), m2)" "written ?q t m1 m2" by auto
  moreover have "length (u @ t) < 2 ^ 32" using "3.prems"(3) u(3) by simp
  ultimately show ?case
    using c u(3) written_append [OF c(2)] by (simp add: algebra_simps)
qed

lemma kernel_vsprintf_writes:
  assumes "fmt_text NORMAL fmt bs = Some msg"
    and "list_all2 (arg_is m (span buf (Suc (length msg)))) as bs"
    and "unat buf + length msg < 2 ^ 32" and "buf \<noteq> NULL"
  shows "\<exists>m'. kernel_vsprintf buf fmt as m = Some m' \<and> written buf msg m m'"
  using vsprintf_loop_writes [OF assms] by (auto simp: kernel_vsprintf_def)

text \<open>
  C23: \<open>kernel_vsprintf\<close> terminates and writes exactly the specified text: the literal characters, with
  every conversion replaced by its argument (a string, a character, a decimal or a hexadecimal
  number).  Beyond the text at most one byte changes, the one after it, and only to zero; when it is
  zero already, as in the cleared buffer of \<open>log_printf\<close>, the buffer holds the text as a C string.
\<close>

theorem kernel_vsprintf_writes_text:
  assumes "fmt_text NORMAL fmt bs = Some msg"
    and "list_all2 (arg_is m (span buf (Suc (length msg)))) as bs"
    and "unat buf + length msg < 2 ^ 32" and "buf \<noteq> NULL"
  shows "\<exists>m'. kernel_vsprintf buf fmt as m = Some m' \<and> bytes_at m' buf msg \<and>
    (\<forall>a. a \<notin> span buf (Suc (length msg)) \<longrightarrow> m' a = m a) \<and>
    (m (buf + of_nat (length msg)) = 0 \<longrightarrow> m' (buf + of_nat (length msg)) = 0)"
  using kernel_vsprintf_writes [OF assms]
  unfolding written_def by (auto simp del: span.simps)

lemma itoa_text_minus7: "itoa_text (- 7) 10 = [45, 55]"
  by (simp add: itoa_text_def rdigits.simps dchar_def numchar_def)

theorem kernel_vsprintf_writes_text_witness:
  "\<exists>m'. kernel_vsprintf 0x100 (map of_char ''t=%d'') [VInt (- 7)] (\<lambda>_. 0) = Some m' \<and>
     cstring m' 0x100 (map of_char ''t=-7'')"
proof -
  have msg: "fmt_text NORMAL (map of_char ''t=%d'') [SInt (- 7)] = Some (map of_char ''t=-7'')"
    by (simp add: conv_text.simps itoa_text_minus7)
  show ?thesis
    using kernel_vsprintf_writes_text [OF msg, of "\<lambda>_. 0" "0x100" "[VInt (- 7)]"]
    by (auto simp: cstring_def)
qed

section \<open>Numbers\<close>

text \<open>
  C24: Printing a number in decimal and reading it back gives the number, for every \<open>int\<close> including the
  most negative one: \<open>kernel_itoa\<close> ends with a C string in the buffer that denotes \<open>num\<close>, and writes
  nothing outside the string and its terminator.
\<close>

theorem kernel_itoa_decimal_roundtrip:
  assumes "unat buf + length (itoa_text num 10) < 2 ^ 32"
  shows "\<exists>m' xs. kernel_itoa num buf 10 m = Some m' \<and> cstring m' buf xs \<and> read_int xs = num \<and>
    (\<forall>a. a \<notin> span buf (Suc (length xs)) \<longrightarrow> m' a = m a)"
proof (intro exI conjI)
  show "kernel_itoa num buf 10 m = Some (write_bytes buf (itoa_text num 10 @ [0]) m)"
    using assms by (intro kernel_itoa_eq) simp_all
  show "cstring (write_bytes buf (itoa_text num 10 @ [0]) m) buf (itoa_text num 10)"
    using itoa_text_no_zero [of 10 num] assms by (simp add: cstring_def bytes_at_write)
  show "read_int (itoa_text num 10) = num" by (rule read_itoa_text)
  show "\<forall>a. a \<notin> span buf (Suc (length (itoa_text num 10))) \<longrightarrow>
      write_bytes buf (itoa_text num 10 @ [0]) m a = m a"
    by (auto intro!: write_bytes_other simp del: span.simps)
qed

theorem kernel_itoa_decimal_roundtrip_witness:
  "\<exists>m' xs. kernel_itoa (- 7) 0x100 10 (\<lambda>_. 0) = Some m' \<and> cstring m' 0x100 xs \<and> read_int xs = - 7"
  using kernel_itoa_decimal_roundtrip [of "0x100" "- 7" "\<lambda>_. 0"] by (auto simp: itoa_text_minus7)

text \<open>
  In the bases 2, 8 and 16 \<open>kernel_itoa\<close> prints the digits of the absolute value and no sign, so a
  negative number and its opposite give the same text; the two's complement representation is never
  printed.
\<close>

theorem kernel_itoa_drops_sign:
  assumes "base \<in> {2, 8, 16}" and "unat buf + length (itoa_text num base) < 2 ^ 32"
  shows "\<exists>xs. kernel_itoa num buf base m = Some (write_bytes buf (xs @ [0]) m) \<and>
    kernel_itoa (- num) buf base m = Some (write_bytes buf (xs @ [0]) m) \<and>
    read_nat (nat base) xs = nat \<bar>num\<bar>"
proof -
  have eq: "itoa_text (- num) base = itoa_text num base" using assms(1) by (auto simp: itoa_text_def)
  have "read_nat (nat base) (itoa_text num base) = nat \<bar>num\<bar>"
    using assms(1) read_nat_rdigits [of "nat base" "nat \<bar>num\<bar>"] by (auto simp: itoa_text_def)
  with assms eq kernel_itoa_eq [of base buf num m] kernel_itoa_eq [of base buf "- num" m]
  show ?thesis by auto
qed

theorem kernel_itoa_drops_sign_witness:
  "\<exists>xs. kernel_itoa (- 1) 0x100 16 (\<lambda>_. 0) = Some (write_bytes 0x100 (xs @ [0]) (\<lambda>_. 0)) \<and>
     read_nat 16 xs = 1"
proof -
  have "itoa_text (- 1) 16 = [49]" by (simp add: itoa_text_def rdigits.simps dchar_def numchar_def)
  then show ?thesis using kernel_itoa_drops_sign [of 16 "0x100" "- 1" "\<lambda>_. 0"] by auto
qed

section \<open>Alignment\<close>

text \<open>
  For a power of two \<open>2 ^ k\<close>, \<open>down2\<close> is the largest multiple of it not above its argument, and
  \<open>up2\<close>, as long as rounding up stays below 4 GiB, the smallest multiple not below.
\<close>

theorem align_rounds:
  assumes "k < 32" and "unat x + 2 ^ k \<le> 2 ^ 32"
  shows "unat (down2 x (2 ^ k)) = unat x div 2 ^ k * 2 ^ k \<and>
    unat (up2 x (2 ^ k)) = (unat x + 2 ^ k - 1) div 2 ^ k * 2 ^ k \<and>
    unat (down2 x (2 ^ k)) \<le> unat x \<and> unat x \<le> unat (up2 x (2 ^ k)) \<and>
    unat (up2 x (2 ^ k)) < unat x + 2 ^ k"
proof -
  have "(2 :: nat) ^ k < 2 ^ LENGTH(32)" using assms(1) by (intro power_strict_increasing) simp_all
  then have pk: "unat (2 ^ k :: uint32_t) = 2 ^ k"
    using unat_of_nat [of "2 ^ k", where 'a = 32] by simp
  have one: "(1 :: nat) \<le> 2 ^ k" by simp
  have "(2 ^ k :: uint32_t) \<noteq> 0"
  proof
    assume "(2 ^ k :: uint32_t) = 0"
    with pk show False by simp
  qed
  then have m1: "unat (2 ^ k - 1 :: uint32_t) = 2 ^ k - 1" using pk by (simp add: unat_minus_one)
  have "unat x + unat (2 ^ k - 1 :: uint32_t) < 2 ^ LENGTH(32)" using assms(2) one m1 by simp
  then have "unat (x + (2 ^ k - 1)) = unat x + unat (2 ^ k - 1 :: uint32_t)"
    by (rule unat_add_lem [THEN iffD1])
  then have sum: "unat (x + 2 ^ k - 1) = unat x + 2 ^ k - 1"
    using one m1 by (simp add: add_diff_eq)
  have up: "up2 x (2 ^ k) = down2 (x + 2 ^ k - 1) (2 ^ k)" by (simp add: up2_def down2_def)
  let ?n = "unat x" and ?b = "2 ^ k :: nat"
  have "?n \<le> (?n + ?b - 1) div ?b * ?b"
    using div_mult_mod_eq [of "?n + ?b - 1" ?b] mod_less_divisor [of ?b "?n + ?b - 1"] one by linarith
  moreover have "(?n + ?b - 1) div ?b * ?b < ?n + ?b"
    using div_times_less_eq_dividend [of "?n + ?b - 1" ?b] one by linarith
  moreover have "?n div ?b * ?b \<le> ?n" by (rule div_times_less_eq_dividend)
  ultimately show ?thesis
    by (simp add: up unat_down2 sum mult.commute)
qed

theorem align_rounds_witness:
  "unat (up2 0x1234 0x1000) = 0x2000 \<and> unat (down2 0x1234 0x1000) = 0x1000"
  using align_rounds [of 12 "0x1234"] by simp

section \<open>Strings and memory\<close>

text \<open>
  \<open>kernel_strncpy\<close> copies a string that leaves room for more than its terminator, and writes nothing
  else.
\<close>

theorem kernel_strncpy_copies:
  assumes "cstring m src xs" and "int (length xs) + 1 < n" and "dest \<noteq> NULL" and "src \<noteq> NULL"
    and "span dest (length xs) \<inter> span src (Suc (length xs)) = {}" and "length xs < 2 ^ 32"
  shows "\<exists>m'. kernel_strncpy dest src n m = Some m' \<and> cstring m' dest xs \<and>
    (\<forall>a. a \<notin> span dest (Suc (length xs)) \<longrightarrow> m' a = m a)"
proof (intro exI conjI)
  let ?m' = "write_bytes dest (xs @ [0]) m"
  have "n \<noteq> 0" "n - int (length xs) - 1 \<noteq> 0" using assms(2) by linarith+
  then show "kernel_strncpy dest src n m = Some ?m'"
    using assms(3,4) strncpy_loop_short [OF assms(1) _ assms(5), of n] assms(2)
    by (simp add: kernel_strncpy_def write_bytes_append)
  show "cstring ?m' dest xs" using assms(1,6) by (simp add: cstring_def bytes_at_write)
  show "\<forall>a. a \<notin> span dest (Suc (length xs)) \<longrightarrow> ?m' a = m a"
    by (auto intro!: write_bytes_other simp del: span.simps)
qed

definition two_strings :: mem where
  "two_strings = write_bytes 0x100 (map of_char ''idle'') (\<lambda>_. 0)"

lemma two_strings_idle: "cstring two_strings 0x100 (map of_char ''idle'')"
  by (simp add: two_strings_def)

theorem kernel_strncpy_copies_witness:
  "\<exists>m'. kernel_strncpy 0x200 0x100 32 two_strings = Some m' \<and> cstring m' 0x200 (map of_char ''idle'')"
  using kernel_strncpy_copies [OF two_strings_idle, of 32 "0x200"] by (auto simp del: cstring_Cons)

text \<open>
  \<open>kernel_strncpy\<close> is wrong when the buffer is just large enough or too small.  A string that fills
  the buffer exactly, terminator included, loses its last character; a string with no terminator
  within the size is copied in full and its terminator is written one byte beyond the buffer.
\<close>

theorem kernel_strncpy_boundary:
  assumes "bytes_at m src xs" and "0 \<notin> set xs" and "xs \<noteq> []" and "dest \<noteq> NULL" and "src \<noteq> NULL"
    and "span dest (length xs) \<inter> span src (Suc (length xs)) = {}" and "length xs < 2 ^ 32"
  shows "(m (src + of_nat (length xs)) = 0 \<longrightarrow>
      kernel_strncpy dest src (int (length xs) + 1) m = Some (write_bytes dest (butlast xs @ [0]) m)) \<and>
    kernel_strncpy dest src (int (length xs)) m = Some (write_bytes dest (xs @ [0]) m)"
proof (intro conjI impI)
  let ?d = "dest + of_nat (length xs)"
  obtain ys y where xs: "xs = ys @ [y]" using assms(3) by (metis append_butlast_last_id)
  {
    assume "m (src + of_nat (length xs)) = 0"
    then have "cstring m src xs" using assms(1,2) by (simp add: cstring_def bytes_at_append)
    from strncpy_loop_short [OF this _ assms(6), of "int (length xs) + 1"]
    have "strncpy_loop (int (length xs) + 1) dest src m = Some (0, ?d, write_bytes dest xs m)" by simp
    moreover have "int (length xs) + 1 \<noteq> 0" by linarith
    ultimately have "kernel_strncpy dest src (int (length xs) + 1) m = Some ((write_bytes dest xs m)(?d - 1 := 0))"
      using assms(4,5) by (simp add: kernel_strncpy_def)
    moreover have "(write_bytes dest xs m)(?d - 1 := 0) = write_bytes dest (butlast xs @ [0]) m"
      by (simp add: xs write_bytes_append)
    ultimately show "kernel_strncpy dest src (int (length xs) + 1) m = Some (write_bytes dest (butlast xs @ [0]) m)"
      by simp
  }
  have "span dest (length xs) \<inter> span src (length xs) = {}"
    using assms(6) span_mono [of "length xs" "Suc (length xs)" src] by (auto simp del: span.simps)
  from strncpy_loop_long [OF assms(1,2) this] assms(3-5)
  show "kernel_strncpy dest src (int (length xs)) m = Some (write_bytes dest (xs @ [0]) m)"
    by (simp add: kernel_strncpy_def write_bytes_append)
qed

theorem kernel_strncpy_boundary_witness:
  "kernel_strncpy 0x200 0x100 5 two_strings = Some (write_bytes 0x200 (map of_char ''idl'' @ [0]) two_strings) \<and>
   kernel_strncpy 0x200 0x100 4 two_strings = Some (write_bytes 0x200 (map of_char ''idle'' @ [0]) two_strings)"
  using kernel_strncpy_boundary [of two_strings "0x100" "map of_char ''idle''" "0x200"]
  by (simp add: two_strings_def)

text \<open>
  \<open>kernel_memset\<close> fills exactly the given range, and \<open>kernel_strlen\<close> of a string is its length.
\<close>

theorem kernel_memset_strlen:
  assumes "dest \<noteq> NULL" and "n < 2 ^ 32" and "v \<noteq> 0" and "m (dest + of_nat n) = 0"
  shows "\<exists>m'. kernel_memset dest v (int n) m = Some m' \<and>
    (\<forall>a. m' a = (if a \<in> span dest n then v else m a)) \<and> kernel_strlen dest m' = Some (int n)"
proof (intro exI conjI)
  let ?m' = "write_bytes dest (replicate n v) m"
  show "kernel_memset dest v (int n) m = Some ?m'" using assms(1) by (rule kernel_memset_eq)
  show at: "\<forall>a. ?m' a = (if a \<in> span dest n then v else m a)"
  proof
    fix a
    show "?m' a = (if a \<in> span dest n then v else m a)"
    proof (cases "a \<in> span dest n")
      case True
      then obtain i where "i < n" "a = dest + of_nat i" by (auto simp: span_iff)
      with assms(2) True show ?thesis by (simp add: write_bytes_at)
    qed (simp add: write_bytes_other)
  qed
  have "?m' (dest + of_nat n) = 0" using at after_span [OF assms(2), of dest] assms(4) by simp
  then have "cstring ?m' dest (replicate n v)"
    using assms(2,3) by (simp add: cstring_def bytes_at_append bytes_at_write)
  then show "kernel_strlen dest ?m' = Some (int n)"
    using kernel_strlen_cstring [of ?m' dest "replicate n v"] assms(1) by simp
qed

theorem kernel_memset_strlen_witness:
  "\<exists>m'. kernel_memset 0x100 0x41 3 (\<lambda>_. 0) = Some m' \<and> kernel_strlen 0x100 m' = Some 3"
  using kernel_memset_strlen [of "0x100" 3 "0x41" "\<lambda>_. 0"] by auto

text \<open>
  \<open>kernel_memcpy\<close> does not copy from its source.  It reads from the address of its own parameter, so
  its result does not depend on what the source pointer denotes, and copying four bytes copies the
  pointer.
\<close>

theorem kernel_memcpy_copies_pointer:
  assumes "bytes_at m slot bs" and "bs \<noteq> []" and "dest \<noteq> NULL" and "src \<noteq> NULL"
    and "span dest (length bs) \<inter> span slot (length bs) = {}"
  shows "kernel_memcpy slot dest src (int (length bs)) m = Some (write_bytes dest bs m)"
  using assms memcpy_loop_eq [OF assms(1,5)] by (simp add: kernel_memcpy_def)

theorem kernel_memcpy_copies_pointer_witness:
  "kernel_memcpy 0x300 0x200 0x100 4 (write_bytes 0x300 [0, 1, 0, 0] two_strings) =
     Some (write_bytes 0x200 [0, 1, 0, 0] (write_bytes 0x300 [0, 1, 0, 0] two_strings))"
  using kernel_memcpy_copies_pointer [of "write_bytes 0x300 [0, 1, 0, 0] two_strings" "0x300" "[0, 1, 0, 0]" "0x200" "0x100"]
  by (simp add: two_strings_def)

text \<open>
  \<open>kernel_memcmp\<close> answers 1 on ranges that differ, but on equal ranges it runs off its end without
  returning a value, because the counter is -1 when the loop is left.
\<close>

theorem kernel_memcmp_equal_no_result:
  assumes "bytes_at m p xs" and "bytes_at m q ys" and "length xs = length ys" and "xs \<noteq> []"
    and "p \<noteq> NULL" and "q \<noteq> NULL"
  shows "kernel_memcmp p q (int (length xs)) m = Some (if xs = ys then No_return else Returns 1)"
  using assms by (rule kernel_memcmp_eq)

theorem kernel_memcmp_equal_no_result_witness:
  "kernel_memcmp 0x100 0x100 4 two_strings = Some No_return \<and>
   kernel_memcmp 0x100 0x200 4 two_strings = Some (Returns 1)"
  using kernel_memcmp_equal_no_result [of two_strings "0x100" "map of_char ''idle''" "0x100" "map of_char ''idle''"]
    kernel_memcmp_equal_no_result [of two_strings "0x100" "map of_char ''idle''" "0x200" "[0, 0, 0, 0]"]
  by (simp add: two_strings_def)

end
