(* ===== verification/Interfaces.thy ===== *)
theory Interfaces
  imports Prelude
begin

text \<open>
  Contracts that several components share: loops that poll the status of a device, and step relations
  that keep an invariant.
\<close>

section \<open>Polling\<close>

text \<open>
  A loop that reads a status until the device is ready.  \<open>ready n\<close> says whether the \<open>n\<close>-th reading reports
  that it is; \<open>wait n\<close> is the number of readings taken when the loop that starts with reading \<open>n\<close> ends,
  if it ends.
\<close>

locale polling =
  fixes ready :: "nat \<Rightarrow> bool"
    and wait :: "nat \<Rightarrow> nat option"
  assumes wait_unfold: "wait n = (if ready n then Some (n + 1) else wait (n + 1))"
begin

lemma wait_bounded: "ready k \<Longrightarrow> n \<le> k \<Longrightarrow> \<exists>j. wait n = Some j \<and> n < j \<and> j \<le> k + 1"
proof (induction "k - n" arbitrary: n)
  case 0
  then show ?case by (simp add: wait_unfold [of n])
next
  case (Suc d)
  show ?case
  proof (cases "ready n")
    case False
    with Suc.prems have "Suc n \<le> k" by (metis not_less_eq_eq le_antisym)
    then have "d = k - Suc n" using Suc.hyps(2) by simp
    from Suc.hyps(1) [OF this Suc.prems(1) \<open>Suc n \<le> k\<close>] False show ?thesis
      by (auto simp: wait_unfold [of n])
  qed (use Suc.prems in \<open>simp add: wait_unfold [of n]\<close>)
qed

lemma wait_ends: "\<exists>k. ready k \<Longrightarrow> \<exists>j. wait 0 = Some j"
  using wait_bounded by blast

lemma wait_ends_always: "(\<And>m. \<exists>k\<ge>m. ready k) \<Longrightarrow> \<exists>j. wait n = Some j \<and> n < j"
  using wait_bounded by meson

end

section \<open>Invariants\<close>

locale invariant_system =
  fixes step :: "'s \<Rightarrow> 's \<Rightarrow> bool"
    and inv :: "'s \<Rightarrow> bool"
  assumes step_keeps: "step s s' \<Longrightarrow> inv s \<Longrightarrow> inv s'"
begin

lemma inv_reach: "rtranclp step s s' \<Longrightarrow> inv s \<Longrightarrow> inv s'"
  by (induction rule: rtranclp_induct) (auto dest: step_keeps)

text \<open>What holds in every state of the invariant holds after every step of every run.\<close>

lemma inv_along: "rtranclp step s s' \<Longrightarrow> step s' s'' \<Longrightarrow> inv s \<Longrightarrow> (\<And>x. inv x \<Longrightarrow> P x) \<Longrightarrow> P s' \<and> P s''"
  using inv_reach step_keeps by blast

end

end
