(* ===== verification/Log.thy ===== *)
theory Log
  imports Sample_State Klib_Props Interfaces
begin

text \<open>
  The kernel log, \<open>src/source/kernel/tools/log.c\<close>: messages are formatted into a buffer on the caller's
  stack, of which \<open>buf\<close> is the address, and sent to the serial port under the log's mutex.  The line
  status register of the port is a device: \<open>lsr\<close> gives the values that successive reads of it return,
  and a byte is sent at the first read whose bit 5 is set.
\<close>

section \<open>Operations\<close>

definition COM1_PORT :: uint16_t where "COM1_PORT = 0x3f8"

definition log_init :: "kst \<Rightarrow> kst" where
  "log_init s0 =
    (let s1 = mutex_init log_mutex s0;
         s2 = outb (COM1_PORT + 1) 0x00 s1;
         s3 = outb (COM1_PORT + 3) 0x80 s2;
         s4 = outb (COM1_PORT + 0) 0x03 s3;
         s5 = outb (COM1_PORT + 1) 0x00 s4;
         s6 = outb (COM1_PORT + 3) 0x03 s5;
         s7 = outb (COM1_PORT + 2) 0xC7 s6
     in outb (COM1_PORT + 4) 0x0F s7)"

definition sizeof_str_buf :: int where "sizeof_str_buf = 128"

text \<open>\<open>log_printf\<close> up to the lock: the formatted text, and memory with the buffer in it.\<close>

definition log_format :: "addr \<Rightarrow> uint8_t list \<Rightarrow> va list \<Rightarrow> mem \<Rightarrow> (uint8_t list \<times> mem) option" where
  "log_format buf fmt args m =
    Option.bind (kernel_memset buf 0 sizeof_str_buf m)
      (\<lambda>m1. Option.bind (kernel_vsprintf buf fmt args m1)
        (\<lambda>m2. map_option (\<lambda>str. (str, m2)) (read_cstring buf m2)))"

definition log_printf :: "addr \<Rightarrow> uint8_t list \<Rightarrow> va list \<Rightarrow> kst \<Rightarrow> kst option" where
  "log_printf buf fmt args s =
    map_option (\<lambda>(str, m). push_frame (F_log str) (s\<lparr>kmem := m\<rparr>)) (log_format buf fmt args (kmem s))"

text \<open>
  The lock, one round of the output loop, the carriage return and line feed after it, and the unlock.
  The frame of the loop holds the bytes left to send, the last two being the line end.
\<close>

definition log_lock :: "uint8_t list \<Rightarrow> kst \<Rightarrow> kst" where
  "log_lock str s = mutex_lock log_mutex (push_frame (F_log_body (str @ [13, 10])) s)"

partial_function (option) wait_empty :: "(nat \<Rightarrow> uint8_t) \<Rightarrow> nat \<Rightarrow> nat option" where
  "wait_empty lsr n = (if lsr n AND 0x20 = 0 then wait_empty lsr (n + 1) else Some (n + 1))"

definition log_char :: "(nat \<Rightarrow> uint8_t) \<Rightarrow> nat \<Rightarrow> uint8_t \<Rightarrow> kst \<Rightarrow> (nat \<times> kst) option" where
  "log_char lsr n c s = map_option (\<lambda>n'. (n', outb COM1_PORT c s)) (wait_empty lsr n)"

definition log_newline :: "uint8_t \<Rightarrow> kst \<Rightarrow> kst" where
  "log_newline c s = outb COM1_PORT c s"

definition log_body :: "(nat \<Rightarrow> uint8_t) \<Rightarrow> uint8_t \<Rightarrow> uint8_t list \<Rightarrow> kst \<Rightarrow> kst option" where
  "log_body lsr c cs s =
    map_option (push_frame (F_log_body cs))
      (if length cs < 2 then Some (log_newline c s) else map_option snd (log_char lsr 0 c s))"

definition log_end :: "kst \<Rightarrow> kst" where
  "log_end s = mutex_unlock log_mutex s"

lemma log_body_sends:
  "log_body lsr c cs s = Some s' \<Longrightarrow> s' = push_frame (F_log_body cs) (outb COM1_PORT c s)"
  by (auto simp: log_body_def log_newline_def log_char_def split: if_splits)

section \<open>Formatting\<close>

lemma log_printf_format:
  assumes "fmt_text NORMAL fmt bs = Some msg" and "0 \<notin> set msg"
    and "list_all2 (arg_is (kmem s) (span buf (max 128 (Suc (length msg))))) as bs"
    and "unat buf + max 128 (Suc (length msg)) \<le> 2 ^ 32" and "buf \<noteq> NULL"
    and "128 \<le> length msg \<Longrightarrow> kmem s (buf + of_nat (length msg)) = 0"
  shows "\<exists>m'. log_printf buf fmt as s = Some (push_frame (F_log msg) (s\<lparr>kmem := m'\<rparr>)) \<and>
    cstring m' buf msg \<and> (\<forall>a. a \<notin> span buf (max 128 (Suc (length msg))) \<longrightarrow> m' a = kmem s a)"
proof -
  let ?m1 = "write_bytes buf (replicate 128 0) (kmem s)" and ?R = "span buf (max 128 (Suc (length msg)))"
  have set: "kernel_memset buf 0 sizeof_str_buf (kmem s) = Some ?m1"
    using kernel_memset_eq [OF assms(5), of 0 128 "kmem s"] by (simp add: sizeof_str_buf_def)
  have sub: "span buf (Suc (length msg)) \<subseteq> ?R" "span buf 128 \<subseteq> ?R" by (intro span_mono, simp)+
  have out: "?m1 a = kmem s a" if "a \<notin> span buf 128" for a
    using that by (intro write_bytes_other) simp
  have outR: "?m1 a = kmem s a" if "a \<notin> ?R" for a
    using out sub(2) that by blast
  have args: "list_all2 (arg_is ?m1 (span buf (Suc (length msg)))) as bs"
    using args_change [OF assms(3) outR sub(1)] .
  have "unat buf + length msg < 2 ^ 32" using assms(4) by simp
  from kernel_vsprintf_writes [OF assms(1) args this assms(5)] obtain m2 where
    m2: "kernel_vsprintf buf fmt as ?m1 = Some m2" "written buf msg ?m1 m2" by blast
  have "?m1 (buf + of_nat (length msg)) = 0"
  proof (cases "length msg < 128")
    case True
    then show ?thesis using write_bytes_at [of "replicate 128 0" "length msg" buf "kmem s"] by simp
  next
    case False
    have "length msg < 2 ^ 32" using assms(4) by simp
    then have "buf + of_nat (length msg) \<notin> span buf (length msg)" by (rule after_span)
    then have "buf + of_nat (length msg) \<notin> span buf 128"
      using False span_mono [of 128 "length msg" buf] by fastforce
    then show ?thesis using out assms(6) False by simp
  qed
  with m2(2) have "m2 (buf + of_nat (length msg)) = 0" by (auto simp: written_def)
  with m2(2) assms(2) have str: "cstring m2 buf msg" by (simp add: written_def cstring_def bytes_at_append)
  then have "log_printf buf fmt as s = Some (push_frame (F_log msg) (s\<lparr>kmem := m2\<rparr>))"
    using set m2(1) by (simp add: log_printf_def log_format_def read_cstring_eq)
  moreover have "m2 a = kmem s a" if "a \<notin> ?R" for a
  proof -
    have "a \<notin> span buf (Suc (length msg))" using sub(1) that by blast
    with m2(2) have "m2 a = ?m1 a" unfolding written_def by blast
    with outR [OF that] show ?thesis by simp
  qed
  ultimately show ?thesis using str by blast
qed

text \<open>
  \<open>log_printf\<close> queues exactly the text that the format and its arguments denote, as long as the text
  fits the 128-byte buffer with its terminator and holds no zero byte; it writes memory in the buffer
  only.
\<close>

theorem log_printf_text:
  assumes "fmt_text NORMAL fmt bs = Some msg" and "length msg < 128" and "0 \<notin> set msg"
    and "list_all2 (arg_is (kmem s) (span buf 128)) as bs"
    and "unat buf + 128 \<le> 2 ^ 32" and "buf \<noteq> NULL"
  shows "\<exists>m'. log_printf buf fmt as s = Some (push_frame (F_log msg) (s\<lparr>kmem := m'\<rparr>)) \<and>
    (\<forall>a. a \<notin> span buf 128 \<longrightarrow> m' a = kmem s a)"
proof -
  have mx: "max 128 (Suc (length msg)) = 128" using assms(2) by simp
  have "128 \<le> length msg \<Longrightarrow> kmem s (buf + of_nat (length msg)) = 0" using assms(2) by simp
  from log_printf_format [OF assms(1,3), of s buf as, unfolded mx, OF assms(4,5,6) this]
  show ?thesis by blast
qed

theorem log_printf_text_witness:
  "\<exists>m'. log_printf 0x8000 (map of_char ''tick %d'') [VInt 42] sample_state =
     Some (push_frame (F_log (map of_char ''tick 42'')) (sample_state\<lparr>kmem := m'\<rparr>))"
proof -
  have "fmt_text NORMAL (map of_char ''tick %d'') [SInt 42] = Some (map of_char ''tick 42'')"
    by (simp add: conv_text.simps itoa_text_def rdigits.simps dchar_def numchar_def)
  from log_printf_text [OF this, of sample_state "0x8000" "[VInt 42]"] show ?thesis by auto
qed

text \<open>
  A longer message overruns the buffer.  Nothing bounds what \<open>kernel_vsprintf\<close> writes: with a text of
  more than 128 bytes, bytes of the text end up in the memory after \<open>str_buf\<close>.
\<close>

theorem log_printf_overruns:
  assumes "fmt_text NORMAL fmt bs = Some msg" and "128 < length msg" and "0 \<notin> set msg"
    and "list_all2 (arg_is (kmem s) (span buf (Suc (length msg)))) as bs"
    and "unat buf + Suc (length msg) \<le> 2 ^ 32" and "buf \<noteq> NULL"
    and "kmem s (buf + of_nat (length msg)) = 0"
  shows "\<exists>s'. log_printf buf fmt as s = Some s' \<and> buf + 128 \<notin> span buf 128 \<and>
    kmem s' (buf + 128) = msg ! 128"
proof -
  have mx: "max 128 (Suc (length msg)) = Suc (length msg)" using assms(2) by simp
  from log_printf_format [OF assms(1,3), of s buf as, unfolded mx, OF assms(4,5,6,7)] obtain m' where
    m': "log_printf buf fmt as s = Some (push_frame (F_log msg) (s\<lparr>kmem := m'\<rparr>))" "cstring m' buf msg"
    by blast
  have "bytes_at m' buf msg" using m'(2) by (simp add: cstring_def bytes_at_append)
  from bytes_at_nth [OF this assms(2)] have "m' (buf + 128) = msg ! 128" by simp
  moreover have "buf + 128 \<notin> span buf 128" using after_span [of 128 buf] by simp
  ultimately show ?thesis using m'(1) by simp
qed

lemma fmt_text_plain: "of_char CHR ''%'' \<notin> set fmt \<Longrightarrow> fmt_text NORMAL fmt bs = Some fmt"
  by (induction fmt) auto

theorem log_printf_overruns_witness:
  "\<exists>s'. log_printf 0x8000 (replicate 129 0x41) [] sample_state = Some s' \<and> kmem s' 0x8080 = 0x41"
proof -
  have t: "fmt_text NORMAL (replicate 129 0x41) [] = Some (replicate 129 0x41)"
    by (rule fmt_text_plain) simp
  have "kmem sample_state = (\<lambda>_. 0)" by (rule sample_mem)
  with log_printf_overruns [OF t, of sample_state "0x8000" "[]"] show ?thesis by auto
qed

section \<open>Output\<close>

interpretation com1: polling "\<lambda>n. lsr n AND 0x20 \<noteq> 0" "wait_empty lsr"
  for lsr
  by unfold_locales (subst wait_empty.simps, simp)

lemma log_body_total:
  assumes "\<exists>k. lsr k AND 0x20 \<noteq> 0"
  shows "log_body lsr c cs s = Some (push_frame (F_log_body cs) (outb COM1_PORT c s))"
proof -
  obtain j where "wait_empty lsr 0 = Some j" using assms com1.wait_ends [of lsr] by blast
  then show ?thesis by (simp add: log_body_def log_newline_def log_char_def)
qed

text \<open>The whole output loop of one message, uninterrupted.\<close>

fun log_chars :: "(nat \<Rightarrow> uint8_t) \<Rightarrow> nat \<Rightarrow> uint8_t list \<Rightarrow> kst \<Rightarrow> (nat \<times> kst) option" where
  "log_chars lsr n [] s = Some (n, s)"
| "log_chars lsr n (c # cs) s = Option.bind (log_char lsr n c s) (\<lambda>(n', s'). log_chars lsr n' cs s')"

text \<open>
  C25: If the device reports an empty transmit buffer again and again, the output loop of \<open>log_printf\<close>
  terminates and sends the bytes of the message to the serial port in order, and nothing else.
\<close>

theorem log_output_complete:
  assumes "\<forall>n. \<exists>k\<ge>n. lsr k AND 0x20 \<noteq> 0"
  shows "\<exists>n' s'. log_chars lsr n msg s = Some (n', s') \<and>
    outs s' = outs s @ map (\<lambda>c. (COM1_PORT, c)) msg"
proof (induction msg arbitrary: n s)
  case (Cons c cs)
  obtain j where "wait_empty lsr n = Some j" using com1.wait_ends_always [where lsr = lsr and n = n] assms by blast
  with Cons [of j "outb COM1_PORT c s"] show ?case by (auto simp: log_char_def outb_def)
qed simp

theorem log_output_complete_witness:
  "\<exists>n' s'. log_chars (\<lambda>n. if even n then 0 else 0x60) 0 (map of_char ''ok'') sample_state = Some (n', s') \<and>
     outs s' = outs sample_state @ [(COM1_PORT, 111), (COM1_PORT, 107)]"
proof -
  have "\<forall>n :: nat. \<exists>k\<ge>n. (if even k then 0 else 0x60 :: uint8_t) AND 0x20 \<noteq> 0"
  proof
    fix n :: nat
    show "\<exists>k\<ge>n. (if even k then 0 else 0x60 :: uint8_t) AND 0x20 \<noteq> 0"
      by (rule exI [of _ "Suc (2 * n)"]) simp
  qed
  from log_output_complete [OF this, of 0 "map of_char ''ok''" sample_state] show ?thesis by simp
qed

end
