(* ===== verification/Timer.thy ===== *)
theory Timer
  imports Log
begin

text \<open>
  The timer, \<open>src/source/kernel/dev/time.c\<close>: programming the interval timer, and its interrupt.  The
  entry point \<open>exception_handler_time\<close> of \<open>start.S\<close> saves the registers, calls \<open>do_handler_time\<close> and
  returns with \<open>iret\<close>; what it adds to the model is the frame that restores the flags.
\<close>

section \<open>Operations\<close>

definition PIT_OSC_FREQ :: int where "PIT_OSC_FREQ = 1193182"
definition PIT_COMMAND_MODE_PORT :: uint16_t where "PIT_COMMAND_MODE_PORT = 0x43"
definition PIT_CHANNEL0_DATA_PORT :: uint16_t where "PIT_CHANNEL0_DATA_PORT = 0x40"
definition PIT_CHANNEL :: uint8_t where "PIT_CHANNEL = push_bit 6 0"
definition PIT_LOAD_LOHI :: uint8_t where "PIT_LOAD_LOHI = push_bit 4 3"
definition PIT_MODE3 :: uint8_t where "PIT_MODE3 = push_bit 1 3"

lemmas pit_consts = PIT_OSC_FREQ_def PIT_COMMAND_MODE_PORT_def PIT_CHANNEL0_DATA_PORT_def
  PIT_CHANNEL_def PIT_LOAD_LOHI_def PIT_MODE3_def

text \<open>The quotient is a floating-point one in the source; the conversion to an integer truncates it.\<close>

definition reload_count :: uint32_t where
  "reload_count = word_of_int ((PIT_OSC_FREQ * uint OS_TICKS_MS) div 1000)"

definition init_pit :: "(exc \<Rightarrow> uint32_t) \<Rightarrow> 'a kcpu_scheme \<Rightarrow> 'a kcpu_scheme option" where
  "init_pit entry s0 =
    (let s1 = outb PIT_COMMAND_MODE_PORT (PIT_CHANNEL OR PIT_LOAD_LOHI OR PIT_MODE3) s0;
         s2 = outb PIT_CHANNEL0_DATA_PORT (ucast (reload_count AND 0xff)) s1;
         s3 = outb PIT_CHANNEL0_DATA_PORT (ucast (drop_bit 8 reload_count AND 0xff)) s2;
         s4 = snd (irq_install IRQ0_TIMER (entry exc_time) s3)
     in irq_enable IRQ0_TIMER s4)"

definition time_init :: "(exc \<Rightarrow> uint32_t) \<Rightarrow> kst \<Rightarrow> kst option" where
  "time_init entry s = init_pit entry (s\<lparr>sys_tick := 0\<rparr>)"

definition do_handler_time :: "kst \<Rightarrow> kst option" where
  "do_handler_time s =
    (let s1 = s\<lparr>sys_tick := sys_tick s + 1\<rparr>;
         s2 = pic_send_eoi IRQ0_TIMER s1
     in task_time_tick s2)"

text \<open>
  A timer interrupt as the processor takes it through the interrupt gate: the flags are remembered
  for \<open>iret\<close>, interrupts are disabled, and the handler runs.
\<close>

definition timer_interrupt :: "kst \<Rightarrow> kst option" where
  "timer_interrupt s = do_handler_time (cli (push_frame (F_iret (eflags s)) s))"

section \<open>Properties\<close>

text \<open>
  \<open>init_pit\<close> programs channel 0 in mode 3 with the divisor 11931, low byte first, so that the timer
  period is 10 ms with an error below one part in ten thousand; it installs the handler at vector 0x20
  and unmasks the timer's line and no other.
\<close>

theorem init_pit_programs:
  "\<exists>s'. init_pit entry s = Some s' \<and>
    take 3 (drop (length (outs s)) (outs s')) = [(0x43, 0x36), (0x40, 0x9B), (0x40, 0x2E)] \<and>
    uint reload_count = 11931 \<and>
    10000 * \<bar>uint reload_count * 1000 - PIT_OSC_FREQ * uint OS_TICKS_MS\<bar> < PIT_OSC_FREQ * uint OS_TICKS_MS \<and>
    gate_offset (idt_table s' 0x20) = entry exc_time \<and>
    (\<forall>i. bit (ports s' PIC0_IMR) i \<longleftrightarrow> bit (ports s PIC0_IMR) i \<and> i \<noteq> 0)"
proof -
  have rc: "reload_count = 11931" by (simp add: reload_count_def PIT_OSC_FREQ_def OS_TICKS_MS_def)
  have imr: "bit (word_of_int (uint x AND - 2) :: uint8_t) i \<longleftrightarrow> bit x i \<and> 0 < i" for x :: uint8_t and i
    using bit_neg_shl [of 0 x i] by simp
  show ?thesis
    by (simp add: init_pit_def Let_def irq_enable_def IRQ0_TIMER_def IRQ_PIC_START_def shl1_def
        irq_install_def IDT_TABLE_NR_def idt_gate_def outb_def inb_def pic_consts pit_consts rc imr
        OS_TICKS_MS_def)
qed

end
