(* ===== verification/Mmu.thy ===== *)
theory Mmu
  imports Byte_Mem Cpu_Instr
begin

text \<open>
  Page directories and page tables: an entry, a union of \<open>src/source/kernel/cpu/mmu.h\<close>, is a 32-bit word
  from which its bit fields are read, and arrays of entries are little-endian words in byte memory.
\<close>

section \<open>Words in memory\<close>

definition load32 :: "mem \<Rightarrow> addr \<Rightarrow> uint32_t" where
  "load32 m p = ucast (m p) OR push_bit 8 (ucast (m (p + 1))) OR push_bit 16 (ucast (m (p + 2)))
     OR push_bit 24 (ucast (m (p + 3)))"

definition word_bytes :: "uint32_t \<Rightarrow> uint8_t list" where
  "word_bytes v = [ucast v, ucast (drop_bit 8 v), ucast (drop_bit 16 v), ucast (drop_bit 24 v)]"

definition store32 :: "addr \<Rightarrow> uint32_t \<Rightarrow> mem \<Rightarrow> mem" where
  "store32 p v m = write_bytes p (word_bytes v) m"

lemma load32_bytes:
  "ucast (ucast v :: uint8_t) OR push_bit 8 (ucast (ucast (drop_bit 8 v) :: uint8_t)) OR
   push_bit 16 (ucast (ucast (drop_bit 16 v) :: uint8_t)) OR
   push_bit 24 (ucast (ucast (drop_bit 24 v) :: uint8_t)) = (v :: uint32_t)"
proof (rule bit_word_eqI)
  fix n :: nat
  assume "n < LENGTH(32)"
  then consider "n < 8" | "8 \<le> n" "n < 16" | "16 \<le> n" "n < 24" | "24 \<le> n" "n < 32" by fastforce
  then show "bit (ucast (ucast v :: uint8_t) OR push_bit 8 (ucast (ucast (drop_bit 8 v) :: uint8_t)) OR
     push_bit 16 (ucast (ucast (drop_bit 16 v) :: uint8_t)) OR
     push_bit 24 (ucast (ucast (drop_bit 24 v) :: uint8_t)) :: uint32_t) n = bit v n"
    by cases (auto simp: bit_simps)
qed

lemma load_store [simp]: "load32 (store32 p v m) p = v"
proof -
  have "bytes_at (store32 p v m) p (word_bytes v)"
    unfolding store32_def by (rule bytes_at_write) (simp add: word_bytes_def)
  then have "store32 p v m p = ucast v" "store32 p v m (p + 1) = ucast (drop_bit 8 v)"
    "store32 p v m (p + 2) = ucast (drop_bit 16 v)" "store32 p v m (p + 3) = ucast (drop_bit 24 v)"
    by (simp_all add: word_bytes_def add.assoc)
  then show ?thesis by (simp add: load32_def load32_bytes)
qed

lemma length_word_bytes [simp]: "length (word_bytes v) = 4"
  by (simp add: word_bytes_def)

lemma store32_other: "a \<notin> span p 4 \<Longrightarrow> store32 p v m a = m a"
  unfolding store32_def by (rule write_bytes_other) (simp add: length_word_bytes)

lemma load32_cong:
  assumes "\<And>a. a \<in> span p 4 \<Longrightarrow> m' a = m a"
  shows "load32 m' p = load32 m p"
proof -
  have "span p 4 = {p, p + 1, p + 2, p + 3}" by (simp add: eval_nat_numeral add.assoc)
  with assms show ?thesis by (simp add: load32_def)
qed

lemma load_store_other: "span p 4 \<inter> span q 4 = {} \<Longrightarrow> load32 (store32 q v m) p = load32 m p"
  by (rule load32_cong, rule store32_other) blast

section \<open>Entries\<close>

definition PDE_CNT :: nat where "PDE_CNT = 1024"
definition PTE_CNT :: nat where "PTE_CNT = 1024"
definition PTE_P :: uint32_t where "PTE_P = push_bit 0 1"
definition PTE_W :: uint32_t where "PTE_W = push_bit 1 1"
definition PDE_P :: uint32_t where "PDE_P = push_bit 0 1"
definition PTE_U :: uint32_t where "PTE_U = push_bit 2 1"
definition PDE_U :: uint32_t where "PDE_U = push_bit 2 1"

text \<open>
  The two unions: the bit fields share their storage with the word, the first member being the lowest bit.
\<close>

record pde_t =
  pde_present :: bool
  pde_write_disable :: bool
  pde_user_mode_acc :: bool
  pde_write_through :: bool
  pde_cache_disable :: bool
  pde_accessed :: bool
  pde_ps :: bool
  phy_pt_addr :: "20 word"

record pte_t =
  pte_present :: bool
  pte_write_disable :: bool
  pte_user_mode_acc :: bool
  pte_write_through :: bool
  pte_cache_disable :: bool
  pte_accessed :: bool
  pte_dirty :: bool
  pte_pat :: bool
  pte_global :: bool
  phy_page_addr :: "20 word"

definition pde_of :: "uint32_t \<Rightarrow> pde_t" where
  "pde_of v =
    \<lparr>pde_present = bit v 0, pde_write_disable = bit v 1, pde_user_mode_acc = bit v 2, pde_write_through = bit v 3,
     pde_cache_disable = bit v 4, pde_accessed = bit v 5, pde_ps = bit v 7, phy_pt_addr = ucast (drop_bit 12 v)\<rparr>"

definition pte_of :: "uint32_t \<Rightarrow> pte_t" where
  "pte_of v =
    \<lparr>pte_present = bit v 0, pte_write_disable = bit v 1, pte_user_mode_acc = bit v 2, pte_write_through = bit v 3,
     pte_cache_disable = bit v 4, pte_accessed = bit v 5, pte_dirty = bit v 6, pte_pat = bit v 7, pte_global = bit v 8,
     phy_page_addr = ucast (drop_bit 12 v)\<rparr>"

text \<open>The test of \<open>present\<close> in a table entry; the field is the same bit in both unions.\<close>

definition entry_present :: "uint32_t \<Rightarrow> bool" where
  "entry_present v \<longleftrightarrow> pte_present (pte_of v)"

definition pde_index :: "uint32_t \<Rightarrow> uint32_t" where
  "pde_index vaddr = drop_bit 22 vaddr"

definition pde_paddr :: "uint32_t \<Rightarrow> uint32_t" where
  "pde_paddr pde = push_bit 12 (ucast (phy_pt_addr (pde_of pde)))"

definition pte_index :: "uint32_t \<Rightarrow> int" where
  "pte_index vaddr = uint (drop_bit 12 vaddr AND 0x3FF)"

definition pte_paddr :: "uint32_t \<Rightarrow> uint32_t" where
  "pte_paddr pte = push_bit 12 (ucast (phy_page_addr (pte_of pte)))"

definition get_pte_perm :: "uint32_t \<Rightarrow> uint32_t" where
  "get_pte_perm pte = pte AND 0x1FF"

definition mmu_set_page_dir :: "uint32_t \<Rightarrow> 'a machine_scheme \<Rightarrow> 'a machine_scheme" where
  "mmu_set_page_dir paddr m = write_cr3 paddr m"

section \<open>Properties\<close>

lemma entry_present_bit: "entry_present v \<longleftrightarrow> bit v 0"
  by (simp add: entry_present_def pte_of_def)

lemma pde_present_entry [simp]: "pde_present (pde_of v) = entry_present v"
  by (simp add: entry_present_bit pde_of_def)

lemma field_20: "(ucast (ucast (drop_bit 12 v) :: 20 word) :: uint32_t) = drop_bit 12 v"
  by (rule bit_word_eqI) (auto simp: bit_simps dest: bit_imp_le_length)

lemma pde_paddr_shift: "pde_paddr v = push_bit 12 (drop_bit 12 v)"
  and pte_paddr_shift: "pte_paddr v = push_bit 12 (drop_bit 12 v)"
  by (simp_all add: pde_paddr_def pte_paddr_def pde_of_def pte_of_def field_20)

lemma bits_0x3FF: "(0x3FF :: uint32_t) = mask 10"
  by (simp add: mask_eq_exp_minus_1)

lemma unat_pde_index: "unat (pde_index v) = unat v div 2 ^ 22"
  unfolding pde_index_def by (subst unat_drop_bit_eq) (simp add: drop_bit_eq_div)

lemma pte_index_eq: "pte_index v = int (unat v div 2 ^ 12 mod 2 ^ 10)"
proof -
  have "drop_bit 12 v AND 0x3FF = take_bit 10 (drop_bit 12 v)"
    by (simp only: bits_0x3FF take_bit_eq_mask)
  then have "unat (drop_bit 12 v AND 0x3FF) = unat v div 2 ^ 12 mod 2 ^ 10"
    by (simp add: take_bit_eq_mod drop_bit_eq_div unat_mod unat_div)
  then show ?thesis by (simp add: pte_index_def uint_nat)
qed

text \<open>
  The two indices and the page offset determine a virtual address: each index is below 1024, and
  the address is the index of its 4 MiB region, the index of its page in that region and its offset
  put together, so two addresses share both indices exactly when they lie in the same page.
\<close>

theorem vaddr_split:
  "unat (pde_index v) < 1024 \<and> 0 \<le> pte_index v \<and> pte_index v < 1024 \<and>
   int (unat v) = int (unat (pde_index v)) * 2 ^ 22 + pte_index v * 2 ^ 12 + int (unat v mod 2 ^ 12) \<and>
   (pde_index v = pde_index w \<and> pte_index v = pte_index w \<longleftrightarrow> unat v div 2 ^ 12 = unat w div 2 ^ 12)"
proof -
  have lt: "unat v < 2 ^ LENGTH(32)" by (rule unsigned_less)
  have hi: "unat x div 2 ^ 22 = unat x div 2 ^ 12 div 2 ^ 10" for x :: uint32_t
    by (simp add: div_mult2_eq)
  have split: "unat v = unat v div 2 ^ 22 * 2 ^ 22 + (unat v div 2 ^ 12 mod 2 ^ 10) * 2 ^ 12 + unat v mod 2 ^ 12"
  proof -
    have "x = q * 4096 + r \<Longrightarrow> q = d * 1024 + k \<Longrightarrow> x = d * 4194304 + k * 4096 + r" for x q r d k :: nat
      by simp
    from this [OF div_mult_mod_eq [symmetric] div_mult_mod_eq [symmetric]] show ?thesis
      unfolding hi by simp
  qed
  have "pde_index v = pde_index w \<longleftrightarrow> unat v div 2 ^ 12 div 2 ^ 10 = unat w div 2 ^ 12 div 2 ^ 10"
    unfolding hi [symmetric] unat_pde_index [symmetric] by (simp add: word_unat_eq_iff)
  then have same: "pde_index v = pde_index w \<and> pte_index v = pte_index w \<longleftrightarrow> unat v div 2 ^ 12 = unat w div 2 ^ 12"
    unfolding pte_index_eq by (metis div_mult_mod_eq of_nat_eq_iff)
  have "int (unat v) = int (unat (pde_index v)) * 2 ^ 22 + pte_index v * 2 ^ 12 + int (unat v mod 2 ^ 12)"
    unfolding unat_pde_index pte_index_eq by (subst split) simp
  moreover have "unat (pde_index v) < 1024" unfolding unat_pde_index using lt by simp
  moreover have "0 \<le> pte_index v" "pte_index v < 1024" unfolding pte_index_eq by simp_all
  ultimately show ?thesis using same by blast
qed

text \<open>
  A page-table entry made from a page-aligned physical address and permission bits gives both back,
  and is present.
\<close>

theorem pte_roundtrip:
  assumes "paddr AND 0xFFF = 0" and "perm AND NOT 0x1FF = 0"
  shows "pte_paddr (paddr OR perm OR PTE_P) = paddr \<and>
    get_pte_perm (paddr OR perm OR PTE_P) = perm OR PTE_P \<and> entry_present (paddr OR perm OR PTE_P)"
proof -
  have lo: "\<not> bit paddr n" if "n < 12" for n
  proof -
    have "bit (paddr AND mask 12) n = bit paddr n" using that by (auto simp: bit_simps)
    then show ?thesis using assms(1) by (simp add: mask_eq_exp_minus_1)
  qed
  have hi: "\<not> bit perm n" if "9 \<le> n" for n
  proof (cases "n < 32")
    case True
    have "bit (perm AND NOT (mask 9)) n = bit perm n" using that True by (auto simp: bit_simps)
    then show ?thesis using assms(2) by (simp add: mask_eq_exp_minus_1)
  qed (auto dest: bit_imp_le_length)
  have "pte_paddr (paddr OR perm OR PTE_P) = paddr"
    unfolding pte_paddr_shift PTE_P_def
  proof (rule bit_word_eqI)
    fix n :: nat
    assume "n < LENGTH(32)"
    then show "bit (push_bit 12 (drop_bit 12 (paddr OR perm OR push_bit 0 1))) n = bit paddr n"
      using lo [of n] hi [of n] by (cases "n < 12") (auto simp: bit_simps bit_1_iff)
  qed
  moreover have "(paddr OR perm OR PTE_P) AND mask 9 = perm OR PTE_P"
    unfolding PTE_P_def
    using lo hi by (intro bit_word_eqI) (auto simp: bit_simps bit_1_iff, meson leI)
  moreover have "entry_present (paddr OR perm OR PTE_P)"
    by (simp add: entry_present_bit PTE_P_def bit_simps)
  ultimately show ?thesis by (simp add: get_pte_perm_def mask_eq_exp_minus_1)
qed

theorem pte_roundtrip_witness:
  "pte_paddr (0x12345000 OR PTE_W OR PTE_P) = 0x12345000 \<and> get_pte_perm (0x12345000 OR PTE_W OR PTE_P) = 3"
  using pte_roundtrip [of "0x12345000" PTE_W] by (simp add: PTE_W_def PTE_P_def)

end
