(* ===== verification/Task_Create.thy ===== *)
theory Task_Create
  imports Timer Mmu
begin

text \<open>
  Creation of tasks: \<open>gdt_alloc_desc\<close> and \<open>cpu_init\<close> of \<open>src/source/kernel/cpu/cpu.c\<close>, and \<open>tss_init\<close>,
  \<open>task_init\<close>, \<open>task_manager_init\<close> and \<open>task_first_init\<close> of \<open>src/source/kernel/core/task.c\<close>.
  \<open>task_init\<close> takes and releases the mutex of the descriptor table, and either may switch tasks: the
  function is cut there, and the pieces are \<open>task_init\<close> itself, \<open>gdt_scan_piece\<close> (the search of
  \<open>gdt_alloc_desc\<close> and its unlock), \<open>tss_fill\<close> (the rest of \<open>tss_init\<close>) and \<open>task_rest\<close>.  The callers of
  \<open>task_init\<close> go on in \<open>task_manager_end\<close>, \<open>task_first_rest\<close> and \<open>task_first_end\<close>.
\<close>

section \<open>The descriptor table\<close>

definition init_gdt :: "uint32_t \<Rightarrow> 'a kcpu_scheme \<Rightarrow> 'a kcpu_scheme" where
  "init_gdt gdt_addr s =
    lgdt gdt_addr (word_of_int (GDT_TABLE_SIZE * sizeof_segment_desc_t))
      (s\<lparr>gdt_table := init_gdt_table (gdt_table s)\<rparr>)"

definition cpu_init :: "uint32_t \<Rightarrow> kst \<Rightarrow> kst" where
  "cpu_init gdt_addr s = init_gdt gdt_addr (mutex_init gdt_mutex s)"

section \<open>Assertions\<close>

text \<open>
  \<open>panic\<close>: two messages, then \<open>hlt\<close> again and again.  An assertion passes the addresses of
  three string literals and the line number.
\<close>

type_synonym assert_site = "addr \<times> int \<times> addr \<times> addr"

definition panic_fmt1 :: "uint8_t list" where
  "panic_fmt1 = map of_char ''assert failed! %s''"

definition panic_fmt2 :: "uint8_t list" where
  "panic_fmt2 = map of_char ''file:%s\<newline>,line:%d\<newline>,func:%s''"

definition panic :: "assert_site \<Rightarrow> kst \<Rightarrow> kst" where
  "panic = (\<lambda>(file, line, func, cond) s.
    push_frame (F_printf panic_fmt1 [VPtr cond])
      (push_frame (F_printf panic_fmt2 [VPtr file, VInt line, VPtr func]) (push_frame F_hang s)))"

section \<open>Pieces of task creation\<close>

definition zero_tss :: tss_t where
  "zero_tss =
    \<lparr>tss_pre_link = 0, tss_esp0 = 0, tss_ss0 = 0, tss_esp1 = 0, tss_ss1 = 0, tss_esp2 = 0,
     tss_ss2 = 0, tss_cr3 = 0, tss_eip = 0, tss_eflags = 0, tss_eax = 0, tss_ecx = 0,
     tss_edx = 0, tss_ebx = 0, tss_esp = 0, tss_ebp = 0, tss_esi = 0, tss_edi = 0, tss_es = 0,
     tss_cs = 0, tss_ss = 0, tss_ds = 0, tss_fs = 0, tss_gs = 0, tss_ldt = 0, tss_iomap = 0\<rparr>"

definition start_tss :: "uint32_t \<Rightarrow> uint32_t \<Rightarrow> tss_t" where
  "start_tss entry esp =
    zero_tss\<lparr>tss_eip := entry, tss_esp0 := esp, tss_esp := esp,
      tss_ss0 := word_of_int KERNEL_SELECTOR_DS, tss_ss := word_of_int KERNEL_SELECTOR_DS,
      tss_gs := word_of_int KERNEL_SELECTOR_DS, tss_fs := word_of_int KERNEL_SELECTOR_DS,
      tss_ds := word_of_int KERNEL_SELECTOR_DS, tss_es := word_of_int KERNEL_SELECTOR_DS,
      tss_cs := word_of_int KERNEL_SELECTOR_CS, tss_eflags := EFLAGS_DEFAULT OR EFLAGS_IF\<rparr>"

text \<open>\<open>task_init\<close> up to the lock inside \<open>gdt_alloc_desc\<close>; a null pointer fails the assertion.\<close>

definition task_init :: "assert_site \<Rightarrow> addr \<Rightarrow> uint32_t \<Rightarrow> uint32_t \<Rightarrow> addr \<Rightarrow> kst \<Rightarrow> kst" where
  "task_init site task entry esp name s =
    (let s1 = push_frame (F_gdt_scan task entry esp name) s
     in if task = NULL then panic site s1 else mutex_lock gdt_mutex s1)"

definition gdt_scan_piece :: "addr \<Rightarrow> uint32_t \<Rightarrow> uint32_t \<Rightarrow> addr \<Rightarrow> kst \<Rightarrow> kst" where
  "gdt_scan_piece task entry esp name s =
    mutex_unlock gdt_mutex (push_frame (F_tss_fill (gdt_scan 1 (gdt_table s)) task entry esp name) s)"

definition alloc_failed_msg :: "uint8_t list" where
  "alloc_failed_msg = map of_char ''alloc tss failed'' @ [10]"

definition tss_fill :: "int \<Rightarrow> addr \<Rightarrow> uint32_t \<Rightarrow> uint32_t \<Rightarrow> addr \<Rightarrow> kst \<Rightarrow> kst" where
  "tss_fill sel task entry esp name s =
    (let s1 = push_frame (F_task_rest task name) s
     in if sel < 0 then push_frame (F_printf alloc_failed_msg []) s1
        else
          let s2 = s1\<lparr>gdt_table := segment_desc_set sel (task + off_tss) sizeof_tss_t
                        (SEG_P_PRESENT OR SEG_DPL0 OR SEG_TYPE_TSS) (gdt_table s1)\<rparr>
          in upd_task task (\<lambda>t. t\<lparr>tss := start_tss entry esp, tss_sel := sel\<rparr>) s2)"

definition task_rest :: "addr \<Rightarrow> addr \<Rightarrow> kst \<Rightarrow> kst option" where
  "task_rest task name s =
    map_option
      (\<lambda>m. let s1 = s\<lparr>kmem := m\<rparr>;
               s2 = upd_task task (\<lambda>t. t\<lparr>tstate := TASK_CREATED, sleep_ticks := 0,
                      time_ticks := TASK_TIME_SLICE_DEFAULT, slice_ticks := TASK_TIME_SLICE_DEFAULT\<rparr>) s1;
               s3 = s2\<lparr>nodes := list_node_init (wait_node task)
                      (list_node_init (run_node task) (list_node_init (all_node task) (nodes s2)))\<rparr>;
               (state, s4) = irq_enter_protection s3;
               s5 = task_set_ready task s4;
               (l, h) = list_insert_last (task_list s5) (all_node task) (nodes s5);
               s6 = s5\<lparr>task_list := l, nodes := h\<rparr>
           in irq_leave_protection state s6)
      (kernel_strncpy (task + off_name) name TASK_NAME_SIZE (kmem s))"

section \<open>The first tasks\<close>

text \<open>
  The addresses of the code and the stack of the idle task and of the two names are parameters, as the
  linker chooses them.
\<close>

definition task_manager_init :: "assert_site \<Rightarrow> uint32_t \<Rightarrow> uint32_t \<Rightarrow> addr \<Rightarrow> kst \<Rightarrow> kst" where
  "task_manager_init site idle_task_entry idle_stack_top name s =
    (let s1 = s\<lparr>ready_list := list_init, task_list := list_init, sleep_list := list_init\<rparr>
     in task_init site (idle_task s1) idle_task_entry idle_stack_top name (push_frame F_manager_end s1))"

definition task_manager_end :: "kst \<Rightarrow> kst" where
  "task_manager_end s = s\<lparr>curr_task := NULL\<rparr>"

definition task_first_init :: "assert_site \<Rightarrow> addr \<Rightarrow> kst \<Rightarrow> kst" where
  "task_first_init site name s = task_init site (first_task s) 0 0 name (push_frame F_first_rest s)"

definition first_fmt :: "uint8_t list" where
  "first_fmt = map of_char ''first_task_init slice_ticks: %d''"

definition task_first_rest :: "kst \<Rightarrow> kst" where
  "task_first_rest s =
    (let first = tasks s (first_task s);
         s1 = write_tr (word_of_int (tss_sel first)) s
     in push_frame (F_printf first_fmt [VInt (slice_ticks first)]) (push_frame F_first_end s1))"

definition task_first_end :: "kst \<Rightarrow> kst" where
  "task_first_end s =
    (let s1 = s\<lparr>curr_task := first_task s\<rparr>
     in mmu_set_page_dir (tss_cr3 (tss (tasks s1 (first_task s1)))) s1)"

end
