(* ===== verification/Kernel_Machine.thy ===== *)
theory Kernel_Machine
  imports Scheduler_Props Ipc_Props Task_Create
begin

text \<open>
  The running kernel as a state machine.  A step is the next piece of kernel code of the running task,
  a timer interrupt while interrupts are enabled, or a call of the kernel's interface by a task that
  runs its own code.  The invariant of the reachable states covers the scheduler, every mutex and
  semaphore, and the log: only the owner of the log's mutex writes to the serial port.

  The parameters are \<open>buf\<close>, which gives the address of the message buffer on the stack of each task,
  and \<open>lsr\<close>, the values read from the line status register of the serial port (see \<open>Log\<close>).
\<close>

section \<open>Steps\<close>

definition dispatch_fmt :: "uint8_t list" where
  "dispatch_fmt = map of_char ''Dispatching task: %s''"

fun run_piece :: "(addr \<Rightarrow> addr) \<Rightarrow> (nat \<Rightarrow> uint8_t) \<Rightarrow> frame \<Rightarrow> kst \<Rightarrow> kst option" where
  "run_piece buf lsr (F_leave state) s = Some (irq_leave_protection state s)"
| "run_piece buf lsr (F_log str) s = Some (log_lock str s)"
| "run_piece buf lsr (F_log_body []) s = Some (log_end s)"
| "run_piece buf lsr (F_log_body (c # cs)) s = log_body lsr c cs s"
| "run_piece buf lsr (F_log_dispatch to) s =
    log_printf (buf (curr_task s)) dispatch_fmt [VPtr (to + off_name)] s"
| "run_piece buf lsr (F_tick_slice t) s = Some (task_time_tick_slice t s)"
| "run_piece buf lsr F_tick_sleep s = task_time_tick_sleep s"
| "run_piece buf lsr (F_iret flags) s = Some (write_eflags flags s)"
| "run_piece buf lsr (F_gdt_scan task entry esp name) s = Some (gdt_scan_piece task entry esp name s)"
| "run_piece buf lsr (F_tss_fill sel task entry esp name) s = Some (tss_fill sel task entry esp name s)"
| "run_piece buf lsr (F_task_rest task name) s = task_rest task name s"
| "run_piece buf lsr F_hang s = hlt timer_interrupt (push_frame F_hang s)"
| "run_piece buf lsr (F_printf fmt args) s = log_printf (buf (curr_task s)) fmt args s"
| "run_piece buf lsr F_manager_end s = Some (task_manager_end s)"
| "run_piece buf lsr (F_first_init site name) s = Some (task_first_init site name s)"
| "run_piece buf lsr F_first_rest s = Some (task_first_rest s)"
| "run_piece buf lsr F_first_end s = Some (task_first_end s)"

definition run_frame :: "(addr \<Rightarrow> addr) \<Rightarrow> (nat \<Rightarrow> uint8_t) \<Rightarrow> kst \<Rightarrow> kst option" where
  "run_frame buf lsr s =
    (case kstack s of [] \<Rightarrow> None | f # fs \<Rightarrow> run_piece buf lsr f (s\<lparr>kstack := fs\<rparr>))"

text \<open>The calls that a task makes.  Its mutexes are not the static ones of the kernel.\<close>

datatype api =
    Yield
  | Sleep uint32_t
  | Lock nat
  | Unlock nat
  | Wait sem_id
  | Notify sem_id
  | Print "uint8_t list"

fun call :: "api \<Rightarrow> kst \<Rightarrow> kst" where
  "call Yield s = sys_sched_yield s"
| "call (Sleep ms) s = sys_sleep ms s"
| "call (Lock n) s = mutex_lock (mutex_obj n) s"
| "call (Unlock n) s = mutex_unlock (mutex_obj n) s"
| "call (Wait k) s = sem_wait k s"
| "call (Notify k) s = sem_notify k s"
| "call (Print str) s = push_frame (F_log str) s"

inductive kstep :: "(addr \<Rightarrow> addr) \<Rightarrow> kst \<Rightarrow> kst \<Rightarrow> bool" for buf where
  piece: "run_frame buf lsr s = Some s' \<Longrightarrow> kstep buf s s'"
| timer: "if_set s \<Longrightarrow> timer_interrupt s = Some s' \<Longrightarrow> kstep buf s s'"
| api_call: "kstack s = [] \<Longrightarrow> curr_task s \<noteq> idle_task s \<Longrightarrow> kstep buf s (call c s)"

inductive_cases kstep_cases: "kstep buf s s'"

section \<open>Stacks\<close>

definition stack_of :: "kst \<Rightarrow> addr \<Rightarrow> frame list" where
  "stack_of s t = (if t = curr_task s then kstack s else saved s t)"

text \<open>The frames that matter to the invariant; a dispatch adds and removes only other ones.\<close>

fun core_frame :: "frame \<Rightarrow> bool" where
  "core_frame (F_leave _) = False"
| "core_frame (F_log _) = False"
| "core_frame (F_log_dispatch _) = False"
| "core_frame F_tick_sleep = False"
| "core_frame (F_iret _) = False"
| "core_frame _ = True"

definition core :: "kst \<Rightarrow> addr \<Rightarrow> frame list" where
  "core s t = filter core_frame (stack_of s t)"

definition same_stacks :: "kst \<Rightarrow> kst \<Rightarrow> bool" where
  "same_stacks s s' \<longleftrightarrow> kstack s' = kstack s \<and> saved s' = saved s \<and> curr_task s' = curr_task s"

lemma core_same: "same_stacks s s' \<Longrightarrow> core s' = core s"
  by (auto simp: same_stacks_def core_def stack_of_def fun_eq_iff)

lemma core_push: "core (push_frame f s) =
    (if core_frame f then (core s)(curr_task s := f # core s (curr_task s)) else core s)"
  by (auto simp: core_def stack_of_def fun_eq_iff)

lemma core_dispatch:
  assumes "sched_pre T s a"
  shows "core (task_dispatch s) = core s"
proof (cases "a_next (idle_task s) a = curr_task s")
  case True
  then show ?thesis
    using task_next_run_rep [OF sched_preD(1,2) [OF assms]] by (simp add: task_dispatch_stay)
next
  case False
  note inv = sched_preD [OF assms]
  note sw = task_dispatch_switch [OF inv(1,2,8,9,3,4) False]
  show ?thesis
    using False task_dispatch_curr [OF inv(1,2)]
    by (auto simp: core_def stack_of_def fun_eq_iff sw)
qed

lemma core_leave_dispatch:
  assumes "sched_pre T s1 a" and "same_stacks s s1"
  shows "core (task_dispatch (push_frame (F_leave st) s1)) = core s"
  using core_dispatch [of T "push_frame (F_leave st) s1" a] assms core_same [OF assms(2)]
  by (simp add: core_push)

text \<open>
  The shape of an operation of the kernel: it leaves the stacks alone, or it ends with a dispatch after
  which the interrupt flag is to be restored.
\<close>

definition same_tss :: "kst \<Rightarrow> kst \<Rightarrow> bool" where
  "same_tss s s' \<longleftrightarrow> idle_task s' = idle_task s \<and> gdt_table s' = gdt_table s \<and> tr s' = tr s \<and>
    (\<forall>t. tss_sel (tasks s' t) = tss_sel (tasks s t))"

definition op_shape :: "kst \<Rightarrow> kst \<Rightarrow> bool" where
  "op_shape s s' \<longleftrightarrow> same_stacks s s' \<or>
    (\<exists>s1 f. s' = task_dispatch (push_frame f s1) \<and> \<not> core_frame f \<and> same_stacks s s1 \<and> same_tss s s1)"

lemma sched_pre_before_dispatch:
  assumes "sched_pre T s a" and "sched_pre T (task_dispatch s1) a'" and "curr_task s1 = curr_task s"
    and "same_tss s s1"
  shows "sched_pre T s1 a'"
proof -
  note inv = sched_preD [OF assms(1)] and post = sched_preD [OF assms(2)]
  have "qrep T s1 a'" using post(2) by (rule qrep_cong) simp_all
  then show ?thesis
    using inv post assms(3,4) tss_ok_cong [of s1 s T] tr_ok_cong [of s1 s]
    by (simp add: sched_pre_def same_tss_def)
qed

lemma core_shape:
  assumes "sched_pre T s a" and "sched_pre T s' a'" and "op_shape s s'"
  shows "core s' = core s"
proof (cases "same_stacks s s'")
  case True
  then show ?thesis by (rule core_same)
next
  case False
  with assms(3) obtain s1 f where s1: "s' = task_dispatch (push_frame f s1)" "\<not> core_frame f"
    "same_stacks s s1" "same_tss s s1" unfolding op_shape_def by blast
  have post: "sched_pre T (task_dispatch (push_frame f s1)) a'" using assms(2) s1(1) by simp
  have cur: "curr_task (push_frame f s1) = curr_task s" using s1(3) by (simp add: same_stacks_def)
  have "same_tss s (push_frame f s1)" using s1(4) by (simp add: same_tss_def)
  from core_dispatch [OF sched_pre_before_dispatch [OF assms(1) post cur this]] s1(1,2) core_same [OF s1(3)] show ?thesis by (simp add: core_push)
qed

lemmas shape_defs = op_shape_def same_stacks_def same_tss_def

lemma shape_dispatch:
  "\<not> core_frame f \<Longrightarrow> same_stacks s s1 \<Longrightarrow> same_tss s s1 \<Longrightarrow> op_shape s (task_dispatch (push_frame f s1))"
  unfolding op_shape_def by blast

lemma shape_yield: "op_shape s (sys_sched_yield s)"
proof (cases "list_count (ready_list s) > 1")
  case True
  then show ?thesis
    by (simp add: sys_sched_yield_def Let_def)
      (rule shape_dispatch, simp_all add: same_stacks_def same_tss_def set_state_def)
qed (simp add: sys_sched_yield_def shape_defs)

lemma shape_sleep: "op_shape s (sys_sleep ms s)"
  unfolding sys_sleep_eq
  by (rule shape_dispatch) (simp_all add: same_stacks_def same_tss_def task_set_sleep_def Let_def split: prod.split)

lemma shape_lock: "op_shape s (mutex_lock m s)"
proof (cases "contended s m")
  case True
  then show ?thesis
    by (simp add: mutex_lock_def contended_def task_current_def Let_def case_prod_beta)
      (rule shape_dispatch, simp_all add: same_stacks_def same_tss_def)
next
  case False
  then show ?thesis
    by (auto simp: mutex_lock_def contended_def task_current_def Let_def shape_defs)
qed

lemma shape_unlock: "op_shape s (mutex_unlock m s)"
proof (cases "mowner (mutexes s m) = curr_task s \<and> locked_count (mutexes s m) = 1 \<and>
    list_count (mwait_list (mutexes s m)) \<noteq> 0")
  case True
  then show ?thesis
    by (simp add: mutex_unlock_def task_current_def Let_def case_prod_beta)
      (rule shape_dispatch, simp_all add: same_stacks_def same_tss_def set_state_def)
next
  case False
  then show ?thesis
    by (auto simp: mutex_unlock_def task_current_def Let_def shape_defs)
qed

lemma shape_wait: "op_shape s (sem_wait k s)"
proof (cases "scount (sems s k) > 0")
  case False
  then show ?thesis
    by (simp add: sem_wait_def task_current_def Let_def case_prod_beta)
      (rule shape_dispatch, simp_all add: same_stacks_def same_tss_def)
qed (simp add: sem_wait_def shape_defs)

lemma shape_notify: "op_shape s (sem_notify k s)"
proof (cases "list_count (swait_list (sems s k)) = 0")
  case False
  then show ?thesis
    by (simp add: sem_notify_def Let_def case_prod_beta)
      (rule shape_dispatch, simp_all add: same_stacks_def same_tss_def set_state_def)
qed (simp add: sem_notify_def shape_defs)

lemma shape_slice: "op_shape s (task_time_tick_slice t s)"
  unfolding task_time_tick_slice_def Let_def
  by (rule shape_dispatch) (simp_all add: same_stacks_def same_tss_def set_state_def)

section \<open>The invariant\<close>

fun is_log_body :: "frame \<Rightarrow> bool" where
  "is_log_body (F_log_body _) = True"
| "is_log_body _ = False"

definition nlog :: "frame list \<Rightarrow> int" where
  "nlog fs = int (length (filter is_log_body fs))"

lemma nlog_simps [simp]:
  "nlog [] = 0" "nlog (f # fs) = (if is_log_body f then nlog fs + 1 else nlog fs)"
  by (simp_all add: nlog_def)

lemma nlog_nonneg [simp]: "0 \<le> nlog fs"
  by (simp add: nlog_def)

text \<open>
  A task has entered the log's mutex as often as it has messages under way, not counting the one it is
  waiting to begin.
\<close>

definition log_ok :: "(addr \<Rightarrow> frame list) \<Rightarrow> alock \<Rightarrow> bool" where
  "log_ok c L \<longleftrightarrow> (\<forall>t. nlog (c t) =
    (if holder L = t then depth L else 0) + (if t \<in> set (lwaiters L) then 1 else 0))"

text \<open>The only other frames that matter end the time slice of the task they belong to.\<close>

fun clean_frame :: "addr \<Rightarrow> frame \<Rightarrow> bool" where
  "clean_frame u (F_log_body _) = True"
| "clean_frame u (F_tick_slice t) = (t = u)"
| "clean_frame u _ = False"

definition clean :: "(addr \<Rightarrow> frame list) \<Rightarrow> bool" where
  "clean c \<longleftrightarrow> (\<forall>u. list_all (clean_frame u) (c u))"

text \<open>The owner of the log's mutex can run: it is ready, or it is the idle task.\<close>

definition owner_ready :: "kst \<Rightarrow> queues \<Rightarrow> bool" where
  "owner_ready s a \<longleftrightarrow> (locked_count (mutexes s log_mutex) \<noteq> 0 \<longrightarrow>
    mowner (mutexes s log_mutex) = idle_task s \<or> mowner (mutexes s log_mutex) \<in> set (a Q_ready))"

definition sync_ok :: "kst \<Rightarrow> queues \<Rightarrow> bool" where
  "sync_ok s a \<longleftrightarrow> (\<forall>m. mutex_ok s a m) \<and> (\<forall>k. asem_ok (asem_of s a k))"

definition kernel_inv :: "addr set \<Rightarrow> kst \<Rightarrow> queues \<Rightarrow> bool" where
  "kernel_inv T s a \<longleftrightarrow> sched_inv T s a \<and> sync_ok s a \<and> clean (core s) \<and>
    log_ok (core s) (alock_of s a log_mutex) \<and> owner_ready s a"

lemma kernel_invD:
  assumes "kernel_inv T s a"
  shows "sched_inv T s a" "sync_ok s a" "clean (core s)" "log_ok (core s) (alock_of s a log_mutex)"
    "owner_ready s a"
  using assms by (simp_all add: kernel_inv_def)

subsection \<open>Locking and unlocking the log\<close>

lemma log_ok_lock:
  assumes "log_ok c L" and "alock_ok L" and "t \<notin> set (lwaiters L)"
  shows "log_ok (c(t := F_log_body x # c t)) (a_lock t L)"
  unfolding log_ok_def
proof
  fix u
  have u: "nlog (c u) = (if holder L = u then depth L else 0) + (if u \<in> set (lwaiters L) then 1 else 0)"
    using assms(1) by (simp add: log_ok_def)
  show "nlog ((c(t := F_log_body x # c t)) u) = (if holder (a_lock t L) = u then depth (a_lock t L) else 0) +
      (if u \<in> set (lwaiters (a_lock t L)) then 1 else 0)"
  proof (cases "depth L = 0")
    case True
    then have "lwaiters L = []" using assms(2) by (simp add: alock_ok_def)
    with True u show ?thesis by (auto simp: a_lock_def)
  next
    case False
    with u assms(3) show ?thesis by (auto simp: a_lock_def)
  qed
qed

lemma log_owner:
  assumes "log_ok c L" and "t \<notin> set (lwaiters L)" and "0 < nlog (c t)"
  shows "holder L = t" "depth L = nlog (c t)"
proof -
  have "nlog (c t) = (if holder L = t then depth L else 0)" using assms(1,2) by (simp add: log_ok_def)
  with assms(3) show "holder L = t" "depth L = nlog (c t)" by (auto split: if_splits)
qed

lemma log_ok_unlock:
  assumes "log_ok c L" and "alock_ok L" and "t \<notin> set (lwaiters L)" and ct: "c t = F_log_body x # fs"
  shows "log_ok (c(t := fs)) (a_unlock t L)"
  unfolding log_ok_def
proof
  fix u
  note own = log_owner [OF assms(1,3)]
  have h: "holder L = t" "depth L = nlog fs + 1" using own ct by simp_all
  have all: "nlog (c u) = (if holder L = u then depth L else 0) + (if u \<in> set (lwaiters L) then 1 else 0)" for u
    using assms(1) by (simp add: log_ok_def)
  show "nlog ((c(t := fs)) u) = (if holder (a_unlock t L) = u then depth (a_unlock t L) else 0) +
      (if u \<in> set (lwaiters (a_unlock t L)) then 1 else 0)"
  proof (cases "depth L = 1")
    case False
    with h all [of u] assms(3) show ?thesis by (auto simp: a_unlock_def)
  next
    case one: True
    then have z: "nlog fs = 0" using h by simp
    show ?thesis
    proof (cases "lwaiters L")
      case Nil
      with one h z all [of u] show ?thesis by (auto simp: a_unlock_def)
    next
      case (Cons w ws)
      have "w \<noteq> t" "w \<notin> set ws" using Cons assms(2,3) by (auto simp: alock_ok_def)
      with one h z Cons all [of u] assms(3) show ?thesis by (auto simp: a_unlock_def)
    qed
  qed
qed

subsection \<open>Steps that leave the log alone\<close>

lemma sync_ok_cong:
  "mutexes s' = mutexes s \<Longrightarrow> sems s' = sems s \<Longrightarrow> (\<And>m. a' (Q_mutex m) = a (Q_mutex m)) \<Longrightarrow>
   (\<And>k. a' (Q_sem k) = a (Q_sem k)) \<Longrightarrow> sync_ok s' a' = sync_ok s a"
  by (simp add: sync_ok_def mutex_ok_def alock_of_def asem_of_def)

lemma kernel_inv_change:
  assumes inv: "kernel_inv T s a" and "sched_inv T s' a'" and "sync_ok s' a'" and core: "core s' = core s"
    and log: "mutexes s' log_mutex = mutexes s log_mutex" "a' (Q_mutex log_mutex) = a (Q_mutex log_mutex)"
    and idle: "idle_task s' = idle_task s"
    and keep: "\<And>t. t \<in> set (a Q_ready) \<Longrightarrow> 0 < nlog (core s t) \<Longrightarrow> t \<in> set (a' Q_ready)"
  shows "kernel_inv T s' a'"
proof -
  note I = kernel_invD [OF inv]
  have same: "alock_of s' a' log_mutex = alock_of s a log_mutex" using log by (simp add: alock_of_def)
  have "owner_ready s' a'"
    unfolding owner_ready_def log(1) idle
  proof
    assume nz: "locked_count (mutexes s log_mutex) \<noteq> 0"
    let ?o = "mowner (mutexes s log_mutex)"
    have "mutex_ok s a log_mutex" using I(2) by (simp add: sync_ok_def)
    then have "0 < locked_count (mutexes s log_mutex)"
      using nz by (simp add: mutex_ok_def alock_ok_def alock_of_def)
    moreover have "nlog (core s ?o) = locked_count (mutexes s log_mutex) +
        (if ?o \<in> set (a (Q_mutex log_mutex)) then 1 else 0)"
      using I(4) by (simp add: log_ok_def alock_of_def)
    ultimately have "0 < nlog (core s ?o)" by simp
    with nz I(5) keep [of ?o] show "?o = idle_task s \<or> ?o \<in> set (a' Q_ready)"
      by (auto simp: owner_ready_def)
  qed
  with I assms(2,3) core same show ?thesis by (simp add: kernel_inv_def)
qed

text \<open>Steps that change neither queues nor objects.\<close>

lemma kernel_inv_cong:
  assumes inv: "kernel_inv T s a" and core: "core s' = core s"
    and "nodes s' = nodes s" "list_of s' = list_of s" "idle_task s' = idle_task s"
      "curr_task s' = curr_task s" "gdt_table s' = gdt_table s" "tr s' = tr s"
      "\<And>t. tss_sel (tasks s' t) = tss_sel (tasks s t)" "mutexes s' = mutexes s" "sems s' = sems s"
  shows "kernel_inv T s' a"
proof (rule kernel_inv_change [OF inv _ _ core])
  have "sched_pre T s' a"
    using sched_invD(1) [OF kernel_invD(1) [OF inv]] by (rule sched_pre_cong) (rule assms)+
  then show "sched_inv T s' a"
    using sched_invD(2) [OF kernel_invD(1) [OF inv]] assms(5,6) by (simp add: sched_inv_def)
  show "sync_ok s' a" using kernel_invD(2) [OF inv] assms(10,11) by (subst sync_ok_cong [of s' s]) simp_all
qed (use assms in simp_all)

lemma curr_nlog_zero:
  assumes "kstack s = []"
  shows "nlog (core s (curr_task s)) = 0"
  using assms by (simp add: core_def stack_of_def)

lemma yield_frame [simp]: "mutexes (sys_sched_yield s) = mutexes s" "sems (sys_sched_yield s) = sems s"
  "idle_task (sys_sched_yield s) = idle_task s"
  by (simp_all add: sys_sched_yield_def Let_def)

lemma sys_sleep_frame [simp]: "mutexes (sys_sleep ms s) = mutexes s" "sems (sys_sleep ms s) = sems s"
  "idle_task (sys_sleep ms s) = idle_task s"
  by (simp_all add: sys_sleep_eq)

lemma mutex_lock_frame [simp]: "sems (mutex_lock m s) = sems s" "idle_task (mutex_lock m s) = idle_task s"
  by (simp_all add: mutex_lock_def Let_def split: prod.split)

lemma mutex_unlock_frame [simp]: "sems (mutex_unlock m s) = sems s" "idle_task (mutex_unlock m s) = idle_task s"
  by (simp_all add: mutex_unlock_def Let_def split: prod.split)

lemma sem_wait_frame [simp]: "mutexes (sem_wait k s) = mutexes s" "idle_task (sem_wait k s) = idle_task s"
  by (simp_all add: sem_wait_def Let_def split: prod.split)

lemma sem_notify_frame [simp]: "mutexes (sem_notify k s) = mutexes s" "idle_task (sem_notify k s) = idle_task s"
  by (simp_all add: sem_notify_def Let_def split: prod.split)

lemma slice_frame [simp]: "mutexes (task_time_tick_slice t s) = mutexes s"
  "sems (task_time_tick_slice t s) = sems s" "idle_task (task_time_tick_slice t s) = idle_task s"
  by (simp_all add: task_time_tick_slice_def Let_def)

lemma core_of_shape:
  "sched_inv T s a \<Longrightarrow> sched_inv T s' a' \<Longrightarrow> op_shape s s' \<Longrightarrow> core s' = core s"
  using core_shape sched_invD(1) by blast

lemma inv_yield:
  assumes inv: "kernel_inv T s a"
  shows "\<exists>a'. kernel_inv T (sys_sched_yield s) a'"
proof -
  note I = kernel_invD [OF inv]
  let ?a = "a(Q_ready := rotate1 (a Q_ready))"
  have s: "sched_inv T (sys_sched_yield s) ?a" using yield_rotates [OF I(1)] .
  have "kernel_inv T (sys_sched_yield s) ?a"
    by (rule kernel_inv_change [OF inv s _ core_of_shape [OF I(1) s shape_yield]])
      (use I(2) sync_ok_cong [of "sys_sched_yield s" s ?a a] in simp_all)
  then show ?thesis by blast
qed

lemma inv_sleep:
  assumes inv: "kernel_inv T s a" and ni: "curr_task s \<noteq> idle_task s" and k: "kstack s = []"
  shows "\<exists>a'. kernel_inv T (sys_sleep ms s) a'"
proof -
  note I = kernel_invD [OF inv]
  obtain ts where ts: "a Q_ready = curr_task s # ts" using curr_not_idle [OF I(1) ni] .
  let ?a = "if sleep_ticks_of ms = 0 then a_block (idle_task s) (curr_task s) a
     else a_sleep (curr_task s) (a_block (idle_task s) (curr_task s) a)"
  have s: "sched_inv T (sys_sleep ms s) ?a" using sys_sleep_inv [OF I(1) ni] .
  have q: "?a (Q_mutex m) = a (Q_mutex m)" "?a (Q_sem n) = a (Q_sem n)" "?a Q_ready = ts" for m n
    using ni ts by (simp_all add: a_block_def a_sleep_def)
  have "kernel_inv T (sys_sleep ms s) ?a"
  proof (rule kernel_inv_change [OF inv s _ core_of_shape [OF I(1) s shape_sleep]])
    show "sync_ok (sys_sleep ms s) ?a" using I(2) sync_ok_cong [of "sys_sleep ms s" s ?a a] q by simp
    show "t \<in> set (?a Q_ready)" if "t \<in> set (a Q_ready)" "0 < nlog (core s t)" for t
      using that curr_nlog_zero [OF k] ts q(3) by auto
  qed (use q in simp_all)
  then show ?thesis by blast
qed

lemma inv_lock:
  assumes inv: "kernel_inv T s a" and ni: "curr_task s \<noteq> idle_task s" and k: "kstack s = []"
  shows "\<exists>a'. kernel_inv T (mutex_lock (mutex_obj n) s) a'"
proof -
  note I = kernel_invD [OF inv]
  let ?m = "mutex_obj n" let ?a = "q_lock s ?m a" and ?s = "mutex_lock ?m s"
  obtain ts where ts: "a Q_ready = curr_task s # ts" using curr_not_idle [OF I(1) ni] .
  have c: "contended s ?m \<longrightarrow> curr_task s \<noteq> idle_task s" using ni by simp
  have s: "sched_inv T ?s ?a" using mutex_lock_refines(1) [OF I(1) c] .
  have "kernel_inv T ?s ?a"
  proof (rule kernel_inv_change [OF inv s _ core_of_shape [OF I(1) s shape_lock]])
    have "mutex_ok ?s ?a m" for m using mutex_lock_ok [OF I(1) c] I(2) by (simp add: sync_ok_def)
    moreover have "asem_of ?s ?a j = asem_of s a j" for j by (simp add: asem_of_def q_lock_def)
    ultimately show "sync_ok ?s ?a" using I(2) by (simp add: sync_ok_def)
    show "t \<in> set (?a Q_ready)" if "t \<in> set (a Q_ready)" "0 < nlog (core s t)" for t
      using that curr_nlog_zero [OF k] ts by (auto simp: q_lock_def)
  qed (simp_all add: mutex_lock_other q_lock_def)
  then show ?thesis by blast
qed

lemma inv_unlock:
  assumes inv: "kernel_inv T s a"
  shows "\<exists>a'. kernel_inv T (mutex_unlock (mutex_obj n) s) a'"
proof -
  note I = kernel_invD [OF inv]
  let ?m = "mutex_obj n" let ?a = "q_unlock s ?m a" and ?s = "mutex_unlock ?m s"
  have s: "sched_inv T ?s ?a" using mutex_unlock_refines(1) [OF I(1)] .
  have "kernel_inv T ?s ?a"
  proof (rule kernel_inv_change [OF inv s _ core_of_shape [OF I(1) s shape_unlock]])
    have "mutex_ok ?s ?a m" for m using mutex_unlock_ok [OF I(1)] I(2) by (simp add: sync_ok_def)
    moreover have "asem_of ?s ?a j = asem_of s a j" for j by (simp add: asem_of_def q_unlock_def)
    ultimately show "sync_ok ?s ?a" using I(2) by (simp add: sync_ok_def)
  qed (simp_all add: mutex_unlock_other q_unlock_def)
  then show ?thesis by blast
qed

lemma inv_wait:
  assumes inv: "kernel_inv T s a" and ni: "curr_task s \<noteq> idle_task s" and k: "kstack s = []"
  shows "\<exists>a'. kernel_inv T (sem_wait n s) a'"
proof -
  note I = kernel_invD [OF inv]
  let ?a = "q_wait s n a" and ?s = "sem_wait n s"
  obtain ts where ts: "a Q_ready = curr_task s # ts" using curr_not_idle [OF I(1) ni] .
  have c: "scount (sems s n) > 0 \<or> curr_task s \<noteq> idle_task s" using ni by simp
  have s: "sched_inv T ?s ?a" using sem_wait_refines(1) [OF I(1) c] .
  have "kernel_inv T ?s ?a"
  proof (rule kernel_inv_change [OF inv s _ core_of_shape [OF I(1) s shape_wait]])
    have "asem_ok (asem_of ?s ?a j)" for j
    proof (cases "j = n")
      case True
      then show ?thesis using sem_wait_refines(2) [OF I(1) c] a_wait_ok I(2) by (simp add: sync_ok_def)
    next
      case False
      then have "asem_of ?s ?a j = asem_of s a j" by (simp add: asem_of_def sem_wait_other q_wait_def)
      then show ?thesis using I(2) by (simp add: sync_ok_def)
    qed
    moreover have "mutex_ok ?s ?a m" for m
      using I(2) mutex_ok_cong [of ?s m s ?a a] by (simp add: sync_ok_def q_wait_def)
    ultimately show "sync_ok ?s ?a" by (simp add: sync_ok_def)
    show "t \<in> set (?a Q_ready)" if "t \<in> set (a Q_ready)" "0 < nlog (core s t)" for t
      using that curr_nlog_zero [OF k] ts by (auto simp: q_wait_def)
  qed (simp_all add: q_wait_def)
  then show ?thesis by blast
qed

lemma inv_notify:
  assumes inv: "kernel_inv T s a"
  shows "\<exists>a'. kernel_inv T (sem_notify n s) a'"
proof -
  note I = kernel_invD [OF inv]
  let ?a = "q_notify n a" and ?s = "sem_notify n s"
  have s: "sched_inv T ?s ?a" using sem_notify_refines(1) [OF I(1)] .
  have "kernel_inv T ?s ?a"
  proof (rule kernel_inv_change [OF inv s _ core_of_shape [OF I(1) s shape_notify]])
    have "asem_ok (asem_of ?s ?a j)" for j
    proof (cases "j = n")
      case True
      then show ?thesis using sem_notify_refines(2) [OF I(1)] a_notify_ok I(2) by (simp add: sync_ok_def)
    next
      case False
      then have "asem_of ?s ?a j = asem_of s a j" by (simp add: asem_of_def sem_notify_other q_notify_def)
      then show ?thesis using I(2) by (simp add: sync_ok_def)
    qed
    moreover have "mutex_ok ?s ?a m" for m
      using I(2) mutex_ok_cong [of ?s m s ?a a] by (simp add: sync_ok_def q_notify_def)
    ultimately show "sync_ok ?s ?a" by (simp add: sync_ok_def)
  qed (simp_all add: q_notify_def)
  then show ?thesis by blast
qed

subsection \<open>Pieces of code and the timer\<close>

lemma core_pop:
  assumes "kstack s = f # fs"
  shows "core s = (if core_frame f then (core (s\<lparr>kstack := fs\<rparr>))(curr_task s := f # core (s\<lparr>kstack := fs\<rparr>) (curr_task s))
    else core (s\<lparr>kstack := fs\<rparr>))"
  using assms by (auto simp: core_def stack_of_def fun_eq_iff)

lemma inv_pop:
  assumes "kernel_inv T s a" and "kstack s = f # fs" and "\<not> core_frame f"
  shows "kernel_inv T (s\<lparr>kstack := fs\<rparr>) a"
  using assms(1) by (rule kernel_inv_cong) (use core_pop [OF assms(2)] assms(3) in simp_all)

lemma sched_inv_kstack [simp]: "sched_inv T (s\<lparr>kstack := k\<rparr>) a = sched_inv T s a"
  by (simp add: sched_inv_def)

lemma sync_ok_kstack [simp]: "sync_ok (s\<lparr>kstack := k\<rparr>) a = sync_ok s a"
  by (rule sync_ok_cong) simp_all

lemma core_eflags [simp]: "core (s\<lparr>eflags := x\<rparr>) = core s"
  and core_kmem [simp]: "core (s\<lparr>kmem := m\<rparr>) = core s"
  and core_outb [simp]: "core (outb p c s) = core s"
  and core_cli [simp]: "core (cli s) = core s"
  and core_upd_task [simp]: "core (upd_task t f s) = core s"
  by (simp_all add: core_def stack_of_def fun_eq_iff outb_def cli_def)

lemma inv_eflags: "kernel_inv T s a \<Longrightarrow> kernel_inv T (s\<lparr>eflags := x\<rparr>) a"
  by (erule kernel_inv_cong) simp_all

lemma inv_push: "kernel_inv T s a \<Longrightarrow> \<not> core_frame f \<Longrightarrow> kernel_inv T (push_frame f s) a"
  by (erule kernel_inv_cong) (simp_all add: core_push)

lemma inv_log_printf:
  assumes "kernel_inv T s a" and "log_printf b fmt args s = Some s'"
  shows "kernel_inv T s' a"
proof -
  from assms(2) obtain str m where "s' = push_frame (F_log str) (s\<lparr>kmem := m\<rparr>)"
    by (auto simp: log_printf_def)
  moreover have "kernel_inv T (s\<lparr>kmem := m\<rparr>) a" using assms(1) by (rule kernel_inv_cong) simp_all
  ultimately show ?thesis by (simp add: inv_push)
qed

lemma curr_no_contention:
  assumes inv: "kernel_inv T s a"
  shows "contended s log_mutex \<longrightarrow> curr_task s \<noteq> idle_task s"
proof
  note I = kernel_invD [OF inv]
  assume c: "contended s log_mutex"
  show "curr_task s \<noteq> idle_task s"
  proof
    assume "curr_task s = idle_task s"
    then have "a Q_ready = []" using curr_idle_iff [OF I(1)] by simp
    with I(5) c \<open>curr_task s = idle_task s\<close> show False by (auto simp: owner_ready_def contended_def)
  qed
qed

text \<open>Whoever owns the log's mutex after an attempt to take it can run.\<close>

lemma owner_after_lock:
  assumes inv: "kernel_inv T s a"
    and ref: "alock_of (log_lock str s) (q_lock s log_mutex a) log_mutex = a_lock (curr_task s) (alock_of s a log_mutex)"
  shows "owner_ready (log_lock str s) (q_lock s log_mutex a)"
proof (cases "contended s log_mutex")
  note I = kernel_invD [OF inv]
  case True
  with curr_no_contention [OF inv] obtain ts where "a Q_ready = curr_task s # ts"
    using curr_not_idle [OF I(1)] by metis
  moreover have "mutexes (log_lock str s) log_mutex = (mutexes s log_mutex)
      \<lparr>mwait_list := mwait_list (mutexes (log_lock str s) log_mutex)\<rparr>"
    using ref True by (simp add: log_lock_def alock_of_def a_lock_def contended_def)
  then have "mowner (mutexes (log_lock str s) log_mutex) = mowner (mutexes s log_mutex)"
    "locked_count (mutexes (log_lock str s) log_mutex) = locked_count (mutexes s log_mutex)"
    by (metis mutex_t.select_convs mutex_t.update_convs(3) mutex_t.surjective)+
  ultimately show ?thesis
    using I(5) True by (auto simp: owner_ready_def q_lock_def contended_def log_lock_def)
next
  note I = kernel_invD [OF inv]
  case False
  have "holder (alock_of (log_lock str s) (q_lock s log_mutex a) log_mutex) = curr_task s"
    using ref False by (auto simp: log_lock_def alock_of_def a_lock_def contended_def)
  then have "mowner (mutexes (log_lock str s) log_mutex) = curr_task s" by (simp add: alock_of_def)
  moreover have "curr_task s = idle_task s \<or> curr_task s \<in> set (a Q_ready)"
    using curr_not_idle [OF I(1)] by (metis list.set_intros(1))
  ultimately show ?thesis
    using False by (auto simp: owner_ready_def q_lock_def contended_def log_lock_def)
qed

lemma inv_log_lock:
  assumes inv: "kernel_inv T s a"
  shows "\<exists>a'. kernel_inv T (log_lock str s) a'"
proof -
  note I = kernel_invD [OF inv]
  let ?B = "F_log_body (str @ [13, 10])"
  let ?s1 = "push_frame ?B s" and ?a = "q_lock (push_frame ?B s) log_mutex a"
  have s1: "sched_inv T ?s1 a" using I(1) by (simp add: sched_inv_def)
  have c: "contended ?s1 log_mutex \<longrightarrow> curr_task ?s1 \<noteq> idle_task ?s1"
    using curr_no_contention [OF inv] by (simp add: contended_def)
  note ref = mutex_lock_refines [OF s1 c]
  have qa: "?a = q_lock s log_mutex a" by (simp add: q_lock_def contended_def)
  have sync1: "sync_ok ?s1 a" using I(2) by (subst sync_ok_cong [of _ s]) simp_all
  have core: "core (log_lock str s) = (core s)(curr_task s := ?B # core s (curr_task s))"
    using core_of_shape [OF s1 ref(1) shape_lock] by (simp add: log_lock_def core_push)
  have al: "alock_of ?s1 a log_mutex = alock_of s a log_mutex" by (simp add: alock_of_def)
  have "alock_ok (alock_of s a log_mutex)" using I(2) by (simp add: sync_ok_def mutex_ok_def)
  moreover have "curr_task s \<notin> set (lwaiters (alock_of s a log_mutex))"
    using curr_not_waiting [OF I(1)] by (simp add: alock_of_def off_kind_wait_iff)
  ultimately have "log_ok (core (log_lock str s)) (alock_of (log_lock str s) ?a log_mutex)"
    using log_ok_lock [OF I(4)] ref(2) al core by (simp add: log_lock_def)
  moreover have "sync_ok (log_lock str s) ?a"
  proof -
    have "mutex_ok (log_lock str s) ?a m" for m
      using mutex_lock_ok [OF s1 c] sync1 by (simp add: sync_ok_def log_lock_def)
    moreover have "asem_of (log_lock str s) ?a j = asem_of s a j" for j
      by (simp add: asem_of_def q_lock_def log_lock_def)
    ultimately show ?thesis using I(2) by (simp add: sync_ok_def)
  qed
  moreover have "clean (core (log_lock str s))" using I(3) unfolding core by (simp add: clean_def)
  moreover have "owner_ready (log_lock str s) ?a"
    using owner_after_lock [OF inv, of str] ref(2) al qa by (simp add: log_lock_def)
  ultimately have "kernel_inv T (log_lock str s) ?a"
    using ref(1) by (simp add: kernel_inv_def log_lock_def)
  then show ?thesis by blast
qed

lemma outb_frame [simp]:
  "idle_task (outb p c s) = idle_task s" "curr_task (outb p c s) = curr_task s"
  "mutexes (outb p c s) = mutexes s" "sems (outb p c s) = sems s" "gdt_table (outb p c s) = gdt_table s"
  "tr (outb p c s) = tr s" "kstack (outb p c s) = kstack s" "saved (outb p c s) = saved s"
  "nodes (outb p c s) = nodes s" "tasks (outb p c s) = tasks s" "list_of (outb p c s) = list_of s"
  by (simp_all add: outb_def)

lemma sched_inv_outb [simp]: "sched_inv T (outb p c s) a = sched_inv T s a"
proof -
  have "sched_pre T (outb p c s) a = sched_pre T s a" by (auto elim!: sched_pre_cong)
  then show ?thesis by (simp add: sched_inv_def)
qed

text \<open>Who runs the output loop of the log owns its mutex.\<close>

lemma running_log_owner:
  assumes inv: "kernel_inv T s a" and top: "kstack s = F_log_body str # fs"
  shows "mowner (mutexes s log_mutex) = curr_task s" "0 < locked_count (mutexes s log_mutex)"
proof -
  note I = kernel_invD [OF inv]
  have "curr_task s \<notin> set (lwaiters (alock_of s a log_mutex))"
    using curr_not_waiting [OF I(1)] by (simp add: alock_of_def off_kind_wait_iff)
  moreover have "0 < nlog (core s (curr_task s))"
    using top by (simp add: core_def stack_of_def add_nonneg_pos)
  ultimately show "mowner (mutexes s log_mutex) = curr_task s" "0 < locked_count (mutexes s log_mutex)"
    using log_owner [OF I(4)] by (simp_all add: alock_of_def)
qed

lemma owner_after_unlock:
  assumes inv: "kernel_inv T s a" and top: "kstack s = F_log_body [] # fs"
    and L': "alock_of (log_end (s\<lparr>kstack := fs\<rparr>)) (q_unlock s log_mutex a) log_mutex =
      a_unlock (curr_task s) (alock_of s a log_mutex)"
  shows "owner_ready (log_end (s\<lparr>kstack := fs\<rparr>)) (q_unlock s log_mutex a)"
proof -
  let ?c = "curr_task s" and ?s' = "log_end (s\<lparr>kstack := fs\<rparr>)"
  note I = kernel_invD [OF inv]
  have own: "mowner (mutexes s log_mutex) = ?c" by (rule running_log_owner [OF inv top])
  have run: "?c = idle_task s \<or> ?c \<in> set (a Q_ready)"
    using curr_not_idle [OF I(1)] by (metis list.set_intros(1))
  have idle: "idle_task ?s' = idle_task s" by (simp add: log_end_def)
  show ?thesis
  proof (cases "hands_over s a log_mutex")
    case True
    then obtain w ws where w: "a (Q_mutex log_mutex) = w # ws" by (auto simp: hands_over_def neq_Nil_conv)
    with True L' have "mowner (mutexes ?s' log_mutex) = w"
      by (simp add: alock_of_def a_unlock_def hands_over_def)
    with True w show ?thesis by (simp add: owner_ready_def q_unlock_def)
  next
    case False
    then have "locked_count (mutexes ?s' log_mutex) = 0 \<or> mowner (mutexes ?s' log_mutex) = ?c"
      using L' own by (auto simp: alock_of_def a_unlock_def hands_over_def split: list.splits if_splits)
    with False run idle show ?thesis by (auto simp: owner_ready_def q_unlock_def)
  qed
qed

lemma inv_log_end:
  assumes inv: "kernel_inv T s a" and top: "kstack s = F_log_body [] # fs"
  shows "\<exists>a'. kernel_inv T (log_end (s\<lparr>kstack := fs\<rparr>)) a'"
proof -
  note I = kernel_invD [OF inv]
  let ?c = "curr_task s" and ?s0 = "s\<lparr>kstack := fs\<rparr>" and ?s' = "log_end (s\<lparr>kstack := fs\<rparr>)"
  let ?s1 = ?s0 and ?a = "q_unlock s log_mutex a"
  have s1: "sched_inv T ?s1 a" using I(1) by simp
  have qa: "q_unlock ?s1 log_mutex a = ?a" by (simp add: q_unlock_def hands_over_def)
  have al: "alock_of ?s1 a log_mutex = alock_of s a log_mutex" by (simp add: alock_of_def)
  note ref = mutex_unlock_refines [OF s1, of log_mutex, unfolded qa al]
  have core0: "core s = (core ?s0)(?c := F_log_body [] # core ?s0 ?c)" using core_pop [OF top] by simp
  have "core ?s' = core ?s1"
    using core_of_shape [OF s1 ref(1) shape_unlock] by (simp add: log_end_def)
  then have core: "core ?s' = (core s)(?c := core ?s0 ?c)" by (simp add: core0)
  have sync1: "sync_ok ?s1 a" using I(2) by (subst sync_ok_cong [of _ s]) simp_all
  have aok: "alock_ok (alock_of s a log_mutex)" using I(2) by (simp add: sync_ok_def mutex_ok_def)
  have nw: "?c \<notin> set (lwaiters (alock_of s a log_mutex))"
    using curr_not_waiting [OF I(1)] by (simp add: alock_of_def off_kind_wait_iff)
  have "core s ?c = F_log_body [] # core ?s0 ?c" by (subst core0) simp
  from log_ok_unlock [OF I(4) aok nw this]
  have "log_ok (core ?s') (alock_of ?s' ?a log_mutex)" using ref(2) core by (simp add: log_end_def)
  moreover have "sync_ok ?s' ?a"
  proof -
    have "mutex_ok ?s' ?a m" for m
      using mutex_unlock_ok [OF s1, of m log_mutex] sync1 qa by (simp add: sync_ok_def log_end_def)
    moreover have "asem_of ?s' ?a j = asem_of s a j" for j
      by (simp add: asem_of_def q_unlock_def log_end_def)
    ultimately show ?thesis using I(2) by (simp add: sync_ok_def)
  qed
  moreover have "clean (core ?s')"
  proof -
    have "list_all (clean_frame ?c) (core s ?c)" using I(3) by (simp add: clean_def)
    then have "list_all (clean_frame ?c) (core ?s0 ?c)" by (subst (asm) core0) simp
    then show ?thesis using I(3) unfolding core by (simp add: clean_def)
  qed
  moreover have "owner_ready ?s' ?a"
    by (rule owner_after_unlock [OF inv top]) (use ref(2) in \<open>simp add: log_end_def\<close>)
  ultimately have "kernel_inv T ?s' ?a" using ref(1) by (simp add: kernel_inv_def log_end_def)
  then show ?thesis by blast
qed

lemma inv_log_body:
  assumes inv: "kernel_inv T s a" and top: "kstack s = F_log_body (c # cs) # fs"
    and ch: "log_body lsr c cs (s\<lparr>kstack := fs\<rparr>) = Some s0"
  shows "kernel_inv T s0 a"
proof -
  define s' where s': "s' = outb COM1_PORT c (s\<lparr>kstack := fs\<rparr>)"
  let ?s = "push_frame (F_log_body cs) s'"
  have s0: "s0 = ?s" using log_body_sends [OF ch] by (simp add: s')
  note I = kernel_invD [OF inv]
  have core: "core ?s = (core s)(curr_task s := F_log_body cs # tl (core s (curr_task s)))"
    using core_pop [OF top] by (simp add: s' core_push)
  have hd: "core s (curr_task s) = F_log_body (c # cs) # tl (core s (curr_task s))"
    using top by (simp add: core_def stack_of_def)
  have nl: "nlog (core ?s t) = nlog (core s t)" for t
    unfolding core by (cases "t = curr_task s") (simp_all, subst (2) hd, simp)
  have al: "alock_of ?s a log_mutex = alock_of s a log_mutex" by (simp add: alock_of_def s')
  have "sched_inv T s' a" using I(1) by (simp add: s')
  then have "sched_inv T ?s a" by (simp add: sched_inv_def)
  moreover have "sync_ok ?s a" using I(2) by (subst sync_ok_cong [of _ s]) (simp_all add: s')
  moreover have "clean (core ?s)"
  proof -
    have "list_all (clean_frame (curr_task s)) (core s (curr_task s))" using I(3) by (simp add: clean_def)
    then have "list_all (clean_frame (curr_task s)) (tl (core s (curr_task s)))" by (subst (asm) hd) simp
    then show ?thesis using I(3) unfolding core by (simp add: clean_def)
  qed
  moreover have "log_ok (core ?s) (alock_of ?s a log_mutex)" using I(4) unfolding log_ok_def nl al .
  moreover have "owner_ready ?s a" using I(5) by (simp add: owner_ready_def s')
  ultimately show ?thesis by (simp add: kernel_inv_def s0)
qed

lemma inv_tick_slice:
  assumes inv: "kernel_inv T s a" and top: "kstack s = F_tick_slice t # fs"
  shows "\<exists>a'. kernel_inv T (task_time_tick_slice t (s\<lparr>kstack := fs\<rparr>)) a'"
proof -
  let ?s0 = "s\<lparr>kstack := fs\<rparr>" and ?c = "curr_task s"
  note I = kernel_invD [OF inv]
  have core0: "core s = (core ?s0)(?c := F_tick_slice t # core ?s0 ?c)" using core_pop [OF top] by simp
  have "list_all (clean_frame ?c) (core s ?c)" using I(3) by (simp add: clean_def)
  then have t: "t = ?c" and rest: "list_all (clean_frame ?c) (core ?s0 ?c)"
    by (subst (asm) core0, simp)+
  have inv0: "kernel_inv T ?s0 a"
  proof -
    have "nlog (core ?s0 u) = nlog (core s u)" for u by (subst core0) simp
    then have "log_ok (core ?s0) (alock_of ?s0 a log_mutex)"
      using I(4) by (simp add: log_ok_def alock_of_def)
    moreover have "core ?s0 = (core s)(?c := core ?s0 ?c)" by (simp add: core0)
    then have "clean (core ?s0)" using I(3) rest by (metis clean_def fun_upd_apply)
    ultimately show ?thesis using I by (simp add: kernel_inv_def owner_ready_def)
  qed
  note J = kernel_invD [OF inv0]
  let ?s' = "task_time_tick_slice t ?s0" and ?a = "a_rotate (idle_task s) ?c a"
  have s': "sched_inv T ?s' ?a" using task_time_tick_slice_inv [OF J(1)] t by simp
  have q: "?a (Q_mutex m) = a (Q_mutex m)" "?a (Q_sem n) = a (Q_sem n)"
    "set (a Q_ready) \<subseteq> set (?a Q_ready)" for m n
    by (auto simp: a_rotate_def a_ready_def a_block_def) (metis in_set_remove1)
  have "kernel_inv T ?s' ?a"
  proof (rule kernel_inv_change [OF inv0 s' _ core_of_shape [OF J(1) s' shape_slice]])
    show "sync_ok ?s' ?a" using J(2) sync_ok_cong [of ?s' ?s0 ?a a] q(1,2) by simp
  qed (use q in auto)
  then show ?thesis by blast
qed

lemma inv_tick_sleep:
  assumes inv: "kernel_inv T s a"
  shows "\<exists>s' a'. task_time_tick_sleep s = Some s' \<and> kernel_inv T s' a'"
proof -
  note I = kernel_invD [OF inv]
  from task_time_tick_sleep_spec [OF sched_invD(1) [OF I(1)]] obtain s1 where
    s1: "task_time_tick_sleep s = Some (task_dispatch s1)" "sched_pre T s1 (a_tick s [] (a Q_sleep) a)"
      "same_context s s1" by blast
  let ?a = "a_tick s [] (a Q_sleep) a"
  have q: "?a (Q_mutex m) = a (Q_mutex m)" "?a (Q_sem n) = a (Q_sem n)"
    "set (a Q_ready) \<subseteq> set (?a Q_ready)" for m n by (auto simp: a_tick_def)
  have core: "core (task_dispatch s1) = core s"
    using core_dispatch [OF s1(2)] core_same [of s s1] s1(3) by (simp add: same_stacks_def same_context_def)
  have "kernel_inv T (task_dispatch s1) ?a"
  proof (rule kernel_inv_change [OF inv task_dispatch_inv [OF s1(2)] _ core])
    show "sync_ok (task_dispatch s1) ?a"
      using I(2) sync_ok_cong [of "task_dispatch s1" s ?a a] q(1,2) s1(3) by (simp add: same_context_def)
  qed (use q s1(3) in \<open>auto simp: same_context_def\<close>)
  with s1(1) show ?thesis by blast
qed

lemma inv_push_slice:
  assumes "kernel_inv T s a"
  shows "kernel_inv T (push_frame (F_tick_slice (curr_task s)) s) a"
proof -
  let ?s3 = "push_frame (F_tick_slice (curr_task s)) s"
  note I = kernel_invD [OF assms]
  have core: "core ?s3 = (core s)(curr_task s := F_tick_slice (curr_task s) # core s (curr_task s))"
    by (simp only: core_push core_frame.simps if_True)
  have "nlog (core ?s3 u) = nlog (core s u)" for u unfolding core by simp
  then have "log_ok (core ?s3) (alock_of ?s3 a log_mutex)" using I(4) by (simp add: log_ok_def alock_of_def)
  moreover have "clean (core ?s3)" using I(3) unfolding core by (simp add: clean_def)
  moreover have "sync_ok ?s3 a" using I(2) by (subst sync_ok_cong [of _ s]) simp_all
  moreover have "sched_inv T ?s3 a" using I(1) by (simp add: sched_inv_def)
  moreover have "owner_ready ?s3 a" using I(5) by (simp add: owner_ready_def)
  ultimately show ?thesis by (simp add: kernel_inv_def)
qed

lemma inv_timer:
  assumes inv: "kernel_inv T s a"
  shows "\<exists>s' a'. timer_interrupt s = Some s' \<and> kernel_inv T s' a'"
proof -
  let ?s1 = "pic_send_eoi IRQ0_TIMER ((cli (push_frame (F_iret (eflags s)) s))\<lparr>sys_tick := sys_tick s + 1\<rparr>)"
  let ?s2 = "upd_task (curr_task s) (\<lambda>t. t\<lparr>slice_ticks := slice_ticks t - 1\<rparr>) ?s1"
  have "sys_tick (cli (push_frame (F_iret (eflags s)) s)) = sys_tick s" by (simp add: cli_def push_frame_def)
  then have run: "timer_interrupt s = task_time_tick ?s1"
    by (simp add: timer_interrupt_def do_handler_time_def Let_def)
  have eoi: "?s1 = outb PIC0_OCW2 PIC_OCW2_EOI ((cli (push_frame (F_iret (eflags s)) s))\<lparr>sys_tick := sys_tick s + 1\<rparr>)"
    by (simp add: pic_send_eoi_def IRQ0_TIMER_def IRQ_PIC_START_def Let_def)
  have core1: "core (s\<lparr>sys_tick := n\<rparr>) = core s" for s :: kst and n
    by (simp add: core_def stack_of_def fun_eq_iff)
  have cur: "curr_task ?s1 = curr_task s" by (simp add: eoi)
  have inv2: "kernel_inv T ?s2 a"
    using inv by (rule kernel_inv_cong) (simp_all add: eoi core_push core1)
  show ?thesis
  proof (cases "slice_ticks (tasks ?s2 (curr_task s)) = 0")
    case False
    then have "timer_interrupt s = task_time_tick_sleep ?s2"
      unfolding run by (simp only: task_time_tick_def Let_def task_current_def cur if_False)
    with inv_tick_sleep [OF inv2] show ?thesis by simp
  next
    case True
    let ?s3 = "push_frame (F_tick_slice (curr_task s)) ?s2"
    have "timer_interrupt s = Some (push_frame (F_log slice_end_msg) ?s3)"
      using True unfolding run by (simp only: task_time_tick_def Let_def task_current_def cur simp_thms if_True)
    moreover have "kernel_inv T ?s3 a" using inv_push_slice [OF inv2] by (simp add: cur)
    ultimately show ?thesis using inv_push [of T ?s3 a "F_log slice_end_msg"] by auto
  qed
qed

lemma inv_piece:
  assumes inv: "kernel_inv T s a" and run: "run_frame buf lsr s = Some s'"
  shows "\<exists>a'. kernel_inv T s' a'"
proof -
  from run obtain f fs where top: "kstack s = f # fs" and p: "run_piece buf lsr f (s\<lparr>kstack := fs\<rparr>) = Some s'"
    by (auto simp: run_frame_def split: list.splits)
  note I = kernel_invD [OF inv]
  have cf: "list_all (clean_frame (curr_task s)) (core s (curr_task s))" using I(3) by (simp add: clean_def)
  have clean_top: "core_frame f \<Longrightarrow> clean_frame (curr_task s) f"
    using cf top by (simp add: core_def stack_of_def)
  note pop = inv_pop [OF inv top]
  show ?thesis
  proof (cases "(buf, lsr, f, s\<lparr>kstack := fs\<rparr>)" rule: run_piece.cases)
    case (1 b l st s0)
    then have "s' = s\<lparr>kstack := fs\<rparr>\<lparr>eflags := st\<rparr>" using p by simp
    then show ?thesis using inv_eflags [OF pop, of st] 1 by auto
  next
    case (2 b l str s0)
    then show ?thesis using p pop inv_log_lock [of T "s\<lparr>kstack := fs\<rparr>" a str] by auto
  next
    case (5 b l to s0)
    then show ?thesis using p pop inv_log_printf [of T "s\<lparr>kstack := fs\<rparr>" a _ _ _ s'] by auto
  next
    case (8 b l st s0)
    then have "s' = s\<lparr>kstack := fs\<rparr>\<lparr>eflags := st\<rparr>" using p by (simp add: write_eflags_def)
    then show ?thesis using inv_eflags [OF pop, of st] 8 by auto
  next
    case (3 b l s0)
    with top p inv_log_end [OF inv] show ?thesis by auto
  next
    case (4 b l c cs s0)
    with p have "log_body lsr c cs (s\<lparr>kstack := fs\<rparr>) = Some s'" by auto
    with inv_log_body [OF inv, of c cs fs lsr s'] top 4 show ?thesis by auto
  next
    case (6 b l t s0)
    with top p inv_tick_slice [OF inv] show ?thesis by auto
  next
    case (7 b l s0)
    with p pop inv_tick_sleep [of T "s\<lparr>kstack := fs\<rparr>" a] show ?thesis by auto
  qed (use p clean_top in auto)
qed

lemma inv_call:
  assumes inv: "kernel_inv T s a" and "kstack s = []" and "curr_task s \<noteq> idle_task s"
  shows "\<exists>a'. kernel_inv T (call c s) a'"
  using inv_yield [OF inv] inv_sleep [OF inv assms(3,2)] inv_lock [OF inv assms(3,2)] inv_unlock [OF inv]
    inv_wait [OF inv assms(3,2)] inv_notify [OF inv] inv_push [OF inv, of "F_log _"]
  by (cases c) (simp_all, blast)

lemma inv_step: "kstep buf s s' \<Longrightarrow> kernel_inv T s a \<Longrightarrow> \<exists>a'. kernel_inv T s' a'"
  using inv_timer [of T s a] by (elim kstep_cases) (auto intro: inv_piece inv_call)

interpretation km: invariant_system "kstep buf" "\<lambda>s. \<exists>a. kernel_inv T s a"
  for buf T
  by unfold_locales (auto dest: inv_step)

lemma inv_reachable:
  assumes "rtranclp (kstep buf) s0 s" and "kernel_inv T s0 a0"
  shows "\<exists>a. kernel_inv T s a"
  using km.inv_reach [OF assms(1)] assms(2) by blast

section \<open>A state that satisfies the invariant\<close>

lemma sample_objects:
  "mowner (mutexes sample_state m) = (if m = mutex1 then task1 else if m = mutex2 then task2 else NULL)"
  "locked_count (mutexes sample_state m) = (if m = mutex1 \<or> m = mutex2 then 1 else 0)"
  "scount (sems sample_state k) = (if k = 20 then 3 else 0)"
  by (simp_all add: sample_state_def add_sem_waiter_def add_mutex_waiter_def Let_def sample_ready_def
      sample_held_def empty_state_def split: prod.split)

lemma sample_kernel_inv: "kernel_inv sample_tasks sample_state sample_queues"
proof -
  have c: "core sample_state t = []" for t by (simp add: core_def stack_of_def sample_context)
  have "mutex_ok sample_state sample_queues m" for m
    by (auto simp: mutex_ok_def alock_ok_def alock_of_def sample_objects sample_queues_def)
  moreover have "asem_ok (asem_of sample_state sample_queues k)" for k
    by (auto simp: asem_ok_def asem_of_def sample_objects sample_queues_def)
  moreover have "log_ok (core sample_state) (alock_of sample_state sample_queues log_mutex)"
    by (simp add: log_ok_def c alock_of_def sample_objects sample_queues_def)
  ultimately show ?thesis
    using sample_inv by (simp add: kernel_inv_def sync_ok_def clean_def c owner_ready_def sample_objects)
qed

section \<open>Properties\<close>

text \<open>
  C1: The kernel invariant.  Whatever the tasks call and whenever the timer interrupts, in every
  reachable state the current task is the head of the ready queue (or the idle task when it is empty),
  every list is well formed, no task is on two of the ready, sleep and wait queues, the descriptor
  table and the task register agree with the tasks, every mutex and semaphore is well formed, and no
  task has run into the general-protection handler.
\<close>

theorem kernel_invariant:
  assumes "kernel_inv T s0 a0" and "rtranclp (kstep buf) s0 s"
  shows "\<exists>a. kernel_inv T s a \<and>
    curr_task s = (case a Q_ready of [] \<Rightarrow> idle_task s | t # _ \<Rightarrow> t) \<and>
    (\<forall>t. \<not> (t \<in> set (a Q_ready) \<and> t \<in> set (a Q_sleep))) \<and>
    (\<forall>t m. t \<in> set (a (Q_mutex m)) \<longrightarrow> t \<notin> set (a Q_ready) \<and> t \<notin> set (a Q_sleep) \<and> t \<noteq> idle_task s) \<and>
    (\<forall>t. F_hang \<notin> set (stack_of s t))"
proof -
  from inv_reachable [OF assms(2,1)] obtain a where inv: "kernel_inv T s a" by blast
  note I = kernel_invD [OF inv] and P = sched_preD [OF sched_invD(1) [OF kernel_invD(1) [OF inv]]]
  have "curr_task s = (case a Q_ready of [] \<Rightarrow> idle_task s | t # _ \<Rightarrow> t)"
    using sched_invD(2) [OF I(1)] by (simp add: a_next_def hdq_def)
  moreover have "\<not> (t \<in> set (a Q_ready) \<and> t \<in> set (a Q_sleep))" for t
    using qrep_disjoint [OF P(2), of Q_ready Q_sleep t] by auto
  moreover have "t \<notin> set (a Q_ready) \<and> t \<notin> set (a Q_sleep) \<and> t \<noteq> idle_task s"
    if "t \<in> set (a (Q_mutex m))" for t m
    using P(6) P(7) [of t] that by (auto simp: off_kind_run_iff off_kind_wait_iff)
  moreover have "F_hang \<notin> set (stack_of s t)" for t
  proof
    assume "F_hang \<in> set (stack_of s t)"
    then have "F_hang \<in> set (core s t)" by (simp add: core_def)
    then have "clean_frame t F_hang" using I(3) unfolding clean_def list_all_iff by blast
    then show False by simp
  qed
  ultimately show ?thesis using inv by blast
qed

theorem kernel_invariant_witness:
  "\<exists>a. kernel_inv sample_tasks (call Yield sample_state) a"
proof -
  have "kstep (\<lambda>_. 0x8000) sample_state (call Yield sample_state)"
    by (rule kstep.api_call) (simp_all add: sample_context)
  then have "rtranclp (kstep (\<lambda>_. 0x8000)) sample_state (call Yield sample_state)" by blast
  from kernel_invariant [OF sample_kernel_inv this] show ?thesis by blast
qed

text \<open>
  C3: Mutual exclusion on the serial port.  In every reachable state a task that is about to send a byte
  of a message, or to end it, owns the log's mutex; every other task that has begun a message is
  queued on that mutex and has sent nothing.
\<close>

theorem log_output_exclusive:
  assumes "kernel_inv T s0 a0" and "rtranclp (kstep buf) s0 s" and "kstack s = F_log_body str # fs"
  shows "mowner (mutexes s log_mutex) = curr_task s \<and> 0 < locked_count (mutexes s log_mutex) \<and>
    (\<exists>a. qrep T s a \<and>
      (\<forall>t x. t \<noteq> curr_task s \<and> F_log_body x \<in> set (saved s t) \<longrightarrow> t \<in> set (a (Q_mutex log_mutex))))"
proof -
  from inv_reachable [OF assms(2,1)] obtain a where inv: "kernel_inv T s a" by blast
  note I = kernel_invD [OF inv] and own = running_log_owner [OF inv assms(3)]
  have "t \<in> set (a (Q_mutex log_mutex))" if "t \<noteq> curr_task s" "F_log_body x \<in> set (saved s t)" for t x
  proof -
    have "F_log_body x \<in> set (core s t)" using that by (simp add: core_def stack_of_def)
    then have "\<exists>f\<in>set (core s t). is_log_body f" by (intro bexI [of _ "F_log_body x"]) simp_all
    then have "0 < nlog (core s t)" by (auto simp: nlog_def filter_empty_conv)
    then show ?thesis using I(4) own(1) that(1) by (auto simp: log_ok_def alock_of_def split: if_splits)
  qed
  then show ?thesis using own sched_preD(2) [OF sched_invD(1) [OF I(1)]] by blast
qed

theorem log_output_exclusive_witness:
  "mowner (mutexes (log_lock [65] sample_state) log_mutex) = task1"
proof -
  let ?s1 = "push_frame (F_log [65]) sample_state" and ?s2 = "log_lock [65] sample_state"
  have "kstep (\<lambda>_. 0x8000) sample_state (call (Print [65]) sample_state)"
    by (rule kstep.api_call) (simp_all add: sample_context)
  then have 1: "kstep (\<lambda>_. 0x8000) sample_state ?s1" by simp
  have "?s1\<lparr>kstack := kstack sample_state\<rparr> = sample_state" by (simp add: push_frame_def)
  then have "?s1\<lparr>kstack := []\<rparr> = sample_state" by (simp only: sample_context)
  then have "run_frame (\<lambda>_. 0x8000) (\<lambda>_. 0x20) ?s1 = Some ?s2"
    by (simp add: run_frame_def sample_context)
  then have "kstep (\<lambda>_. 0x8000) ?s1 ?s2" by (rule kstep.piece)
  then have "rtranclp (kstep (\<lambda>_. 0x8000)) sample_state ?s2"
    using converse_rtranclp_into_rtranclp [of "kstep (\<lambda>_. 0x8000)" sample_state ?s1 ?s2, OF 1]
      r_into_rtranclp [of "kstep (\<lambda>_. 0x8000)" ?s1 ?s2] by blast
  moreover have free: "\<not> contended (push_frame (F_log_body ([65] @ [13, 10])) sample_state) log_mutex"
    by (simp add: contended_def sample_objects)
  then have "kstack ?s2 = [F_log_body [65, 13, 10]]" and cur: "curr_task ?s2 = task1"
    using mutex_lock_uncontended [OF free] by (simp_all add: log_lock_def sample_context)
  ultimately show ?thesis
    using log_output_exclusive [OF sample_kernel_inv, of "\<lambda>_. 0x8000" ?s2 "[65, 13, 10]" "[]"] cur by simp
qed

lemma dispatch_prints:
  assumes "to + off_name \<noteq> NULL" and "b \<noteq> NULL" and "unat b + 128 \<le> 2 ^ 32"
    and "cstring (kmem s) (to + off_name) xs" and "length xs < 100"
    and "span (to + off_name) (Suc (length xs)) \<inter> span b 128 = {}"
  shows "\<exists>s'. log_printf b dispatch_fmt [VPtr (to + off_name)] s = Some s'"
proof -
  let ?msg = "map of_char ''Dispatching task: '' @ xs"
  have "fmt_text NORMAL dispatch_fmt [SStr xs] = Some ?msg" by (simp add: dispatch_fmt_def conv_text.simps)
  moreover have "length ?msg < 128" using assms(5) by simp
  moreover have "0 \<notin> set ?msg" using assms(4) by (auto simp: cstring_def)
  moreover have "list_all2 (arg_is (kmem s) (span b 128)) [VPtr (to + off_name)] [SStr xs]"
    using assms by (simp del: span.simps)
  ultimately show ?thesis
    using log_printf_format [of dispatch_fmt "[SStr xs]" ?msg s b "[VPtr (to + off_name)]"] assms(2,3)
    by (fastforce simp: max_absorb1 simp del: span.simps)
qed

text \<open>
  C2: No piece of kernel code gets stuck.  In every reachable state, the code that a timer interrupt runs
  up to the next call that may switch tasks returns, in particular the walk over the sleep list ends;
  and when the running task is inside the kernel, its next piece of code returns, provided that the
  serial port becomes ready again and again and, if that piece is about to print the name of a task,
  that the name is a C string of less than 100 bytes outside the message buffer.
\<close>

theorem kernel_progress:
  assumes inv0: "kernel_inv T s0 a0" and reach: "rtranclp (kstep buf) s0 s"
    and dev: "\<forall>n. \<exists>k\<ge>n. lsr k AND 0x20 \<noteq> 0"
    and names: "\<forall>to fs. kstack s = F_log_dispatch to # fs \<longrightarrow>
      to + off_name \<noteq> NULL \<and> buf (curr_task s) \<noteq> NULL \<and> unat (buf (curr_task s)) + 128 \<le> 2 ^ 32 \<and>
      (\<exists>xs. cstring (kmem s) (to + off_name) xs \<and> length xs < 100 \<and>
        span (to + off_name) (Suc (length xs)) \<inter> span (buf (curr_task s)) 128 = {})"
  shows "(\<exists>s'. timer_interrupt s = Some s') \<and> (kstack s \<noteq> [] \<longrightarrow> (\<exists>s'. run_frame buf lsr s = Some s'))"
proof (intro conjI impI)
  from inv_reachable [OF reach inv0] obtain a where inv: "kernel_inv T s a" by blast
  then show "\<exists>s'. timer_interrupt s = Some s'" using inv_timer by blast
  assume "kstack s \<noteq> []"
  then obtain f fs where top: "kstack s = f # fs" by (cases "kstack s") auto
  note I = kernel_invD [OF inv]
  have "list_all (clean_frame (curr_task s)) (core s (curr_task s))" using I(3) by (simp add: clean_def)
  then have ok: "core_frame f \<Longrightarrow> clean_frame (curr_task s) f" using top by (simp add: core_def stack_of_def)
  have "\<exists>s'. run_piece buf lsr f (s\<lparr>kstack := fs\<rparr>) = Some s'"
  proof (cases "(buf, lsr, f, s\<lparr>kstack := fs\<rparr>)" rule: run_piece.cases)
    case (4 b l c cs s0)
    from dev have "\<exists>k. lsr k AND 0x20 \<noteq> 0" by blast
    with 4 show ?thesis by (simp add: log_body_total)
  next
    case (5 b l to s0)
    then have f: "f = F_log_dispatch to" by simp
    from names top f obtain xs where
      n: "to + off_name \<noteq> NULL" "buf (curr_task s) \<noteq> NULL" "unat (buf (curr_task s)) + 128 \<le> 2 ^ 32"
        "cstring (kmem s) (to + off_name) xs" "length xs < 100"
        "span (to + off_name) (Suc (length xs)) \<inter> span (buf (curr_task s)) 128 = {}" by blast
    from dispatch_prints [where s = "s\<lparr>kstack := fs\<rparr>", OF n(1-3) _ n(5,6)] n(4) f show ?thesis by auto
  next
    case (7 b l s0)
    with inv_tick_sleep [OF inv_pop [OF inv top]] show ?thesis by auto
  next
    case (11 b l t n s0)
    with ok show ?thesis by auto
  next
    case (12 b l s0)
    with ok show ?thesis by auto
  next
    case (13 b l fmt args s0)
    with ok show ?thesis by auto
  qed auto
  with top show "\<exists>s'. run_frame buf lsr s = Some s'" by (simp add: run_frame_def)
qed

theorem kernel_progress_witness:
  "\<exists>fs. kstack (call Yield (call Yield sample_state)) = F_log_dispatch task2 # fs \<and>
     (\<exists>s'. timer_interrupt (call Yield (call Yield sample_state)) = Some s') \<and>
     (\<exists>s'. run_frame (\<lambda>_. 0x8000) (\<lambda>_. 0x20) (call Yield (call Yield sample_state)) = Some s')"
proof -
  let ?s1 = "sys_sched_yield sample_state" and ?s2 = "sys_sched_yield (sys_sched_yield sample_state)"
  note Y1 = yield_switch [OF sample_inv sample_queues_simps(1)]
  obtain e where sv: "saved ?s1 = (saved sample_state)(task1 := F_log_dispatch task2 # F_leave e # F_leave (eflags sample_state) # kstack sample_state)"
    using Y1(4) by blast
  have inv1: "sched_inv sample_tasks ?s1 (sample_queues(Q_ready := [task2, task1]))" using yield_rotates [OF sample_inv] by simp
  have "(sample_queues(Q_ready := [task2, task1])) Q_ready = [task2, task1]" by simp
  note Y2 = yield_switch [OF inv1 this]
  have k1: "kstack ?s1 = []" using Y1(1) by (simp add: sample_context)
  have k2: "kstack ?s2 = [F_log_dispatch task2, F_leave e, F_leave (eflags sample_state)]" "kmem ?s2 = (\<lambda>_. 0)"
    using Y2(1,3) Y1(3) sv by (simp_all add: sample_context sample_mem)
  have "kstep (\<lambda>_. 0x8000) sample_state (call Yield sample_state)"
    by (rule kstep.api_call) (simp_all add: sample_context)
  moreover have "kstep (\<lambda>_. 0x8000) ?s1 (call Yield ?s1)"
    by (rule kstep.api_call) (simp_all add: k1 Y1(2))
  ultimately have reach: "rtranclp (kstep (\<lambda>_. 0x8000)) sample_state ?s2" by (auto intro: rtranclp_trans)
  have dev: "\<forall>n :: nat. \<exists>k\<ge>n. (0x20 :: uint8_t) AND 0x20 \<noteq> 0" by auto
  have dis: "span (task2 + off_name) (Suc 0) \<inter> span 0x8000 128 = {}"
    using span_of_nat_disjoint [where x = "0x3010" and n = 1 and y = "0x8000" and m = 128] by (simp add: off_name_def del: span.simps)
  have name: "\<exists>xs. cstring (kmem ?s2) (task2 + off_name) xs \<and> length xs < 100 \<and>
      span (task2 + off_name) (Suc (length xs)) \<inter> span 0x8000 128 = {}"
    using dis by (intro exI [of _ "[]"]) (simp add: cstring_def k2(2) del: span.simps)
  have "\<forall>to fs. kstack ?s2 = F_log_dispatch to # fs \<longrightarrow> to + off_name \<noteq> NULL \<and> (0x8000 :: addr) \<noteq> NULL \<and> unat (0x8000 :: addr) + 128 \<le> 2 ^ 32 \<and>
      (\<exists>xs. cstring (kmem ?s2) (to + off_name) xs \<and> length xs < 100 \<and> span (to + off_name) (Suc (length xs)) \<inter> span 0x8000 128 = {})"
    using name by (auto simp: k2(1) off_name_def)
  from kernel_progress [OF sample_kernel_inv reach dev this] k2(1) show ?thesis by simp
qed

end
