(* ===== verification/Task_Create_Props.thy ===== *)
theory Task_Create_Props
  imports Kernel_Machine
begin

text \<open>
  Creation of a task, end to end: the pieces of \<open>task_init\<close> run one after the other extend the
  scheduler's invariant by the new task.
\<close>

section \<open>The task-state segment\<close>

lemma strncpy_loop_total: "\<exists>r. strncpy_loop (int n) d s m = Some r"
proof (induction n arbitrary: d s m)
  case 0
  then show ?case by (simp add: strncpy_loop.simps)
next
  case (Suc n)
  then show ?case by (simp add: strncpy_loop.simps [of "1 + int n"])
qed

lemma kernel_strncpy_total: "\<exists>m'. kernel_strncpy d s (int n) m = Some m'"
  using strncpy_loop_total [of n d s m] by (auto simp: kernel_strncpy_def)

lemma qrep_mono: "qrep T s a \<Longrightarrow> T \<subseteq> T' \<Longrightarrow> qrep T' s a"
  unfolding qrep_def by blast

lemma new_task_off: "sched_pre T s a \<Longrightarrow> t \<notin> T \<Longrightarrow> off_kind a k t"
  using qrep_subset [OF sched_preD(2)] by (auto simp: off_kind_def)

lemma tss_desc_made: "is_tss_desc (make_segment_desc base sizeof_tss_t (SEG_P_PRESENT OR SEG_DPL0 OR SEG_TYPE_TSS))"
  by (simp add: is_tss_desc_def make_segment_desc_def sizeof_tss_t_def seg_consts)

text \<open>A new selector denotes a free entry, so no task's own descriptor.\<close>

lemma free_entry:
  assumes "gdt_scan 1 gdt = sel" and "0 \<le> sel"
  shows "attr (gdt (drop_bit 3 sel)) = 0 \<and> drop_bit 3 (uint (word_of_int sel :: uint16_t)) = drop_bit 3 sel"
proof -
  from gdt_scan_cases [of 1 gdt] assms obtain k where
    k: "1 \<le> k" "k < GDT_TABLE_SIZE" "sel = k * 8" "attr (gdt k) = 0" by auto
  then have "0 \<le> sel" "sel < 2 ^ 16" by (simp_all add: gdt_consts)
  then have "uint (word_of_int sel :: uint16_t) = sel" by (simp add: unsigned_of_int take_bit_int_eq_self)
  with k show ?thesis by (simp add: drop_bit_eq_div)
qed

text \<open>Filling in the segment of a new task keeps those of the others.\<close>

lemma tss_fill_desc:
  assumes "tss_ok T s" and "gdt_scan 1 (gdt_table s) = sel" "0 \<le> sel" and "t \<in> T"
  shows "tss_desc (tss_fill sel task entry esp name s) (word_of_int (tss_sel (tasks s t))) =
    tss_desc s (word_of_int (tss_sel (tasks s t)))"
proof -
  note free = free_entry [OF assms(2,3)]
  have "drop_bit 3 (uint (word_of_int (tss_sel (tasks s t)) :: uint16_t)) \<noteq> drop_bit 3 sel"
    using assms(1,4) free by (auto simp: tss_ok_def tss_desc_def is_tss_desc_def)
  then show ?thesis using assms(3) by (simp add: tss_fill_def Let_def tss_desc_def segment_desc_set_other)
qed

lemma tss_fill_ok:
  assumes ok: "tss_ok T s" and new: "task \<notin> T" and sel: "gdt_scan 1 (gdt_table s) = sel" "0 \<le> sel"
  shows "tss_ok (insert task T) (tss_fill sel task entry esp name s)"
proof -
  let ?s = "tss_fill sel task entry esp name s"
  have own: "tss_desc ?s (word_of_int sel) =
      make_segment_desc (task + off_tss) sizeof_tss_t (SEG_P_PRESENT OR SEG_DPL0 OR SEG_TYPE_TSS)"
    using free_entry [OF sel] sel(2) by (simp add: tss_fill_def Let_def tss_desc_def)
  have tasks': "tasks ?s t = tasks s t" if "t \<noteq> task" for t
    using that sel(2) by (simp add: tss_fill_def Let_def)
  have sel': "tss_sel (tasks ?s task) = sel" using sel(2) by (simp add: tss_fill_def Let_def)
  have "is_tss_desc (tss_desc ?s (word_of_int (tss_sel (tasks ?s t)))) \<and>
      tss_task ?s (word_of_int (tss_sel (tasks ?s t))) = t" if "t \<in> insert task T" for t
  proof (cases "t = task")
    case True
    then show ?thesis by (simp add: sel' tss_task_def own tss_desc_made)
  next
    case False
    with that have "t \<in> T" by simp
    with ok tss_fill_desc [OF ok sel this] tasks' [OF False] show ?thesis by (simp add: tss_ok_def tss_task_def)
  qed
  then show ?thesis by (simp add: tss_ok_def)
qed

section \<open>The rest of the task\<close>

lemma init_nodes_qrep:
  assumes T: "task_space T" and rep: "qrep T s a" and t: "task \<in> T" "\<And>k. off_kind a k task"
  shows "qrep T (s\<lparr>nodes := list_node_init (wait_node task)
    (list_node_init (run_node task) (list_node_init (all_node task) (nodes s)))\<rparr>) a"
proof -
  let ?h = "list_node_init (wait_node task) (list_node_init (run_node task) (list_node_init (all_node task) (nodes s)))"
  have other: "?h (knode k u) = nodes s (knode k u)" if "u \<in> T" "u \<noteq> task" for k u
    using knode_eq_iff [OF T that(1) t(1), of k K_wait] knode_eq_iff [OF T that(1) t(1), of k K_run]
      knode_eq_iff [OF T that(1) t(1), of k K_all] that(2)
    by (simp add: list_node_init_def)
  have "dll ?h (list_of s q) (map (node_of q) (a q))" for q
  proof -
    have "?h x = nodes s x" if "x \<in> set (map (node_of q) (a q))" for x
    proof -
      from that obtain u where u: "u \<in> set (a q)" "x = node_of q u" by auto
      then have "u \<noteq> task" using t(2) [of "kind_of q"] by (auto simp: off_kind_def)
      with other qrep_subset [OF rep u(1)] u(2) show ?thesis by blast
    qed
    then show ?thesis using dll_cong [of _ ?h "nodes s"] qrep_dll [OF rep] by blast
  qed
  then show ?thesis using rep by (simp add: qrep_def)
qed

definition fresh_task :: "kst \<Rightarrow> addr \<Rightarrow> task_t \<Rightarrow> task_t" where
  "fresh_task s task t = t\<lparr>tstate := (if task = idle_task s then TASK_CREATED else TASK_READY), sleep_ticks := 0,
     time_ticks := TASK_TIME_SLICE_DEFAULT, slice_ticks := TASK_TIME_SLICE_DEFAULT\<rparr>"

text \<open>
  What \<open>task_rest\<close> does to the state; the idle task only joins the list of all tasks.
\<close>

lemma task_rest_effect:
  assumes T: "task_space T" and rep: "qrep T s a" and t: "task \<in> T" "\<And>k. off_kind a k task"
    and m: "kernel_strncpy (task + off_name) name TASK_NAME_SIZE (kmem s) = Some m"
  shows "\<exists>h r l. task_rest task name s =
      Some (s\<lparr>nodes := h, ready_list := r, task_list := l, kmem := m,
              tasks := (tasks s)(task := fresh_task s task (tasks s task))\<rparr>) \<and>
    qrep T (s\<lparr>nodes := h, ready_list := r, task_list := l\<rparr>)
      ((a_ready (idle_task s) task a)(Q_all := a Q_all @ [task]))"
proof -
  let ?f = "\<lambda>t. t\<lparr>tstate := TASK_CREATED, sleep_ticks := 0,
      time_ticks := TASK_TIME_SLICE_DEFAULT, slice_ticks := TASK_TIME_SLICE_DEFAULT\<rparr>"
  let ?s2 = "upd_task task ?f (s\<lparr>kmem := m\<rparr>)"
  let ?s3 = "?s2\<lparr>nodes := list_node_init (wait_node task)
    (list_node_init (run_node task) (list_node_init (all_node task) (nodes ?s2)))\<rparr>"
  let ?s5 = "task_set_ready task (cli ?s3)"
  let ?a = "a_ready (idle_task s) task a"
  obtain l h where ins: "list_insert_last (list_of ?s5 Q_all) (node_of Q_all task) (nodes ?s5) = (l, h)"
    by (cases "list_insert_last (list_of ?s5 Q_all) (node_of Q_all task) (nodes ?s5)")
  let ?s6 = "(?s5\<lparr>task_list := l, nodes := h\<rparr>)\<lparr>eflags := eflags s\<rparr>"
  have "qrep T ?s2 a" using rep by (rule qrep_cong) simp_all
  from init_nodes_qrep [OF T this t] have "qrep T (cli ?s3) a" by (rule qrep_cong) simp_all
  from task_set_ready_rep [OF T this t(1)] t(2) have q5: "qrep T ?s5 ?a" by simp
  have "off_kind ?a (kind_of Q_all) task" using t(2) [of K_all] by (auto simp: off_kind_def a_ready_def)
  moreover have "?a Q_all = a Q_all" by (simp add: a_ready_def)
  ultimately have q6: "qrep T ?s6 (?a(Q_all := a Q_all @ [task]))"
    using qrep_insert [OF T q5 t(1) _ ins, of ?s6] by simp
  have r: "task_rest task name s = Some ?s6"
    using m ins by (simp add: task_rest_def Let_def)
  have "?s6 = s\<lparr>nodes := h, ready_list := ready_list ?s6, task_list := l, kmem := m,
      tasks := (tasks s)(task := fresh_task s task (tasks s task))\<rparr>"
  proof (cases "task = idle_task s")
    case True
    then have "?f (tasks s task) = fresh_task s task (tasks s task)" by (simp add: fresh_task_def)
    with True show ?thesis by (simp add: task_set_ready_def upd_task_def cli_def)
  next
    case False
    then have "set_state TASK_READY (?f (tasks s task)) = fresh_task s task (tasks s task)"
      by (simp add: fresh_task_def set_state_def)
    with False show ?thesis by (auto simp: task_set_ready_def upd_task_def Let_def cli_def split: prod.split)
  qed
  then obtain rl where eq: "?s6 = s\<lparr>nodes := h, ready_list := rl, task_list := l, kmem := m,
      tasks := (tasks s)(task := fresh_task s task (tasks s task))\<rparr>" by blast
  have "qrep T (s\<lparr>nodes := h, ready_list := rl, task_list := l\<rparr>) (?a(Q_all := a Q_all @ [task]))"
    by (rule qrep_cong [OF q6 [unfolded eq]]) simp_all
  with r eq show ?thesis by metis
qed

section \<open>The whole function\<close>

definition new_task :: "kst \<Rightarrow> int \<Rightarrow> addr \<Rightarrow> uint32_t \<Rightarrow> uint32_t \<Rightarrow> task_t" where
  "new_task s sel task entry esp =
    fresh_task s task ((tasks s task)\<lparr>tss := start_tss entry esp, tss_sel := sel\<rparr>)"

definition tss_entry :: "int \<Rightarrow> addr \<Rightarrow> gdt_t \<Rightarrow> gdt_t" where
  "tss_entry sel task = segment_desc_set sel (task + off_tss) sizeof_tss_t (SEG_P_PRESENT OR SEG_DPL0 OR SEG_TYPE_TSS)"

lemma qrep_upd_mutex:
  "qrep T s a \<Longrightarrow> (\<And>x. mwait_list (f x) = mwait_list x) \<Longrightarrow> qrep T (upd_mutex m f s) a"
  by (erule qrep_cong) (simp_all add: list_of.simps(4) [symmetric] del: list_of.simps(4))

text \<open>With the mutex free, the search for a descriptor and the filling of it run one after the other.\<close>

lemma tss_init_runs:
  assumes nn: "task \<noteq> NULL" and rep: "qrep T s a"
    and mutex: "locked_count (mutexes s gdt_mutex) = 0" "a (Q_mutex gdt_mutex) = []"
    and sel: "gdt_scan 1 (gdt_table s) = sel" "0 \<le> sel"
  shows "\<exists>s1 s2. run_frame buf lsr (task_init site task entry esp name s) = Some s1 \<and>
    run_frame buf lsr s1 = Some (tss_fill sel task entry esp name s2) \<and>
    tss_fill sel task entry esp name s2 = push_frame (F_task_rest task name)
      (s\<lparr>gdt_table := tss_entry sel task (gdt_table s),
      mutexes := (mutexes s)(gdt_mutex := (mutexes s gdt_mutex)\<lparr>locked_count := 0, mowner := NULL\<rparr>),
      tasks := (tasks s)(task := (tasks s task)\<lparr>tss := start_tss entry esp, tss_sel := sel\<rparr>)\<rparr>) \<and>
    gdt_table s2 = gdt_table s \<and> tasks s2 = tasks s"
proof -
  let ?G = "F_gdt_scan task entry esp name" and ?F = "F_tss_fill sel task entry esp name"
  let ?l = "upd_mutex gdt_mutex (\<lambda>x. x\<lparr>locked_count := locked_count x + 1, mowner := curr_task s\<rparr>)"
  let ?u = "upd_mutex gdt_mutex (\<lambda>x. x\<lparr>locked_count := 0, mowner := NULL\<rparr>)"
  have s0: "task_init site task entry esp name s = ?l (push_frame ?G s)"
    using nn mutex(1) by (simp add: task_init_def mutex_lock_free)
  let ?s0 = "push_frame ?F ((?l (push_frame ?G s))\<lparr>kstack := kstack s\<rparr>)"
  have "qrep T (?l s) a" using rep by (rule qrep_upd_mutex) simp
  then have q0: "qrep T ?s0 a" by (rule qrep_cong) simp_all
  have "mutex_unlock gdt_mutex ?s0 = ?u ?s0"
    by (rule mutex_unlock_last [OF q0 mutex(2)]) (use mutex(1) in simp_all)
  then have r1: "run_frame buf lsr (task_init site task entry esp name s) = Some (?u ?s0)"
    unfolding s0 using sel(1) by (simp add: run_frame_def gdt_scan_piece_def)
  let ?s1 = "(?u ?s0)\<lparr>kstack := kstack s\<rparr>"
  have r2: "run_frame buf lsr (?u ?s0) = Some (tss_fill sel task entry esp name ?s1)" by (simp add: run_frame_def)
  let ?s3 = "s\<lparr>gdt_table := tss_entry sel task (gdt_table s),
      mutexes := (mutexes s)(gdt_mutex := (mutexes s gdt_mutex)\<lparr>locked_count := 0, mowner := NULL\<rparr>),
      tasks := (tasks s)(task := (tasks s task)\<lparr>tss := start_tss entry esp, tss_sel := sel\<rparr>)\<rparr>"
  have "tss_fill sel task entry esp name ?s1 = push_frame (F_task_rest task name) ?s3"
    using sel(2) by (simp add: tss_fill_def Let_def upd_mutex_def push_frame_def upd_task_def tss_entry_def)
  with r1 r2 show ?thesis by (intro exI [of _ "?u ?s0"] exI [of _ ?s1]) simp
qed

lemma task_init_effect:
  assumes T: "task_space (insert task T)" and rep: "qrep T s a" and new: "task \<notin> T" and ok: "tss_ok T s"
    and mutex: "locked_count (mutexes s gdt_mutex) = 0" "a (Q_mutex gdt_mutex) = []"
    and sel: "gdt_scan 1 (gdt_table s) = sel" "0 \<le> sel"
    and m: "kernel_strncpy (task + off_name) name TASK_NAME_SIZE (kmem s) = Some m"
  shows "\<exists>s1 s2 s3 h r l. run_frame buf lsr (task_init site task entry esp name s) = Some s1 \<and>
    run_frame buf lsr s1 = Some s2 \<and> run_frame buf lsr s2 = Some s3 \<and>
    s3 = s\<lparr>gdt_table := tss_entry sel task (gdt_table s), nodes := h, ready_list := r, task_list := l, kmem := m,
            mutexes := (mutexes s)(gdt_mutex := (mutexes s gdt_mutex)\<lparr>locked_count := 0, mowner := NULL\<rparr>),
            tasks := (tasks s)(task := new_task s sel task entry esp)\<rparr> \<and>
    qrep (insert task T) s3 ((a_ready (idle_task s) task a)(Q_all := a Q_all @ [task])) \<and>
    tss_ok (insert task T) s3"
proof -
  have nn: "task \<noteq> NULL" using T by (simp add: task_space_def)
  let ?s3 = "s\<lparr>gdt_table := tss_entry sel task (gdt_table s),
      mutexes := (mutexes s)(gdt_mutex := (mutexes s gdt_mutex)\<lparr>locked_count := 0, mowner := NULL\<rparr>),
      tasks := (tasks s)(task := (tasks s task)\<lparr>tss := start_tss entry esp, tss_sel := sel\<rparr>)\<rparr>"
  from tss_init_runs [OF nn rep mutex sel] obtain s1 s2 where
    r1: "run_frame buf lsr (task_init site task entry esp name s) = Some s1"
    and r2: "run_frame buf lsr s1 = Some (tss_fill sel task entry esp name s2)"
    and s2: "tss_fill sel task entry esp name s2 = push_frame (F_task_rest task name) ?s3"
    and same: "gdt_table s2 = gdt_table s" "tasks s2 = tasks s" by blast
  have ok1: "tss_ok T s2" using ok tss_ok_cong [of s2 s T] same by simp
  have ok3: "tss_ok (insert task T) ?s3"
    using tss_fill_ok [OF ok1 new, of sel entry esp name] sel same
      tss_ok_cong [of ?s3 "tss_fill sel task entry esp name s2" "insert task T"] unfolding s2 by simp
  let ?u = "upd_mutex gdt_mutex (\<lambda>x. x\<lparr>locked_count := 0, mowner := NULL\<rparr>)"
  have "list_of ?s3 = list_of (?u s)"
    by (rule ext, rename_tac q, case_tac q) (simp_all add: upd_mutex_def)
  then have "qrep T ?s3 a" using qrep_cong [OF qrep_upd_mutex [OF rep], of _ ?s3 gdt_mutex] by simp
  then have q3: "qrep (insert task T) ?s3 a" by (rule qrep_mono) blast
  have off: "off_kind a k task" for k using qrep_subset [OF rep] new by (auto simp: off_kind_def)
  have "kernel_strncpy (task + off_name) name TASK_NAME_SIZE (kmem ?s3) = Some m" using m by simp
  from task_rest_effect [OF T q3 _ off this] obtain h r l where
    r3: "task_rest task name ?s3 = Some (?s3\<lparr>nodes := h, ready_list := r, task_list := l, kmem := m,
      tasks := (tasks ?s3)(task := fresh_task ?s3 task (tasks ?s3 task))\<rparr>)" (is "_ = Some ?s4")
    and q4: "qrep (insert task T) (?s3\<lparr>nodes := h, ready_list := r, task_list := l\<rparr>)
      ((a_ready (idle_task ?s3) task a)(Q_all := a Q_all @ [task]))" by auto
  have "qrep (insert task T) ?s4 ((a_ready (idle_task s) task a)(Q_all := a Q_all @ [task]))"
    using qrep_cong [OF q4, of ?s4] by simp
  moreover have "tss_ok (insert task T) ?s4"
    using ok3 tss_ok_cong [of ?s4 ?s3 "insert task T"] by (simp add: fresh_task_def)
  moreover have "run_frame buf lsr (tss_fill sel task entry esp name s2) = Some ?s4" unfolding s2 using r3 by (simp add: run_frame_def push_frame_def)
  moreover have "?s4 = s\<lparr>gdt_table := tss_entry sel task (gdt_table s), nodes := h, ready_list := r, task_list := l, kmem := m,
      mutexes := (mutexes s)(gdt_mutex := (mutexes s gdt_mutex)\<lparr>locked_count := 0, mowner := NULL\<rparr>),
      tasks := (tasks s)(task := new_task s sel task entry esp)\<rparr>"
    by (simp add: new_task_def fresh_task_def)
  ultimately show ?thesis using r1 r2 by blast
qed

text \<open>Inside a running task the scheduler's invariant extends to the new task.\<close>

lemma task_init_pieces:
  assumes pre: "sched_pre T s a" and new: "task \<notin> T" "task_space (insert task T)"
    and mutex: "locked_count (mutexes s gdt_mutex) = 0" "a (Q_mutex gdt_mutex) = []"
    and sel: "gdt_scan 1 (gdt_table s) = sel" "0 \<le> sel"
    and tr: "tr s = word_of_int (tss_sel (tasks s (curr_task s)))"
  shows "\<exists>s1 s2 s3. run_frame buf lsr (task_init site task entry esp name s) = Some s1 \<and>
    run_frame buf lsr s1 = Some s2 \<and> run_frame buf lsr s2 = Some s3 \<and>
    sched_pre (insert task T) s3 (a(Q_ready := a Q_ready @ [task], Q_all := a Q_all @ [task])) \<and>
    tasks s3 = (tasks s)(task := new_task s sel task entry esp) \<and>
    curr_task s3 = curr_task s \<and> kstack s3 = kstack s \<and> eflags s3 = eflags s \<and> idle_task s3 = idle_task s"
proof -
  note inv = sched_preD [OF pre]
  obtain m where m: "kernel_strncpy (task + off_name) name TASK_NAME_SIZE (kmem s) = Some m"
    using kernel_strncpy_total [of "task + off_name" name 32 "kmem s"] by (auto simp: TASK_NAME_SIZE_def)
  have idle: "task \<noteq> idle_task s" using inv(3) new(1) by blast
  let ?a = "a(Q_ready := a Q_ready @ [task], Q_all := a Q_all @ [task])"
  from task_init_effect [OF new(2) inv(2) new(1) inv(8) mutex sel m, of buf lsr site entry esp] idle
  obtain s1 s2 s3 h r l where run: "run_frame buf lsr (task_init site task entry esp name s) = Some s1"
    "run_frame buf lsr s1 = Some s2" "run_frame buf lsr s2 = Some s3"
    and s3: "s3 = s\<lparr>gdt_table := tss_entry sel task (gdt_table s), nodes := h, ready_list := r, task_list := l, kmem := m,
      mutexes := (mutexes s)(gdt_mutex := (mutexes s gdt_mutex)\<lparr>locked_count := 0, mowner := NULL\<rparr>),
      tasks := (tasks s)(task := new_task s sel task entry esp)\<rparr>"
    and q: "qrep (insert task T) s3 ?a" and ok: "tss_ok (insert task T) s3" by (auto simp: a_ready_def)
  have cur: "curr_task s \<noteq> task" using inv(4) new(1) by blast
  have "tss_task s3 (word_of_int (tss_sel (tasks s3 (curr_task s)))) = curr_task s"
    using ok inv(4) by (simp add: tss_ok_def)
  then have "tr_ok s3" using cur by (simp add: tr_ok_def s3 tr tss_task_def tss_desc_def)
  moreover have "off_kind a K_wait task" using new_task_off [OF pre new(1)] .
  then have "off_kind ?a K_run u \<or> off_kind ?a K_wait u" for u
    using inv(7) [of u] by (cases "u = task") (auto simp: off_kind_run_iff off_kind_wait_iff)
  moreover have "off_kind ?a K_run (idle_task s)" "off_kind ?a K_wait (idle_task s)"
    using inv(5,6) idle by (auto simp: off_kind_run_iff off_kind_wait_iff)
  ultimately have "sched_pre (insert task T) s3 ?a"
    using inv(3,4) new(2) q ok unfolding sched_pre_def by (simp add: s3)
  with run s3 show ?thesis by auto
qed

lemma new_task_ready:
  "task \<noteq> idle_task s \<Longrightarrow> new_task s sel task entry esp =
    (tasks s task)\<lparr>tss := start_tss entry esp, tss_sel := sel, sleep_ticks := 0,
      time_ticks := TASK_TIME_SLICE_DEFAULT, slice_ticks := TASK_TIME_SLICE_DEFAULT, tstate := TASK_READY\<rparr>"
  by (simp add: new_task_def fresh_task_def)

text \<open>
  C19: \<open>task_init\<close> creates a ready task.  Called while nobody holds the mutex of the descriptor table and an
  entry of the table is free, for an object that is not yet a task, it runs through without switching
  tasks: the object joins the tasks with a descriptor of its own in the free entry, with the registers
  the entry point needs and interrupts enabled, a full time slice and the state ready, at the end of
  the ready queue and of the list of all tasks; the scheduler invariant holds for the larger set of
  tasks, and the caller goes on with its own flags.
\<close>

theorem task_init_creates_ready_task:
  assumes "sched_inv T s a" and "curr_task s \<noteq> idle_task s" and "task \<notin> T" and "task_space (insert task T)"
    and "locked_count (mutexes s gdt_mutex) = 0" and "a (Q_mutex gdt_mutex) = []"
    and "gdt_scan 1 (gdt_table s) = sel" and "0 \<le> sel"
    and "tr s = word_of_int (tss_sel (tasks s (curr_task s)))"
  shows "\<exists>s1 s2 s3. run_frame buf lsr (task_init site task entry esp name s) = Some s1 \<and>
    run_frame buf lsr s1 = Some s2 \<and> run_frame buf lsr s2 = Some s3 \<and>
    sched_inv (insert task T) s3 (a(Q_ready := a Q_ready @ [task], Q_all := a Q_all @ [task])) \<and>
    tasks s3 = (tasks s)(task := (tasks s task)\<lparr>tss := start_tss entry esp, tss_sel := sel, sleep_ticks := 0,
      time_ticks := TASK_TIME_SLICE_DEFAULT, slice_ticks := TASK_TIME_SLICE_DEFAULT, tstate := TASK_READY\<rparr>) \<and>
    curr_task s3 = curr_task s \<and> kstack s3 = kstack s \<and> eflags s3 = eflags s"
proof -
  obtain ts where "a Q_ready = curr_task s # ts" by (rule curr_not_idle [OF assms(1,2)])
  then have "a_next i (a(Q_ready := a Q_ready @ [task], Q_all := a Q_all @ [task])) = curr_task s" for i
    by (simp add: a_next_def)
  moreover have "task \<noteq> idle_task s" using sched_preD(3) [OF sched_invD(1) [OF assms(1)]] assms(3) by blast
  ultimately show ?thesis
    using task_init_pieces [OF sched_invD(1) [OF assms(1)] assms(3-9), of buf lsr site entry esp name]
    by (auto simp: sched_inv_def new_task_ready)
qed

lemma sample_gdt_facts:
  "gdt_table sample_state = sample_gdt" "tr sample_state = 0x20"
  "tss_sel (tasks sample_state task1) = 0x20" "locked_count (mutexes sample_state gdt_mutex) = 0"
  by (simp_all add: sample_state_def add_sem_waiter_def add_mutex_waiter_def Let_def sample_ready_def
      sample_held_def empty_state_def task_set_sleep_def set_state_def sample_task_def split: prod.split)

lemma sample_scan: "gdt_scan 1 (gdt_table sample_state) = 8"
  by (simp add: sample_gdt_facts gdt_scan.simps [of 1] sample_gdt_def make_segment_desc_def gdt_consts
      sizeof_segment_desc_t_def)

theorem task_init_creates_ready_task_witness:
  "\<exists>s1 s2 s3. run_frame id (\<lambda>_. 0x20) (task_init (0, 38, 0, 0) 0x7000 0x1234 0x9000 0 sample_state) = Some s1 \<and>
     run_frame id (\<lambda>_. 0x20) s1 = Some s2 \<and> run_frame id (\<lambda>_. 0x20) s2 = Some s3 \<and>
     sched_inv (insert 0x7000 sample_tasks) s3
       (sample_queues(Q_ready := [task1, task2, 0x7000], Q_all := [0x7000])) \<and>
     tss_eip (tss (tasks s3 0x7000)) = 0x1234"
proof -
  have "task_space (insert 0x7000 sample_tasks)"
    by (simp add: task_space_def sample_tasks_def sizeof_task_t_def)
  from task_init_creates_ready_task [OF sample_inv _ _ this _ _ sample_scan, of id "\<lambda>_. 0x20" "(0, 38, 0, 0)" "0x1234" "0x9000" 0]
  show ?thesis
    by (auto simp: sample_tasks_def sample_gdt_facts start_tss_def sample_queues_def)
qed

text \<open>
  C21: The descriptor found by \<open>gdt_alloc_desc\<close> is not reserved.  The mutex is released before \<open>tss_init\<close>
  marks the entry as used, so a second creation whose search runs in between gets the same selector;
  when both have filled their segment in, the selector of the first task denotes the segment of the
  second.
\<close>

theorem gdt_alloc_not_reserved:
  assumes "gdt_scan 1 (gdt_table s) = sel" and "0 \<le> sel" and "t1 \<noteq> t2"
  shows "gdt_scan 1 (gdt_table (gdt_scan_piece t1 e1 p1 n1 s)) = sel \<and>
    (let s' = tss_fill sel t2 e2 p2 n2 (tss_fill sel t1 e1 p1 n1 s)
     in tss_sel (tasks s' t1) = tss_sel (tasks s' t2) \<and>
        tss_task s' (word_of_int (tss_sel (tasks s' t1))) = t2)"
proof -
  have "gdt_table (mutex_unlock gdt_mutex s0) = gdt_table s0" for s0
    by (auto simp: mutex_unlock_def Let_def split: prod.split)
  with assms free_entry [OF assms(1,2)] show ?thesis
    by (simp add: gdt_scan_piece_def tss_fill_def Let_def tss_task_def tss_desc_def)
qed

theorem gdt_alloc_not_reserved_witness:
  "tss_task (tss_fill 8 0x8000 0 0 0 (tss_fill 8 0x7000 0 0 0 sample_state)) 8 = 0x8000"
proof -
  from gdt_alloc_not_reserved [OF sample_scan, of "0x7000" "0x8000" 0 0 0 0 0 0] show ?thesis
    by (simp add: Let_def tss_fill_def)
qed

end
