(* ===== verification/Bitmap.thy ===== *)
theory Bitmap
  imports Klib
begin

text \<open>
  The bitmap of \<open>src/source/kernel/tools/bitmap.c\<close>: bits packed into the bytes at \<open>bits\<close>.  The static
  variable \<open>search_idx\<close> of \<open>bitmap_alloc_nbits\<close> and the messages it logs are the state \<open>alloc_st\<close>; a
  logged message is its format with its integer arguments, in the order of the calls (what
  \<open>log_printf\<close> does with one is modelled in \<open>Log\<close>).  A shift by a negative bit number inside a byte is
  undefined in C: the operation is then \<open>None\<close>.
\<close>

section \<open>Operations\<close>

record bitmap_t =
  bitcount :: int
  bits :: addr

definition bitmap_byte_count :: "int \<Rightarrow> int" where
  "bitmap_byte_count bitcount0 = (bitcount0 + 7) sdiv 8"

definition bitmap_init :: "addr \<Rightarrow> int \<Rightarrow> int \<Rightarrow> mem \<Rightarrow> (bitmap_t \<times> mem) option" where
  "bitmap_init bits0 bitcount0 init_bit m =
    (let bitmap = \<lparr>bitcount = bitcount0, bits = bits0\<rparr>;
         bytes = bitmap_byte_count (bitcount bitmap)
     in map_option (\<lambda>m'. (bitmap, m'))
          (kernel_memset (bits bitmap) (if init_bit \<noteq> 0 then 0xff else 0) bytes m))"

definition bit_byte :: "bitmap_t \<Rightarrow> int \<Rightarrow> addr" where
  "bit_byte bitmap index = bits bitmap + word_of_int (index sdiv 8)"

definition bitmap_get_bit :: "bitmap_t \<Rightarrow> int \<Rightarrow> mem \<Rightarrow> int option" where
  "bitmap_get_bit bitmap index m =
    map_option (\<lambda>b. if uint (m (bit_byte bitmap index)) AND b \<noteq> 0 then 1 else 0) (shl1 (index smod 8))"

definition set_one :: "bitmap_t \<Rightarrow> int \<Rightarrow> int \<Rightarrow> mem \<Rightarrow> mem option" where
  "set_one bitmap index bit0 m =
    (let p = bit_byte bitmap index
     in if bit0 = 1 then map_option (\<lambda>b. m(p := word_of_int (uint (m p) OR b))) (shl1 (index smod 8))
        else map_option (\<lambda>b. m(p := word_of_int (uint (m p) AND NOT b))) (shl1 (index smod 8)))"

function set_loop :: "bitmap_t \<Rightarrow> int \<Rightarrow> int \<Rightarrow> int \<Rightarrow> int \<Rightarrow> mem \<Rightarrow> mem option" where
  "set_loop bitmap i index count bit0 m =
    (if i < count \<and> index < bitcount bitmap then
       Option.bind (set_one bitmap index bit0 m) (set_loop bitmap (i + 1) (index + 1) count bit0)
     else Some m)"
  by pat_completeness auto
termination
  by (relation "measure (\<lambda>(b, i, index, count, bit0, m). nat (count - i))") auto

declare set_loop.simps [simp del]

definition bitmap_set_bit :: "bitmap_t \<Rightarrow> int \<Rightarrow> int \<Rightarrow> int \<Rightarrow> mem \<Rightarrow> mem option" where
  "bitmap_set_bit bitmap index count bit0 m = set_loop bitmap 0 index count bit0 m"

definition bitmap_is_set :: "bitmap_t \<Rightarrow> int \<Rightarrow> mem \<Rightarrow> int option" where
  "bitmap_is_set bitmap index m = map_option (\<lambda>v. if v \<noteq> 0 then 1 else 0) (bitmap_get_bit bitmap index m)"

type_synonym log_call = "string \<times> int list"

record alloc_st =
  search_idx :: int
  alog :: "log_call list"

definition logged :: "string \<Rightarrow> int list \<Rightarrow> alloc_st \<Rightarrow> alloc_st" where
  "logged fmt args st = st\<lparr>alog := alog st @ [(fmt, args)]\<rparr>"

text \<open>The bytes of the message, in Chinese, that a run is too short and the outer search goes on.\<close>

definition retry_msg :: string where
  "retry_msg = map char_of
     [0xe4, 0xb8, 0x8d, 0xe8, 0xb6, 0xb3, 0x63, 0x6f, 0x75, 0x6e, 0x74, 0xe4, 0xb8, 0xaa, 0xef, 0xbc,
      0x8c, 0xe9, 0x80, 0x80, 0xe5, 0x87, 0xba, 0xef, 0xbc, 0x8c, 0xe9, 0x87, 0x8d, 0xe6, 0x96, 0xb0,
      0xe8, 0xbf, 0x9b, 0xe8, 0xa1, 0x8c, 0xe6, 0x9c, 0x80, 0xe5, 0xa4, 0x96, 0xe5, 0xb1, 0x82, 0xe7,
      0x9a, 0x84, 0xe6, 0xaf, 0x94, 0xe8, 0xbe, 0x83, 0xa :: nat]"

definition next_idx :: "alloc_st \<Rightarrow> alloc_st" where
  "next_idx st = st\<lparr>search_idx := search_idx st + 1\<rparr>"

text \<open>
  The inner loop: it is left with the value of \<open>i\<close>, of \<open>ok_idx\<close> and the state.  Each round tests the bit
  at the search index before it moves on, so the start of the run is tested again and the last bit of
  the run is not tested.
\<close>

function run_loop ::
    "bitmap_t \<Rightarrow> int \<Rightarrow> int \<Rightarrow> int \<Rightarrow> int \<Rightarrow> mem \<Rightarrow> alloc_st \<Rightarrow> (int \<times> int \<times> alloc_st) option" where
  "run_loop bitmap bit0 count i ok_idx m st =
    (if i < count \<and> search_idx st < bitcount bitmap then
       let st1 = logged ''Checking bit at search_idx1  %d\<newline>'' [search_idx st] st
       in Option.bind (bitmap_get_bit bitmap (search_idx st1) m)
            (\<lambda>v. if v \<noteq> bit0 then
                   Some (i, - 1, logged retry_msg [] (next_idx st1))
                 else
                   let st2 = next_idx st1;
                       st3 = logged ''Checking bit at search_idx2  %d\<newline>'' [search_idx st2] st2
                   in run_loop bitmap bit0 count (i + 1) ok_idx m st3)
     else Some (i, ok_idx, st))"
  by pat_completeness auto
termination
  by (relation "measure (\<lambda>(b, bit0, count, i, ok, m, st). nat (count - i))") auto

declare run_loop.simps [simp del]

partial_function (option) alloc_loop ::
    "bitmap_t \<Rightarrow> int \<Rightarrow> int \<Rightarrow> mem \<Rightarrow> alloc_st \<Rightarrow> (int \<times> mem \<times> alloc_st) option" where
  "alloc_loop bitmap bit0 count m st =
    (if search_idx st < bitcount bitmap then
       let st1 = logged ''Checking bit at bitmap->bitcount  %d\<newline>'' [bitcount bitmap] st
       in Option.bind (bitmap_get_bit bitmap (search_idx st1) m)
            (\<lambda>v. if v \<noteq> bit0 then alloc_loop bitmap bit0 count m (next_idx st1)
                 else
                   Option.bind (run_loop bitmap bit0 count 1 (search_idx st1) m st1)
                     (\<lambda>(i, ok_idx, st2).
                        if i \<ge> count then
                          let st3 = logged ''Found %d consecutive free bits starting at index %d\<newline>''
                                      [count, ok_idx] st2
                          in map_option (\<lambda>m'. (ok_idx, m', st3))
                               (bitmap_set_bit bitmap ok_idx count (NOT bit0) m)
                        else alloc_loop bitmap bit0 count m st2))
     else Some (- 1, m, logged ''No free space found for %d bits\<newline>'' [count] st))"

definition bitmap_alloc_nbits ::
    "bitmap_t \<Rightarrow> int \<Rightarrow> int \<Rightarrow> mem \<Rightarrow> alloc_st \<Rightarrow> (int \<times> mem \<times> alloc_st) option" where
  "bitmap_alloc_nbits bitmap bit0 count m st = alloc_loop bitmap bit0 count m st"

section \<open>Reading and writing single bits\<close>

text \<open>A bitmap whose bits are numbered without wrapping around the address space.\<close>

definition bitmap_ok :: "bitmap_t \<Rightarrow> bool" where
  "bitmap_ok bitmap \<longleftrightarrow> 0 \<le> bitcount bitmap \<and> bitcount bitmap < 2 ^ 31"

definition bit_of :: "bitmap_t \<Rightarrow> mem \<Rightarrow> int \<Rightarrow> bool" where
  "bit_of bitmap m i \<longleftrightarrow> bit (m (bits bitmap + word_of_int (i div 8))) (nat (i mod 8))"

lemma nonneg_sdiv_smod: "0 \<le> i \<Longrightarrow> i sdiv 8 = i div 8" "0 \<le> i \<Longrightarrow> i smod 8 = i mod (8::int)"
  by (simp_all add: signed_divide_int_def signed_modulo_int_def minus_div_mult_eq_mod sgn_if)

lemma shl1_mod: "shl1 (i mod 8) = Some (2 ^ nat (i mod 8))"
  using pos_mod_bound [of 8 i] by (simp add: shl1_def)

lemma uint_and_power: "uint (x :: uint8_t) AND 2 ^ k \<noteq> 0 \<longleftrightarrow> bit x k"
  by (metis and_exp_eq_0_iff_not_bit bit_uint_iff bit_imp_le_length)

lemma bitmap_get_bit_eq: "0 \<le> i \<Longrightarrow> bitmap_get_bit bitmap i m = Some (if bit_of bitmap m i then 1 else 0)"
  unfolding bitmap_get_bit_def
  by (simp only: shl1_mod option.map uint_and_power bit_of_def bit_byte_def nonneg_sdiv_smod)

lemma bit_word_set: "bit (word_of_int (uint (x :: uint8_t) OR 2 ^ k) :: uint8_t) j \<longleftrightarrow> bit x j \<or> (j = k \<and> j < 8)"
  by (auto simp: bit_simps dest: bit_imp_le_length)

lemma bit_word_clear: "bit (word_of_int (uint (x :: uint8_t) AND NOT (2 ^ k)) :: uint8_t) j \<longleftrightarrow> bit x j \<and> j \<noteq> k"
  by (auto simp: bit_simps dest: bit_imp_le_length)

lemma byte_addr_inj:
  assumes "0 \<le> i" "i < 2 ^ 31" "0 \<le> j" "j < 2 ^ 31"
  shows "(word_of_int (i div 8) :: addr) = word_of_int (j div 8) \<longleftrightarrow> i div 8 = j div 8"
proof -
  have "take_bit 32 (i div 8) = i div 8" "take_bit 32 (j div 8) = j div 8"
    using assms by (simp_all add: take_bit_int_eq_self_iff) linarith+
  then show ?thesis by (simp add: word_of_int_eq_iff)
qed

text \<open>Writing one bit changes that bit and no other one.\<close>

lemma set_one_eq:
  assumes "0 \<le> i" and "i < 2 ^ 31"
  shows "\<exists>m'. set_one bitmap i v m = Some m' \<and>
    (\<forall>j. 0 \<le> j \<and> j < 2 ^ 31 \<longrightarrow> bit_of bitmap m' j = (if j = i then v = 1 else bit_of bitmap m j)) \<and>
    (\<forall>a. a \<noteq> bits bitmap + word_of_int (i div 8) \<longrightarrow> m' a = m a)"
proof -
  let ?p = "bits bitmap + word_of_int (i div 8)" and ?k = "nat (i mod 8)"
  let ?m' = "m(?p := if v = 1 then word_of_int (uint (m ?p) OR 2 ^ ?k) else word_of_int (uint (m ?p) AND NOT (2 ^ ?k)))"
  have eq: "set_one bitmap i v m = Some ?m'"
    by (cases "v = 1") (simp_all only: set_one_def Let_def shl1_mod option.map bit_byte_def nonneg_sdiv_smod [OF assms(1)] simp_thms if_True if_False)
  have k: "?k < 8" by simp
  have split: "j = i \<longleftrightarrow> j div 8 = i div 8 \<and> nat (j mod 8) = ?k" if "0 \<le> j" for j
  proof
    assume "j div 8 = i div 8 \<and> nat (j mod 8) = ?k"
    then have "j div 8 = i div 8" and "j mod 8 = i mod 8" by (simp_all add: eq_nat_nat_iff)
    then show "j = i" by (metis div_mult_mod_eq)
  qed simp
  have "bit_of bitmap ?m' j = (if j = i then v = 1 else bit_of bitmap m j)"
    if "0 \<le> j" "j < 2 ^ 31" for j
  proof (cases "j div 8 = i div 8")
    case True
    then show ?thesis
      using split [OF that(1)] k by (cases "v = 1") (auto simp: bit_of_def bit_word_set bit_word_clear)
  next
    case False
    then have "bits bitmap + word_of_int (j div 8) \<noteq> ?p"
      using byte_addr_inj [OF that assms] by simp
    with False show ?thesis by (auto simp: bit_of_def)
  qed
  with eq show ?thesis by (intro exI [of _ ?m']) (simp add: fun_upd_other)
qed

section \<open>Ranges of bits\<close>

text \<open>
  What a store of numbered bits promises its clients: after setting a range, exactly the bits of the
  range have the new value.
\<close>

locale bit_store =
  fixes get :: "'m \<Rightarrow> int \<Rightarrow> bool"
    and set_range :: "int \<Rightarrow> int \<Rightarrow> int \<Rightarrow> 'm \<Rightarrow> 'm option"
    and limit :: int
  assumes set_range_total: "0 \<le> index \<Longrightarrow> \<exists>m'. set_range index count v m = Some m'"
    and get_set: "0 \<le> index \<Longrightarrow> set_range index count v m = Some m' \<Longrightarrow> 0 \<le> j \<Longrightarrow> j < limit \<Longrightarrow>
      get m' j = (if index \<le> j \<and> j < index + count then v = 1 else get m j)"
begin

lemma set_twice:
  assumes "0 \<le> index" and "set_range index count v m = Some m1" and "set_range index count w m1 = Some m2"
    and "0 \<le> j" and "j < limit"
  shows "get m2 j = (if index \<le> j \<and> j < index + count then w = 1 else get m j)"
  using get_set [OF assms(1,2,4,5)] get_set [OF assms(1,3,4,5)] by simp

lemma set_then_clear:
  assumes "0 \<le> index" and "set_range index count 1 m = Some m1" and "set_range index count 0 m1 = Some m2"
    and "\<And>j. index \<le> j \<Longrightarrow> j < index + count \<Longrightarrow> \<not> get m j" and "0 \<le> j" and "j < limit"
  shows "get m2 j = get m j"
  using set_twice [OF assms(1-3,5,6)] assms(4) by auto

lemma set_nothing_new:
  assumes "0 \<le> index" and "set_range index count v m = Some m'"
    and "\<And>j. index \<le> j \<Longrightarrow> j < index + count \<Longrightarrow> get m j = (v = 1)" and "0 \<le> j" and "j < limit"
  shows "get m' j = get m j"
  using get_set [OF assms(1,2,4,5)] assms(3) by auto

end

lemma set_loop_eq:
  assumes "bitmap_ok bitmap" and "0 \<le> index"
  shows "\<exists>m'. set_loop bitmap i index count v m = Some m' \<and>
    (\<forall>j. 0 \<le> j \<and> j < bitcount bitmap \<longrightarrow>
      bit_of bitmap m' j = (if index \<le> j \<and> j < index + (count - i) then v = 1 else bit_of bitmap m j)) \<and>
    (\<forall>a. (\<forall>j. 0 \<le> j \<and> j < bitcount bitmap \<longrightarrow> a \<noteq> bits bitmap + word_of_int (j div 8)) \<longrightarrow> m' a = m a)"
  using assms
proof (induction bitmap i index count v m rule: set_loop.induct)
  case (1 bitmap i index count v m)
  show ?case
  proof (cases "i < count \<and> index < bitcount bitmap")
    case False
    then show ?thesis by (subst set_loop.simps) auto
  next
    case True
    have lim: "bitcount bitmap < 2 ^ 31" using "1.prems"(1) by (simp add: bitmap_ok_def)
    from set_one_eq [of index bitmap v m] "1.prems"(2) True lim obtain m1 where
      m1: "set_one bitmap index v m = Some m1"
        "\<And>j. 0 \<le> j \<Longrightarrow> j < 2 ^ 31 \<Longrightarrow> bit_of bitmap m1 j = (if j = index then v = 1 else bit_of bitmap m j)"
        "\<And>a. a \<noteq> bits bitmap + word_of_int (index div 8) \<Longrightarrow> m1 a = m a"
      by force
    have "0 \<le> index + 1" using "1.prems"(2) by simp
    from "1.IH" [OF True m1(1) "1.prems"(1) this] obtain m2 where
      m2: "set_loop bitmap (i + 1) (index + 1) count v m1 = Some m2"
        "\<forall>j. 0 \<le> j \<and> j < bitcount bitmap \<longrightarrow> bit_of bitmap m2 j =
          (if index + 1 \<le> j \<and> j < index + 1 + (count - (i + 1)) then v = 1 else bit_of bitmap m1 j)"
        "\<forall>a. (\<forall>j. 0 \<le> j \<and> j < bitcount bitmap \<longrightarrow> a \<noteq> bits bitmap + word_of_int (j div 8)) \<longrightarrow> m2 a = m1 a"
      by blast
    have "set_loop bitmap i index count v m = Some m2"
      using True m1(1) m2(1) by (subst set_loop.simps) simp
    moreover have "bit_of bitmap m2 j = (if index \<le> j \<and> j < index + (count - i) then v = 1 else bit_of bitmap m j)"
      if "0 \<le> j" "j < bitcount bitmap" for j
    proof -
      have "bit_of bitmap m1 j = (if j = index then v = 1 else bit_of bitmap m j)"
        using m1(2) [of j] that lim by linarith
      then show ?thesis using m2(2) [rule_format, of j] that True by auto
    qed
    moreover have "m2 a = m a"
      if "\<forall>j. 0 \<le> j \<and> j < bitcount bitmap \<longrightarrow> a \<noteq> bits bitmap + word_of_int (j div 8)" for a
    proof -
      have "a \<noteq> bits bitmap + word_of_int (index div 8)" using that "1.prems"(2) True by blast
      with m2(3) [rule_format, of a] that m1(3) [of a] show ?thesis by simp
    qed
    ultimately show ?thesis by blast
  qed
qed

text \<open>The bitmap is such a store, as far as its bits are numbered.\<close>

lemma set_loop_total: "0 \<le> index \<Longrightarrow> \<exists>m'. set_loop bitmap i index count v m = Some m'"
proof (induction bitmap i index count v m rule: set_loop.induct)
  case (1 bitmap i index count v m)
  obtain m1 where "set_one bitmap index v m = Some m1"
    unfolding set_one_def Let_def nonneg_sdiv_smod(2) [OF "1.prems"] shl1_mod by (cases "v = 1") auto
  with 1 show ?case by (subst set_loop.simps) auto
qed

abbreviation bit_limit :: "bitmap_t \<Rightarrow> int" where
  "bit_limit bitmap \<equiv> (if bitmap_ok bitmap then bitcount bitmap else 0)"

interpretation bm: bit_store "bit_of bitmap" "bitmap_set_bit bitmap" "bit_limit bitmap"
  for bitmap
proof unfold_locales
  fix index count v j :: int and m m' :: mem
  assume "0 \<le> index"
  then show "\<exists>m'. bitmap_set_bit bitmap index count v m = Some m'"
    by (simp add: bitmap_set_bit_def set_loop_total)
  assume m': "bitmap_set_bit bitmap index count v m = Some m'" and j: "0 \<le> j" "j < bit_limit bitmap"
  then have ok: "bitmap_ok bitmap" by (auto split: if_splits)
  from set_loop_eq [OF ok \<open>0 \<le> index\<close>, of 0 count v m] m' j ok
  show "bit_of bitmap m' j = (if index \<le> j \<and> j < index + count then v = 1 else bit_of bitmap m j)"
    by (auto simp: bitmap_set_bit_def)
qed

section \<open>Searching\<close>

lemma search_idx_simps [simp]:
  "search_idx (logged f xs st) = search_idx st" "search_idx (next_idx st) = search_idx st + 1"
  by (simp_all add: logged_def next_idx_def)

text \<open>The tested bits, from the state \<open>st\<close> up to the search index \<open>k\<close>, all have the value looked for.\<close>

definition all_match :: "bitmap_t \<Rightarrow> int \<Rightarrow> mem \<Rightarrow> int \<Rightarrow> int \<Rightarrow> bool" where
  "all_match bitmap v m i k \<longleftrightarrow> (\<forall>j. i \<le> j \<and> j < k \<longrightarrow> bit_of bitmap m j = (v = 1))"

lemma run_loop_spec:
  assumes "0 \<le> search_idx st" and "v = 0 \<or> v = 1"
  shows "\<exists>i' ok' st'. run_loop bitmap v count i ok m st = Some (i', ok', st') \<and>
    search_idx st \<le> search_idx st' \<and>
    (i < count \<and> search_idx st < bitcount bitmap \<longrightarrow> search_idx st < search_idx st') \<and>
    (count \<le> i' \<longrightarrow> ok' = ok \<and> search_idx st' = search_idx st + max 0 (count - i) \<and>
       search_idx st' \<le> max (search_idx st) (bitcount bitmap) \<and>
       all_match bitmap v m (search_idx st) (search_idx st'))"
  using assms
proof (induction bitmap v count i ok m st rule: run_loop.induct)
  case (1 bitmap v count i ok m st)
  show ?case
  proof (cases "i < count \<and> search_idx st < bitcount bitmap")
    case False
    then show ?thesis by (subst run_loop.simps) (auto simp: all_match_def)
  next
    case go: True
    let ?st1 = "logged ''Checking bit at search_idx1  %d\<newline>'' [search_idx st] st"
    let ?st3 = "logged ''Checking bit at search_idx2  %d\<newline>'' [search_idx (next_idx ?st1)] (next_idx ?st1)"
    note get = bitmap_get_bit_eq [OF "1.prems"(1), of bitmap m]
    show ?thesis
    proof (cases "bit_of bitmap m (search_idx st) = (v = 1)")
      case True
      then have val: "(if bit_of bitmap m (search_idx st) then 1 else 0) = v" using "1.prems"(2) by auto
      have step: "run_loop bitmap v count i ok m st = run_loop bitmap v count (i + 1) ok m ?st3"
        using go val by (subst run_loop.simps) (simp add: Let_def get)
      have "0 \<le> search_idx ?st3" using "1.prems"(1) by simp
      from "1.IH" [OF go refl _ _ refl refl this "1.prems"(2)] get val obtain i' ok' st' where
        r: "run_loop bitmap v count (i + 1) ok m ?st3 = Some (i', ok', st')"
          "search_idx ?st3 \<le> search_idx st'"
          "count \<le> i' \<longrightarrow> ok' = ok \<and> search_idx st' = search_idx ?st3 + max 0 (count - (i + 1)) \<and>
            search_idx st' \<le> max (search_idx ?st3) (bitcount bitmap) \<and>
            all_match bitmap v m (search_idx ?st3) (search_idx st')"
        by force
      have "all_match bitmap v m (search_idx st) k"
        if "all_match bitmap v m (search_idx st + 1) k" for k
        using that True unfolding all_match_def by (metis add1_zle_eq order_le_less)
      with step r go show ?thesis by (intro exI [of _ i'] exI [of _ ok'] exI [of _ st']) auto
    next
      case False
      then have "(if bit_of bitmap m (search_idx st) then 1 else 0) \<noteq> v" using "1.prems"(2) by auto
      with go show ?thesis by (subst run_loop.simps) (simp add: Let_def get)
    qed
  qed
qed

text \<open>
  The result of a search: nothing and unchanged memory, or the start of a run of which all bits but
  the last one have been tested.
\<close>

definition alloc_result :: "bitmap_t \<Rightarrow> int \<Rightarrow> int \<Rightarrow> mem \<Rightarrow> int \<Rightarrow> int \<times> mem \<times> alloc_st \<Rightarrow> bool" where
  "alloc_result bitmap v count m start r \<longleftrightarrow>
    (case r of (k, m', st') \<Rightarrow>
       (k = - 1 \<and> m' = m \<and> bitcount bitmap \<le> search_idx st') \<or>
       (start \<le> k \<and> k < bitcount bitmap \<and> bit_of bitmap m k = (v = 1) \<and>
        all_match bitmap v m k (k + count - 1) \<and> k + count - 1 \<le> bitcount bitmap \<and>
        search_idx st' = k + max 0 (count - 1) \<and> bitmap_set_bit bitmap k count (NOT v) m = Some m'))"

lemma alloc_result_mono: "alloc_result bitmap v count m start' r \<Longrightarrow> start \<le> start' \<Longrightarrow> alloc_result bitmap v count m start r"
  by (auto simp: alloc_result_def)

text \<open>One round at a bit that matches: the search ends there, or goes on further to the right.\<close>

lemma alloc_round:
  assumes idx: "0 \<le> search_idx st" "search_idx st < bitcount bitmap" and v: "v = 0 \<or> v = 1"
    and match: "bit_of bitmap m (search_idx st) = (v = 1)"
  shows "(\<exists>r. alloc_loop bitmap v count m st = Some r \<and> alloc_result bitmap v count m (search_idx st) r) \<or>
    (\<exists>st'. alloc_loop bitmap v count m st = alloc_loop bitmap v count m st' \<and> search_idx st < search_idx st')"
proof -
  let ?st1 = "logged ''Checking bit at bitmap->bitcount  %d\<newline>'' [bitcount bitmap] st"
  note get = bitmap_get_bit_eq [OF idx(1), of bitmap m]
  have val: "(if bit_of bitmap m (search_idx st) then 1 else 0) = v" using match v by auto
  have "0 \<le> search_idx ?st1" using idx(1) by simp
  from run_loop_spec [OF this v, of bitmap count 1 "search_idx st" m] obtain i' ok' st2 where
    r: "run_loop bitmap v count 1 (search_idx st) m ?st1 = Some (i', ok', st2)"
      "1 < count \<longrightarrow> search_idx st < search_idx st2"
      "count \<le> i' \<longrightarrow> ok' = search_idx st \<and> search_idx st2 = search_idx st + max 0 (count - 1) \<and>
        search_idx st2 \<le> max (search_idx st) (bitcount bitmap) \<and>
        all_match bitmap v m (search_idx st) (search_idx st2)"
    using idx(2) by auto
  show ?thesis
  proof (cases "count \<le> i'")
    case found: True
    obtain m' where m': "bitmap_set_bit bitmap (search_idx st) count (NOT v) m = Some m'"
      using bm.set_range_total [OF idx(1)] by blast
    let ?st3 = "logged ''Found %d consecutive free bits starting at index %d\<newline>'' [count, search_idx st] st2"
    have "alloc_loop bitmap v count m st = Some (search_idx st, m', ?st3)"
      using idx(2) val r(1,3) found m' by (subst alloc_loop.simps) (simp add: Let_def get)
    moreover have "alloc_result bitmap v count m (search_idx st) (search_idx st, m', ?st3)"
      using r(3) found idx(2) match m' unfolding alloc_result_def by (auto simp: all_match_def)
    ultimately show ?thesis by blast
  next
    case False
    then have "alloc_loop bitmap v count m st = alloc_loop bitmap v count m st2"
      using idx(2) val r(1) by (subst alloc_loop.simps) (simp add: Let_def get)
    moreover have "1 < count" using r(1) False by (cases "1 < count") (simp_all add: run_loop.simps)
    ultimately show ?thesis using r(2) by blast
  qed
qed

lemma alloc_loop_spec:
  assumes "0 \<le> search_idx st" and v: "v = 0 \<or> v = 1"
  shows "\<exists>r. alloc_loop bitmap v count m st = Some r \<and> alloc_result bitmap v count m (search_idx st) r"
  using assms(1)
proof (induction "nat (bitcount bitmap - search_idx st)" arbitrary: st rule: less_induct)
  case less
  show ?case
  proof (cases "search_idx st < bitcount bitmap")
    case False
    then show ?thesis by (subst alloc_loop.simps) (simp add: alloc_result_def)
  next
    case go: True
    let ?st1 = "logged ''Checking bit at bitmap->bitcount  %d\<newline>'' [bitcount bitmap] st"
    have again: "\<exists>r. alloc_loop bitmap v count m st' = Some r \<and> alloc_result bitmap v count m (search_idx st) r"
      if "search_idx st < search_idx st'" for st'
      using less.hyps [of st'] that go less.prems alloc_result_mono [of bitmap v count m "search_idx st'" _ "search_idx st"]
      by fastforce
    show ?thesis
    proof (cases "bit_of bitmap m (search_idx st) = (v = 1)")
      case False
      then have "(if bit_of bitmap m (search_idx st) then 1 else 0) \<noteq> v" using v by auto
      then have "alloc_loop bitmap v count m st = alloc_loop bitmap v count m (next_idx ?st1)"
        using go by (subst alloc_loop.simps) (simp add: Let_def bitmap_get_bit_eq [OF less.prems, of bitmap m])
      with again [of "next_idx ?st1"] show ?thesis by simp
    next
      case True
      from alloc_round [OF less.prems go v True, of count] again show ?thesis by metis
    qed
  qed
qed

section \<open>Properties\<close>

lemma bitmap_init_spec:
  assumes "0 \<le> n" and "n < 2 ^ 31" and "p \<noteq> NULL"
  shows "\<exists>m'. bitmap_init p n b m = Some (\<lparr>bitcount = n, bits = p\<rparr>, m') \<and>
    (\<forall>j. 0 \<le> j \<and> j < n \<longrightarrow> bitmap_get_bit \<lparr>bitcount = n, bits = p\<rparr> j m' = Some (if b \<noteq> 0 then 1 else 0)) \<and>
    (\<forall>a. a \<notin> span p (nat ((n + 7) div 8)) \<longrightarrow> m' a = m a)"
proof -
  let ?n = "nat ((n + 7) div 8)" and ?v = "if b \<noteq> 0 then 0xff else 0 :: uint8_t"
  let ?m' = "write_bytes p (replicate ?n ?v) m"
  have bytes: "bitmap_byte_count n = int ?n"
    using assms(1) by (simp add: bitmap_byte_count_def nonneg_sdiv_smod)
  have small: "length (replicate ?n ?v) \<le> 2 ^ 32" using assms(1,2) by simp
  have "bitmap_init p n b m = Some (\<lparr>bitcount = n, bits = p\<rparr>, ?m')"
    using kernel_memset_eq [OF assms(3), of ?v ?n m] by (simp add: bitmap_init_def bytes)
  moreover have "bitmap_get_bit \<lparr>bitcount = n, bits = p\<rparr> j ?m' = Some (if b \<noteq> 0 then 1 else 0)"
    if j: "0 \<le> j" "j < n" for j
  proof -
    have lt: "nat (j div 8) < ?n" using j by linarith
    have "word_of_int (j div 8) = (of_nat (nat (j div 8)) :: addr)" using j(1) by simp
    then have "?m' (p + word_of_int (j div 8)) = ?v"
      using write_bytes_at [OF small, of "nat (j div 8)" p m] lt by simp
    moreover have "bit (0xff :: uint8_t) (nat (j mod 8))"
    proof -
      have "(0xff :: uint8_t) = mask 8" by (simp add: mask_eq_exp_minus_1)
      moreover have "nat (j mod 8) < 8" by simp
      ultimately show ?thesis by (simp only: bit_mask_iff) simp
    qed
    ultimately show ?thesis
      using bitmap_get_bit_eq [OF j(1), of "\<lparr>bitcount = n, bits = p\<rparr>" ?m'] by (simp add: bit_of_def)
  qed
  moreover have "?m' a = m a" if "a \<notin> span p ?n" for a
    using that by (simp add: write_bytes_other)
  ultimately show ?thesis by blast
qed

text \<open>
  \<open>bitmap_init\<close> makes a bitmap whose bits all have the initial value.
\<close>

theorem bitmap_init_bits:
  assumes "0 \<le> n" and "n < 2 ^ 31" and "p \<noteq> NULL"
  shows "\<exists>m'. bitmap_init p n b m = Some (\<lparr>bitcount = n, bits = p\<rparr>, m') \<and>
    (\<forall>j. 0 \<le> j \<and> j < n \<longrightarrow> bitmap_get_bit \<lparr>bitcount = n, bits = p\<rparr> j m' = Some (if b \<noteq> 0 then 1 else 0)) \<and>
    (\<forall>a. a \<notin> span p (nat ((n + 7) div 8)) \<longrightarrow> m' a = m a)"
  using assms by (rule bitmap_init_spec)

theorem bitmap_init_bits_witness:
  "\<exists>m'. bitmap_init 0x100 10 1 (\<lambda>_. 0) = Some (\<lparr>bitcount = 10, bits = 0x100\<rparr>, m') \<and>
     bitmap_get_bit \<lparr>bitcount = 10, bits = 0x100\<rparr> 9 m' = Some 1"
  using bitmap_init_bits [of 10 "0x100" 1 "\<lambda>_. 0"] by auto

text \<open>
  C30: \<open>bitmap_set_bit\<close> sets or clears exactly the bits of the given range, cut off at the end of the
  bitmap, as \<open>bitmap_get_bit\<close> sees them.
\<close>

theorem bitmap_set_get:
  assumes "bitmap_ok bitmap" and "0 \<le> index" and "0 \<le> j" and "j < bitcount bitmap"
  shows "\<exists>m'. bitmap_set_bit bitmap index count v m = Some m' \<and>
    bitmap_get_bit bitmap j m' =
      (if index \<le> j \<and> j < index + count then Some (if v = 1 then 1 else 0) else bitmap_get_bit bitmap j m)"
proof -
  obtain m' where m': "bitmap_set_bit bitmap index count v m = Some m'"
    using bm.set_range_total [OF assms(2)] by blast
  from bm.get_set [OF assms(2) m' assms(3)] assms m' show ?thesis
    by (simp add: bitmap_get_bit_eq)
qed

theorem bitmap_set_get_witness:
  "\<exists>m'. bitmap_set_bit \<lparr>bitcount = 10, bits = 0x100\<rparr> 7 5 1 (\<lambda>_. 0) = Some m' \<and>
     bitmap_get_bit \<lparr>bitcount = 10, bits = 0x100\<rparr> 9 m' = Some 1"
  using bitmap_set_get [of "\<lparr>bitcount = 10, bits = 0x100\<rparr>" 7 9 5 1 "\<lambda>_. 0"]
  by (simp add: bitmap_ok_def)



text \<open>
  The comment in \<open>bitmap.h\<close> promises a run of \<open>count\<close> bits with the value; when a free bit is followed by a
  used one, a search for two free bits from there returns the first of them all the same.
\<close>

theorem bitmap_alloc_last_untested:
  assumes "0 \<le> search_idx st" and "search_idx st + 1 < bitcount bitmap"
    and "bitmap_get_bit bitmap (search_idx st) m = Some 0" and "bitmap_get_bit bitmap (search_idx st + 1) m = Some 1"
  shows "\<exists>m' st'. bitmap_alloc_nbits bitmap 0 2 m st = Some (search_idx st, m', st')"
proof -
  have free: "\<not> bit_of bitmap m (search_idx st)"
    using assms(1,3) bitmap_get_bit_eq [of "search_idx st" bitmap m] by (auto split: if_splits)
  obtain m' where "bitmap_set_bit bitmap (search_idx st) 2 (- 1) m = Some m'"
    using bm.set_range_total [OF assms(1)] by blast
  then show ?thesis
    unfolding bitmap_alloc_nbits_def
    using assms(1,2) free
    by (subst alloc_loop.simps) (simp add: Let_def bitmap_get_bit_eq run_loop.simps)
qed

theorem bitmap_alloc_last_untested_witness:
  "\<exists>m' st'. bitmap_alloc_nbits \<lparr>bitcount = 4, bits = 0x100\<rparr> 0 2 (\<lambda>_. 0xE) \<lparr>search_idx = 0, alog = []\<rparr> = Some (0, m', st')"
  using bitmap_alloc_last_untested [of "\<lparr>search_idx = 0, alog = []\<rparr>" "\<lparr>bitcount = 4, bits = 0x100\<rparr>" "\<lambda>_. 0xE"]
  by (simp add: bitmap_get_bit_eq bit_of_def)

lemma not_bit_values: "NOT (0 :: int) = - 1" "NOT (1 :: int) = - 2"
  by simp_all

text \<open>A search for one bit that succeeds, from the successful state on, succeeds at once with the same index.\<close>

lemma alloc_one_here:
  assumes "0 \<le> search_idx st" "search_idx st < bitcount bitmap" "\<not> bit_of bitmap m (search_idx st)"
  shows "\<exists>m' st'. alloc_loop bitmap 0 1 m st = Some (search_idx st, m', st') \<and> search_idx st' = search_idx st \<and>
    bitmap_set_bit bitmap (search_idx st) 1 (- 1) m = Some m'"
proof -
  obtain m' where "bitmap_set_bit bitmap (search_idx st) 1 (- 1) m = Some m'"
    using bm.set_range_total [OF assms(1)] by blast
  then show ?thesis
    using assms by (subst alloc_loop.simps) (simp add: Let_def bitmap_get_bit_eq run_loop.simps)
qed

lemma alloc_one_twice:
  assumes "bitmap_ok bitmap" and "0 \<le> search_idx st"
    and "bitmap_alloc_nbits bitmap 0 1 m st = Some (k, m1, st1)" and "k \<noteq> - 1"
  shows "(\<forall>j. 0 \<le> j \<and> j < bitcount bitmap \<longrightarrow> bitmap_get_bit bitmap j m1 = bitmap_get_bit bitmap j m) \<and>
    (\<exists>m2 st2. bitmap_alloc_nbits bitmap 0 1 m1 st1 = Some (k, m2, st2))"
proof -
  have "alloc_result bitmap 0 1 m (search_idx st) (k, m1, st1)"
    using alloc_loop_spec [OF assms(2), of 0 bitmap 1 m] assms(3) by (auto simp: bitmap_alloc_nbits_def)
  then have k: "0 \<le> k" "k < bitcount bitmap" "\<not> bit_of bitmap m k" "search_idx st1 = k"
    and m1: "bitmap_set_bit bitmap k 1 (- 1) m = Some m1"
    using assms(2,4) by (auto simp: alloc_result_def)
  have same: "bit_of bitmap m1 j = bit_of bitmap m j" if "0 \<le> j" "j < bitcount bitmap" for j
    using bm.get_set [OF k(1) m1 that(1)] that assms(1) k(3) by (auto simp: order_le_less)
  then have "\<not> bit_of bitmap m1 (search_idx st1)" using k by simp
  with same alloc_one_here [of st1 bitmap m1] k show ?thesis
    by (auto simp: bitmap_get_bit_eq bitmap_alloc_nbits_def)
qed

text \<open>
  C32: Allocating a free bit does not mark it.  \<open>bitmap_alloc_nbits\<close> passes \<open>~bit\<close> to \<open>bitmap_set_bit\<close>,
  which sets bits only for the value 1; for \<open>bit\<close> 0 the value is -1 and the bits are cleared.  So a
  successful allocation of one free bit leaves every bit of the map as it was, and the next allocation
  returns the same index again.
\<close>

theorem bitmap_alloc_same_bit_again:
  assumes "bitmap_ok bitmap" and "0 \<le> search_idx st"
    and "bitmap_alloc_nbits bitmap 0 1 m st = Some (k, m1, st1)" and "k \<noteq> - 1"
  shows "(\<forall>j. 0 \<le> j \<and> j < bitcount bitmap \<longrightarrow> bitmap_get_bit bitmap j m1 = bitmap_get_bit bitmap j m) \<and>
    (\<exists>m2 st2. bitmap_alloc_nbits bitmap 0 1 m1 st1 = Some (k, m2, st2))"
  using assms by (rule alloc_one_twice)

theorem bitmap_alloc_same_bit_again_witness:
  "\<exists>m1 st1 m2 st2. bitmap_alloc_nbits \<lparr>bitcount = 4, bits = 0x100\<rparr> 0 1 (\<lambda>_. 0) \<lparr>search_idx = 0, alog = []\<rparr>
       = Some (0, m1, st1) \<and>
     bitmap_alloc_nbits \<lparr>bitcount = 4, bits = 0x100\<rparr> 0 1 m1 st1 = Some (0, m2, st2)"
proof -
  let ?b = "\<lparr>bitcount = 4, bits = 0x100\<rparr>" and ?st = "\<lparr>search_idx = 0, alog = []\<rparr>"
  from alloc_one_here [of ?st ?b "\<lambda>_. 0"] obtain m1 st1 where
    1: "bitmap_alloc_nbits ?b 0 1 (\<lambda>_. 0) ?st = Some (0, m1, st1)"
    by (auto simp: bitmap_alloc_nbits_def bit_of_def)
  have "bitmap_ok ?b" by (simp add: bitmap_ok_def)
  from bitmap_alloc_same_bit_again [OF this _ 1] 1 show ?thesis by auto
qed

text \<open>
  An allocation of several bits can run past the end of the bitmap.  When only the last bit is free
  and two are asked for, the inner loop tests that bit twice and the index of the last bit is returned
  as the start of a run of two.
\<close>

theorem bitmap_alloc_past_end:
  assumes "1 \<le> bitcount bitmap" and "search_idx st = bitcount bitmap - 1"
    and "bitmap_get_bit bitmap (bitcount bitmap - 1) m = Some 0"
  shows "\<exists>m' st'. bitmap_alloc_nbits bitmap 0 2 m st = Some (bitcount bitmap - 1, m', st')"
proof -
  have free: "\<not> bit_of bitmap m (bitcount bitmap - 1)"
    using assms(1,3) bitmap_get_bit_eq [of "bitcount bitmap - 1" bitmap m] by (auto split: if_splits)
  have nn: "0 \<le> bitcount bitmap - 1" using assms(1) by simp
  obtain m' where "bitmap_set_bit bitmap (bitcount bitmap - 1) 2 (- 1) m = Some m'"
    using bm.set_range_total [OF nn] by blast
  then show ?thesis
    unfolding bitmap_alloc_nbits_def
    using assms(2) free nn
    by (subst alloc_loop.simps) (simp add: Let_def bitmap_get_bit_eq run_loop.simps)
qed

theorem bitmap_alloc_past_end_witness:
  "\<exists>m' st'. bitmap_alloc_nbits \<lparr>bitcount = 4, bits = 0x100\<rparr> 0 2 (\<lambda>_. 0) \<lparr>search_idx = 3, alog = []\<rparr>
     = Some (3, m', st')"
  using bitmap_alloc_past_end [of "\<lparr>bitcount = 4, bits = 0x100\<rparr>" "\<lparr>search_idx = 3, alog = []\<rparr>" "\<lambda>_. 0"]
  by (simp add: bitmap_get_bit_eq bit_of_def)

end
