(* ===== verification/Boot_Info.thy ===== *)
theory Boot_Info
  imports Prelude
begin

text \<open>
  What the loader tells the kernel, \<open>src/source/comm/boot_info.h\<close>: the usable regions of memory, start and
  size of each, and how many entries of the array are valid.
\<close>

definition BOOT_RAM_REGION_MAX :: int where "BOOT_RAM_REGION_MAX = 10"
definition SECTOR_SIZE :: nat where "SECTOR_SIZE = 512"
definition SYS_KERNEL_ADDR :: uint32_t where "SYS_KERNEL_ADDR = 1024 * 1024"

lemmas boot_consts = BOOT_RAM_REGION_MAX_def SECTOR_SIZE_def SYS_KERNEL_ADDR_def

record boot_info_t =
  ram_region_cfg :: "(uint32_t \<times> uint32_t) list"
  ram_region_count :: int

text \<open>The valid entries, in order.\<close>

definition valid_regions :: "boot_info_t \<Rightarrow> (uint32_t \<times> uint32_t) list" where
  "valid_regions boot_info = take (nat (ram_region_count boot_info)) (ram_region_cfg boot_info)"

end
