(* ===== verification/Memory.thy ===== *)
theory Memory
  imports Mmu Bitmap Ipc_Props Boot_Info
begin

text \<open>
  Physical pages and page tables: \<open>src/source/kernel/core/memory.c\<close>.  The state adds to the kernel the
  page allocator and the static state of the bitmap search.  The allocator's mutex is \<open>paddr_mutex\<close>; an
  operation on a mutex that another task holds blocks inside, which is \<open>None\<close> here.  \<open>find_pte\<close> is
  called by \<open>memory_create_map\<close> but defined nowhere in the sources, and so are the macros of the console
  and the symbols of the linker script: they are parameters.
\<close>

section \<open>Constants and state\<close>

definition MEM_EBDA_START :: uint32_t where "MEM_EBDA_START = 0x00080000"
definition MEM_EXT_START :: uint32_t where "MEM_EXT_START = 1024 * 1024"
definition MEM_EXT_END :: uint32_t where "MEM_EXT_END = 128 * 1024 * 1024 - 1"
definition MEM_PAGE_SIZE :: uint32_t where "MEM_PAGE_SIZE = 4096"
definition MEMORY_TASK_BASE :: uint32_t where "MEMORY_TASK_BASE = 0x80000000"

lemmas mem_consts = MEM_EBDA_START_def MEM_EXT_START_def MEM_EXT_END_def MEM_PAGE_SIZE_def
  MEMORY_TASK_BASE_def

text \<open>The member \<open>mutex\<close> is \<open>paddr_mutex\<close> in the kernel's map of mutexes, as there is one allocator.\<close>

record addr_alloc_t =
  abitmap :: bitmap_t
  astart :: uint32_t
  asize :: uint32_t
  apage_size :: uint32_t

record memory_map_t =
  map_vstart :: uint32_t
  map_vend :: uint32_t
  map_pstart :: uint32_t
  map_perm :: uint32_t

record mst =
  ks :: kst
  paddr_alloc :: addr_alloc_t
  bm_search :: alloc_st

definition ram :: "mst \<Rightarrow> mem" where
  "ram s = kmem (ks s)"

definition set_ram :: "mem \<Rightarrow> mst \<Rightarrow> mst" where
  "set_ram m s = s\<lparr>ks := (ks s)\<lparr>kmem := m\<rparr>\<rparr>"

definition mlog :: "string \<Rightarrow> int list \<Rightarrow> mst \<Rightarrow> mst" where
  "mlog fmt args s = s\<lparr>bm_search := logged fmt args (bm_search s)\<rparr>"

text \<open>
  The allocator's mutex.  A call that switches the task inside, because another task holds the mutex or
  waits for it, leaves the sequential code below: \<open>None\<close>.
\<close>

definition take_mutex :: "mst \<Rightarrow> mst option" where
  "take_mutex s =
    (if contended (ks s) paddr_mutex then None else Some (s\<lparr>ks := mutex_lock paddr_mutex (ks s)\<rparr>))"

definition drop_mutex :: "mst \<Rightarrow> mst option" where
  "drop_mutex s =
    (let m = mutexes (ks s) paddr_mutex
     in if mowner m = curr_task (ks s) \<and> locked_count m = 1 \<and> list_count (mwait_list m) \<noteq> 0 then None
        else Some (s\<lparr>ks := mutex_unlock paddr_mutex (ks s)\<rparr>))"

section \<open>The page allocator\<close>

definition addr_alloc_init :: "addr \<Rightarrow> uint32_t \<Rightarrow> uint32_t \<Rightarrow> uint32_t \<Rightarrow> mst \<Rightarrow> mst option" where
  "addr_alloc_init bits0 start sz page_size s =
    (let s1 = s\<lparr>ks := mutex_init paddr_mutex (ks s)\<rparr>
     in map_option
          (\<lambda>(bitmap, m). set_ram m (s1\<lparr>paddr_alloc :=
             \<lparr>abitmap = bitmap, astart = start, asize = sz, apage_size = page_size\<rparr>\<rparr>))
          (bitmap_init bits0 (sint (sz div page_size)) 0 (ram s1)))"

definition addr_alloc_page :: "int \<Rightarrow> mst \<Rightarrow> (uint32_t \<times> mst) option" where
  "addr_alloc_page page_count s =
    Option.bind (take_mutex s)
      (\<lambda>s1. Option.bind
        (bitmap_alloc_nbits (abitmap (paddr_alloc s1)) 0 page_count (ram s1) (bm_search s1))
        (\<lambda>(page_index, m, st).
           let s2 = set_ram m (s1\<lparr>bm_search := st\<rparr>);
               s3 = mlog ''alloc start  0x%x'' [sint (astart (paddr_alloc s2))] s2;
               s4 = mlog ''bitmap_alloc_nbits de return page_index  %d\<newline>'' [page_index] s3;
               addr0 = (if page_index \<ge> 0
                        then astart (paddr_alloc s4) + word_of_int page_index * apage_size (paddr_alloc s4)
                        else 0)
           in map_option (\<lambda>s5. (addr0, s5)) (drop_mutex s4)))"

definition addr_free_page :: "uint32_t \<Rightarrow> int \<Rightarrow> mst \<Rightarrow> mst option" where
  "addr_free_page addr0 page_count s =
    Option.bind (take_mutex s)
      (\<lambda>s1. let pg_index = (addr0 - astart (paddr_alloc s1)) div apage_size (paddr_alloc s1)
            in Option.bind
                 (bitmap_set_bit (abitmap (paddr_alloc s1)) (sint pg_index) page_count 0 (ram s1))
                 (\<lambda>m. drop_mutex (set_ram m s1)))"

section \<open>Memory information\<close>

definition total_mem_size :: "boot_info_t \<Rightarrow> uint32_t" where
  "total_mem_size boot_info =
    foldl (\<lambda>mem_size region. mem_size + snd region) 0 (valid_regions boot_info)"

section \<open>Page tables\<close>

text \<open>
  The result of a function that may fail an assertion, after which the kernel hangs.
\<close>

datatype 'a checked = Done 'a | Panic

type_synonym find_pte_t = "addr \<Rightarrow> uint32_t \<Rightarrow> int \<Rightarrow> mst \<Rightarrow> addr \<times> mst"

fun map_pages :: "find_pte_t \<Rightarrow> addr \<Rightarrow> uint32_t \<Rightarrow> uint32_t \<Rightarrow> nat \<Rightarrow> uint32_t \<Rightarrow> mst \<Rightarrow> (int \<times> mst) checked" where
  "map_pages find_pte page_dir vaddr paddr 0 perm s = Done (0, s)"
| "map_pages find_pte page_dir vaddr paddr (Suc n) perm s =
    (let (pte, s1) = find_pte page_dir vaddr 1 s
     in if pte = NULL then Done (- 1, s1)
        else if entry_present (load32 (ram s1) pte) then Panic
        else
          let s2 = set_ram (store32 pte (paddr OR perm OR PTE_P) (ram s1)) s1
          in map_pages find_pte page_dir (vaddr + MEM_PAGE_SIZE) (paddr + MEM_PAGE_SIZE) n perm s2)"

definition memory_create_map ::
    "find_pte_t \<Rightarrow> addr \<Rightarrow> uint32_t \<Rightarrow> uint32_t \<Rightarrow> int \<Rightarrow> uint32_t \<Rightarrow> mst \<Rightarrow> (int \<times> mst) checked" where
  "memory_create_map find_pte page_dir vaddr paddr count perm s =
    map_pages find_pte page_dir vaddr paddr (nat count) perm s"

text \<open>The number of pages that \<open>create_kernel_table\<close> maps for an entry of its table, in \<open>int\<close> arithmetic.\<close>

definition map_page_count :: "memory_map_t \<Rightarrow> int" where
  "map_page_count mp =
    (let vstart = sint (down2 (map_vstart mp) MEM_PAGE_SIZE);
         vend = sint (up2 (map_vend mp) MEM_PAGE_SIZE)
     in (vend - vstart) sdiv 4096)"

fun map_entries :: "find_pte_t \<Rightarrow> addr \<Rightarrow> memory_map_t list \<Rightarrow> mst \<Rightarrow> mst checked" where
  "map_entries find_pte page_dir [] s = Done s"
| "map_entries find_pte page_dir (mp # mps) s =
    (case memory_create_map find_pte page_dir (down2 (map_vstart mp) MEM_PAGE_SIZE) (map_pstart mp)
        (map_page_count mp) (map_perm mp) s of
      Panic \<Rightarrow> Panic
    | Done (r, s') \<Rightarrow> map_entries find_pte page_dir mps s')"

definition kernel_map ::
    "uint32_t \<Rightarrow> uint32_t \<Rightarrow> uint32_t \<Rightarrow> uint32_t \<Rightarrow> uint32_t \<Rightarrow> uint32_t \<Rightarrow> uint32_t \<Rightarrow> memory_map_t list" where
  "kernel_map kernel_base s_text e_text s_data disp_addr disp_end video_base =
    [\<lparr>map_vstart = kernel_base, map_vend = s_text, map_pstart = 0, map_perm = PTE_W\<rparr>,
     \<lparr>map_vstart = s_text, map_vend = e_text, map_pstart = s_text, map_perm = 0\<rparr>,
     \<lparr>map_vstart = s_data, map_vend = MEM_EBDA_START - 1, map_pstart = s_data, map_perm = PTE_W\<rparr>,
     \<lparr>map_vstart = disp_addr, map_vend = disp_end - 1, map_pstart = video_base, map_perm = PTE_W\<rparr>,
     \<lparr>map_vstart = MEM_EXT_START, map_vend = MEM_EXT_END, map_pstart = MEM_EXT_START, map_perm = PTE_W\<rparr>]"

definition create_kernel_table :: "find_pte_t \<Rightarrow> addr \<Rightarrow> memory_map_t list \<Rightarrow> mst \<Rightarrow> mst checked option" where
  "create_kernel_table find_pte kernel_page_dir maps s =
    map_option (\<lambda>m. map_entries find_pte kernel_page_dir maps (set_ram m s))
      (kernel_memset kernel_page_dir 0 (int PDE_CNT * 4) (ram s))"

section \<open>Address spaces\<close>

fun copy_entries :: "addr \<Rightarrow> addr \<Rightarrow> nat \<Rightarrow> mem \<Rightarrow> mem" where
  "copy_entries page_dir kernel_page_dir 0 m = m"
| "copy_entries page_dir kernel_page_dir (Suc i) m =
    (let m1 = copy_entries page_dir kernel_page_dir i m
     in store32 (page_dir + 4 * of_nat i) (load32 m1 (kernel_page_dir + 4 * of_nat i)) m1)"

definition memory_create_uvm :: "addr \<Rightarrow> mst \<Rightarrow> (uint32_t \<times> mst) option" where
  "memory_create_uvm kernel_page_dir s =
    Option.bind (addr_alloc_page 1 s)
      (\<lambda>(page_dir, s1).
         if page_dir = 0 then Some (0, s1)
         else map_option
           (\<lambda>m. (page_dir,
              set_ram (copy_entries page_dir kernel_page_dir (unat (pde_index MEMORY_TASK_BASE)) m) s1))
           (kernel_memset page_dir 0 (uint MEM_PAGE_SIZE) (ram s1)))"

fun free_table :: "addr \<Rightarrow> nat \<Rightarrow> mst \<Rightarrow> mst option" where
  "free_table pte 0 s = Some s"
| "free_table pte (Suc n) s =
    (let v = load32 (ram s) pte
     in if \<not> entry_present v then free_table (pte + 4) n s
        else Option.bind (addr_free_page (pte_paddr v) 1 s) (free_table (pte + 4) n))"

fun free_dir :: "addr \<Rightarrow> nat \<Rightarrow> mst \<Rightarrow> mst option" where
  "free_dir pde 0 s = Some s"
| "free_dir pde (Suc n) s =
    (let v = load32 (ram s) pde
     in if \<not> pde_present (pde_of v) then free_dir (pde + 4) n s
        else Option.bind (free_table (pde_paddr v) PTE_CNT s)
          (\<lambda>s1. Option.bind (addr_free_page (pde_paddr (load32 (ram s1) pde)) 1 s1) (free_dir (pde + 4) n)))"

definition memory_destroy_uvm :: "uint32_t \<Rightarrow> mst \<Rightarrow> mst checked option" where
  "memory_destroy_uvm page_dir s =
    (let user_pde_start = unat (pde_index MEMORY_TASK_BASE)
     in if page_dir = 0 then Some Panic
        else map_option Done
          (Option.bind (free_dir (page_dir + 4 * of_nat user_pde_start) (PDE_CNT - user_pde_start) s)
            (addr_free_page page_dir 1)))"

section \<open>The allocator while nobody else uses it\<close>

definition quiet :: "mst \<Rightarrow> bool" where
  "quiet s \<longleftrightarrow> (let m = mutexes (ks s) paddr_mutex
     in mowner m = NULL \<and> locked_count m = 0 \<and> list_count (mwait_list m) = 0)"

definition held :: "mst \<Rightarrow> mst" where
  "held s = s\<lparr>ks := upd_mutex paddr_mutex
     (\<lambda>x. x\<lparr>locked_count := locked_count x + 1, mowner := curr_task (ks s)\<rparr>) (ks s)\<rparr>"

lemma held_simps [simp]:
  "paddr_alloc (held s) = paddr_alloc s" "bm_search (held s) = bm_search s" "ram (held s) = ram s"
  by (simp_all add: held_def ram_def upd_mutex_def)

lemma mst_simps [simp]:
  "ram (set_ram m s) = m" "paddr_alloc (set_ram m s) = paddr_alloc s" "bm_search (set_ram m s) = bm_search s"
  "ram (mlog f xs s) = ram s" "paddr_alloc (mlog f xs s) = paddr_alloc s" "ks (mlog f xs s) = ks s"
  "search_idx (bm_search (mlog f xs s)) = search_idx (bm_search s)"
  "ram (s\<lparr>bm_search := st\<rparr>) = ram s" "ks (set_ram m s) = (ks s)\<lparr>kmem := m\<rparr>"
  by (simp_all add: ram_def set_ram_def mlog_def)

lemma quiet_set_ram [simp]: "quiet (set_ram m s) = quiet s" "quiet (mlog f xs s) = quiet s"
  "quiet (s\<lparr>bm_search := st\<rparr>) = quiet s"
  by (simp_all add: quiet_def set_ram_def mlog_def)

lemma take_quiet: "quiet s \<Longrightarrow> take_mutex s = Some (held s)"
  by (simp add: quiet_def Let_def take_mutex_def contended_def held_def mutex_lock_free)

lemma drop_held:
  assumes "quiet s" and "ks s' = (ks (held s))\<lparr>kmem := m\<rparr>"
  shows "drop_mutex s' = Some (s'\<lparr>ks := (ks s)\<lparr>kmem := m\<rparr>\<rparr>)"
proof -
  have restored: "(mutexes (ks s))(paddr_mutex := (mutexes (ks s) paddr_mutex)\<lparr>locked_count := 0, mowner := NULL\<rparr>) =
      mutexes (ks s)"
    using assms(1) by (auto simp: quiet_def Let_def fun_eq_iff)
  have "mutex_unlock paddr_mutex (ks s') = (ks s)\<lparr>kmem := m\<rparr>"
    using assms restored
    by (simp add: mutex_unlock_def task_current_def upd_mutex_def cli_def held_def quiet_def Let_def)
  with assms show ?thesis by (simp add: drop_mutex_def held_def upd_mutex_def quiet_def Let_def)
qed

lemma alloc_page_quiet:
  assumes "quiet s"
    and "bitmap_alloc_nbits (abitmap (paddr_alloc s)) 0 n (ram s) (bm_search s) = Some (k, m, st)"
  shows "\<exists>xs. addr_alloc_page n s =
    Some (if k \<ge> 0 then astart (paddr_alloc s) + word_of_int k * apage_size (paddr_alloc s) else 0,
          set_ram m (s\<lparr>bm_search := st\<lparr>alog := alog st @ xs\<rparr>\<rparr>))"
proof -
  let ?a = "paddr_alloc s"
  let ?xs = "[(''alloc start  0x%x'', [sint (astart ?a)]),
    (''bitmap_alloc_nbits de return page_index  %d\<newline>'', [k])]"
  let ?s4 = "set_ram m ((held s)\<lparr>bm_search := st\<lparr>alog := alog st @ ?xs\<rparr>\<rparr>)"
  have logs: "mlog ''bitmap_alloc_nbits de return page_index  %d\<newline>'' [k]
      (mlog ''alloc start  0x%x'' [sint (astart ?a)] (set_ram m ((held s)\<lparr>bm_search := st\<rparr>))) = ?s4"
    by (simp add: mlog_def logged_def set_ram_def)
  have "drop_mutex ?s4 = Some (?s4\<lparr>ks := (ks s)\<lparr>kmem := m\<rparr>\<rparr>)"
    using assms(1) by (rule drop_held) simp
  then have "addr_alloc_page n s = Some (if k \<ge> 0 then astart ?a + word_of_int k * apage_size ?a else 0,
      ?s4\<lparr>ks := (ks s)\<lparr>kmem := m\<rparr>\<rparr>)"
    using assms unfolding addr_alloc_page_def by (simp add: take_quiet Let_def logs)
  moreover have "?s4\<lparr>ks := (ks s)\<lparr>kmem := m\<rparr>\<rparr> = set_ram m (s\<lparr>bm_search := st\<lparr>alog := alog st @ ?xs\<rparr>\<rparr>)"
    by (simp add: set_ram_def held_def)
  ultimately have "addr_alloc_page n s = Some (if k \<ge> 0 then astart ?a + word_of_int k * apage_size ?a else 0,
      set_ram m (s\<lparr>bm_search := st\<lparr>alog := alog st @ ?xs\<rparr>\<rparr>))" by simp
  then show ?thesis by (rule exI)
qed

lemma free_page_quiet:
  assumes "quiet s" and "0 \<le> sint ((p - astart (paddr_alloc s)) div apage_size (paddr_alloc s))"
  shows "\<exists>m. bitmap_set_bit (abitmap (paddr_alloc s))
      (sint ((p - astart (paddr_alloc s)) div apage_size (paddr_alloc s))) n 0 (ram s) = Some m \<and>
    addr_free_page p n s = Some (set_ram m s)"
proof -
  obtain m where m: "bitmap_set_bit (abitmap (paddr_alloc s))
      (sint ((p - astart (paddr_alloc s)) div apage_size (paddr_alloc s))) n 0 (ram s) = Some m"
    using bm.set_range_total [OF assms(2)] by blast
  have "drop_mutex (set_ram m (held s)) = Some ((set_ram m (held s))\<lparr>ks := (ks s)\<lparr>kmem := m\<rparr>\<rparr>)"
    using assms(1) by (rule drop_held) simp
  moreover have "(set_ram m (held s))\<lparr>ks := (ks s)\<lparr>kmem := m\<rparr>\<rparr> = set_ram m s"
    by (simp add: set_ram_def held_def)
  ultimately have d: "drop_mutex (set_ram m (held s)) = Some (set_ram m s)" by simp
  have "addr_free_page p n s = Some (set_ram m s)"
    unfolding addr_free_page_def take_quiet [OF assms(1)] Let_def bind.bind_lunit held_simps m by (rule d)
  with m show ?thesis by blast
qed

text \<open>
  Two allocations of one page in a row return the same page.  The bitmap search never marks the bit
  it finds, so as long as no other task uses the allocator and a page was found, the next call finds
  the same one.
\<close>

theorem alloc_page_twice_same:
  assumes "quiet s" and "bitmap_ok (abitmap (paddr_alloc s))" and "0 \<le> search_idx (bm_search s)"
    and "addr_alloc_page 1 s = Some (p, s1)" and "p \<noteq> 0"
  shows "\<exists>s2. addr_alloc_page 1 s1 = Some (p, s2)"
proof -
  let ?b = "abitmap (paddr_alloc s)" and ?a = "paddr_alloc s"
  obtain k m st where r: "bitmap_alloc_nbits ?b 0 1 (ram s) (bm_search s) = Some (k, m, st)"
    using alloc_loop_spec [OF assms(3), of 0 ?b 1 "ram s"] by (auto simp: bitmap_alloc_nbits_def)
  from alloc_page_quiet [OF assms(1) r] obtain xs where
    1: "p = (if k \<ge> 0 then astart ?a + word_of_int k * apage_size ?a else 0)"
      "s1 = set_ram m (s\<lparr>bm_search := st\<lparr>alog := alog st @ xs\<rparr>\<rparr>)"
    using assms(4) by auto
  have k: "k \<noteq> - 1" using 1(1) assms(5) by auto
  have "alloc_result ?b 0 1 (ram s) (search_idx (bm_search s)) (k, m, st)"
    using alloc_loop_spec [OF assms(3), of 0 ?b 1 "ram s"] r by (auto simp: bitmap_alloc_nbits_def)
  then have k0: "0 \<le> k" "k < bitcount ?b" "search_idx st = k" "\<not> bit_of ?b (ram s) k"
    using k assms(3) by (auto simp: alloc_result_def)
  have free: "\<not> bit_of ?b m k"
    using alloc_one_twice [OF assms(2,3) r k] k0 by (auto simp: bitmap_get_bit_eq split: if_splits)
  have "search_idx (st\<lparr>alog := alog st @ xs\<rparr>) = k" using k0(3) by simp
  then obtain m2 st2 where "bitmap_alloc_nbits ?b 0 1 m (st\<lparr>alog := alog st @ xs\<rparr>) = Some (k, m2, st2)"
    using alloc_one_here [of "st\<lparr>alog := alog st @ xs\<rparr>" ?b m] k0(1,2) free
    by (auto simp: bitmap_alloc_nbits_def)
  then have "\<exists>ys. addr_alloc_page 1 s1 = Some (p, set_ram m2 (s1\<lparr>bm_search := st2\<lparr>alog := alog st2 @ ys\<rparr>\<rparr>))"
    using alloc_page_quiet [of s1 1 k m2 st2] assms(1) k0(1) unfolding 1 by simp
  then show ?thesis by blast
qed

definition sample_mst :: mst where
  "sample_mst = \<lparr>ks = mutex_init paddr_mutex sample_state,
     paddr_alloc = \<lparr>abitmap = \<lparr>bitcount = 16, bits = 0x10000\<rparr>, astart = 0x100000, asize = 0x10000,
       apage_size = 0x1000\<rparr>,
     bm_search = \<lparr>search_idx = 0, alog = []\<rparr>\<rparr>"

lemma sample_mst_simps [simp]:
  "quiet sample_mst" "paddr_alloc sample_mst = \<lparr>abitmap = \<lparr>bitcount = 16, bits = 0x10000\<rparr>,
     astart = 0x100000, asize = 0x10000, apage_size = 0x1000\<rparr>"
  "bm_search sample_mst = \<lparr>search_idx = 0, alog = []\<rparr>" "ram sample_mst = (\<lambda>_. 0)"
  by (simp_all add: sample_mst_def quiet_def ram_def mutex_init_def list_init_def list_count_def sample_mem)

lemma sample_alloc:
  "\<exists>m st xs. addr_alloc_page 1 sample_mst =
     Some (0x100000, set_ram m (sample_mst\<lparr>bm_search := st\<lparr>alog := alog st @ xs\<rparr>\<rparr>))"
  using alloc_one_here [of "\<lparr>search_idx = 0, alog = []\<rparr>" "\<lparr>bitcount = 16, bits = 0x10000\<rparr>" "\<lambda>_. 0"]
    alloc_page_quiet [of sample_mst 1 0]
  by (fastforce simp: bitmap_alloc_nbits_def bit_of_def)

theorem alloc_page_twice_same_witness:
  "\<exists>s1 s2. addr_alloc_page 1 sample_mst = Some (0x100000, s1) \<and> addr_alloc_page 1 s1 = Some (0x100000, s2)"
proof -
  from sample_alloc obtain s1 where 1: "addr_alloc_page 1 sample_mst = Some (0x100000, s1)" by blast
  from alloc_page_twice_same [OF _ _ _ 1] 1 show ?thesis by (auto simp: bitmap_ok_def)
qed

lemma page_number:
  assumes "k < 2 ^ 31" and "0 < unat ps" and "k * unat ps < 2 ^ 32"
  shows "sint ((start + of_nat k * ps - start :: uint32_t) div ps) = int k"
proof -
  have "unat (of_nat k * ps) = k * unat ps"
    using assms by (simp add: unat_word_ariths unat_of_nat take_bit_nat_eq_self mod_simps)
  then have "unat ((of_nat k * ps) div ps) = k" using assms(2) by (simp add: unat_div)
  then have "(of_nat k * ps) div ps = (of_nat k :: uint32_t)" by (metis of_nat_unat ucast_id)
  moreover have "sint (of_nat k :: uint32_t) = int k"
    using assms(1) by (simp add: signed_of_nat signed_take_bit_int_eq_self)
  ultimately show ?thesis by simp
qed

text \<open>
  Freeing \<open>n\<close> pages from the address of page \<open>k\<close> on, while nobody else uses the allocator, clears
  exactly the bits of those pages and leaves the kernel, its mutex included, as it was.
\<close>

theorem free_page_frees:
  assumes "quiet s" and "bitmap_ok (abitmap (paddr_alloc s))" and "int k < bitcount (abitmap (paddr_alloc s))"
    and "0 < unat (apage_size (paddr_alloc s))" and "k * unat (apage_size (paddr_alloc s)) < 2 ^ 32"
  shows "\<exists>m. addr_free_page (astart (paddr_alloc s) + of_nat k * apage_size (paddr_alloc s)) n s =
      Some (set_ram m s) \<and>
    (\<forall>j. 0 \<le> j \<and> j < bitcount (abitmap (paddr_alloc s)) \<longrightarrow>
       bitmap_get_bit (abitmap (paddr_alloc s)) j m =
         (if int k \<le> j \<and> j < int k + n then Some 0 else bitmap_get_bit (abitmap (paddr_alloc s)) j (ram s)))"
proof -
  let ?a = "paddr_alloc s"
  have "k < 2 ^ 31" using assms(2,3) by (simp add: bitmap_ok_def)
  note idx = page_number [OF this assms(4,5), of "astart ?a"]
  from free_page_quiet [OF assms(1), of "astart ?a + of_nat k * apage_size ?a" n] obtain m where
    m: "bitmap_set_bit (abitmap ?a) (int k) n 0 (ram s) = Some m"
      "addr_free_page (astart ?a + of_nat k * apage_size ?a) n s = Some (set_ram m s)"
    unfolding idx by auto
  have "bitmap_get_bit (abitmap ?a) j m = (if int k \<le> j \<and> j < int k + n then Some 0 else bitmap_get_bit (abitmap ?a) j (ram s))"
    if "0 \<le> j" "j < bitcount (abitmap ?a)" for j
    using bm.get_set [OF _ m(1) that(1)] that assms(2) by (simp add: bitmap_get_bit_eq)
  with m(2) show ?thesis by blast
qed

theorem free_page_frees_witness:
  "\<exists>m. addr_free_page 0x103000 2 sample_mst = Some (set_ram m sample_mst) \<and>
     bitmap_get_bit \<lparr>bitcount = 16, bits = 0x10000\<rparr> 4 m = Some 0"
  using free_page_frees [of sample_mst 3 2] by (auto simp: bitmap_ok_def)

section \<open>Mappings\<close>

text \<open>
  What \<open>memory_create_map\<close> relies on from \<open>find_pte\<close>: asked to create the table, it returns the place of
  the entry of the page, the same on every call, and leaves the entries that exist alone; entries of
  different pages do not overlap.
\<close>

definition find_pte_ok :: "find_pte_t \<Rightarrow> addr \<Rightarrow> (uint32_t \<Rightarrow> addr) \<Rightarrow> bool" where
  "find_pte_ok find_pte page_dir slot \<longleftrightarrow>
    (\<forall>v s. slot v \<noteq> NULL \<and> (\<exists>s'. find_pte page_dir v 1 s = (slot v, s') \<and>
       (\<forall>w. load32 (ram s') (slot w) = load32 (ram s) (slot w)))) \<and>
    (\<forall>v w. unat v div 4096 \<noteq> unat w div 4096 \<longrightarrow> span (slot v) 4 \<inter> span (slot w) 4 = {})"

definition page_at :: "uint32_t \<Rightarrow> nat \<Rightarrow> uint32_t" where
  "page_at vaddr i = vaddr + of_nat i * MEM_PAGE_SIZE"

lemma page_at_simps [simp]: "page_at v 0 = v" "page_at (v + MEM_PAGE_SIZE) i = page_at v (Suc i)"
  by (simp_all add: page_at_def algebra_simps)

lemma unat_page_at:
  assumes "unat v + n * 4096 \<le> 2 ^ 32" and "i < n"
  shows "unat (page_at v i) = unat v + i * 4096"
proof -
  have lt: "unat v + i * 4096 < 2 ^ 32" using assms by simp
  have "page_at v i = of_nat (unat v + i * 4096)" by (simp add: page_at_def MEM_PAGE_SIZE_def)
  then have "unat (page_at v i) = (unat v + i * 4096) mod 2 ^ 32" by (simp only: unat_of_nat) simp
  with lt show ?thesis by simp
qed

lemma page_number_at:
  "unat v + n * 4096 \<le> 2 ^ 32 \<Longrightarrow> i < n \<Longrightarrow> unat (page_at v i) div 4096 = unat v div 4096 + i"
  by (simp add: unat_page_at)

lemma find_pte_step:
  assumes "find_pte_ok find_pte page_dir slot"
  obtains s1 where "find_pte page_dir v 1 s = (slot v, s1)" and "slot v \<noteq> NULL"
    and "\<And>w. load32 (ram s1) (slot w) = load32 (ram s) (slot w)"
  using assms that unfolding find_pte_ok_def by blast

lemma find_pte_disjoint:
  "find_pte_ok find_pte page_dir slot \<Longrightarrow> unat v div 4096 \<noteq> unat w div 4096 \<Longrightarrow>
   load32 (store32 (slot v) x m) (slot w) = load32 m (slot w)"
  by (rule load_store_other) (simp add: find_pte_ok_def Int_commute)

lemma map_pages_spec:
  assumes "find_pte_ok find_pte page_dir slot" and "unat v + n * 4096 \<le> 2 ^ 32"
    and "\<And>i. i < n \<Longrightarrow> \<not> entry_present (load32 (ram s) (slot (page_at v i)))"
  shows "\<exists>s'. map_pages find_pte page_dir v p n perm s = Done (0, s') \<and>
    (\<forall>i<n. load32 (ram s') (slot (page_at v i)) = page_at p i OR perm OR PTE_P) \<and>
    (\<forall>w. (\<forall>i<n. unat w div 4096 \<noteq> unat v div 4096 + i) \<longrightarrow> load32 (ram s') (slot w) = load32 (ram s) (slot w))"
  using assms(2,3)
proof (induction n arbitrary: v p s)
  case (Suc n)
  from find_pte_step [OF assms(1)] obtain s1 where
    s1: "find_pte page_dir v 1 s = (slot v, s1)" "slot v \<noteq> NULL"
      "\<And>w. load32 (ram s1) (slot w) = load32 (ram s) (slot w)" by metis
  let ?s2 = "set_ram (store32 (slot v) (p OR perm OR PTE_P) (ram s1)) s1"
  let ?v = "v + MEM_PAGE_SIZE"
  have kept: "load32 (ram ?s2) (slot w) = load32 (ram s) (slot w)"
    if "unat w div 4096 \<noteq> unat v div 4096" for w
    using find_pte_disjoint [OF assms(1)] that s1(3) by simp
  have free: "\<not> entry_present (load32 (ram s) (slot v))" using Suc.prems(2) [of 0] by simp
  show ?case
  proof (cases "n = 0")
    case True
    with s1 free kept show ?thesis by simp
  next
    case False
    have v1: "unat ?v = unat v + 4096"
      using unat_page_at [OF Suc.prems(1), of 1] False by (simp add: page_at_def)
    then have v2: "unat ?v div 4096 = Suc (unat v div 4096)" by simp
    have "unat ?v + n * 4096 \<le> 2 ^ 32" using Suc.prems(1) v1 by simp
    moreover have "\<not> entry_present (load32 (ram ?s2) (slot (page_at ?v i)))" if "i < n" for i
      using Suc.prems(2) [of "Suc i"] kept [of "page_at v (Suc i)"] page_number_at [OF Suc.prems(1), of "Suc i"] that
      by simp
    ultimately obtain s' where s': "map_pages find_pte page_dir ?v (p + MEM_PAGE_SIZE) n perm ?s2 = Done (0, s')"
      "\<And>i. i < n \<Longrightarrow> load32 (ram s') (slot (page_at ?v i)) = page_at (p + MEM_PAGE_SIZE) i OR perm OR PTE_P"
      "\<And>w. (\<forall>i<n. unat w div 4096 \<noteq> unat ?v div 4096 + i) \<Longrightarrow> load32 (ram s') (slot w) = load32 (ram ?s2) (slot w)"
      using Suc.IH [of ?v ?s2 "p + MEM_PAGE_SIZE"] by blast
    have "map_pages find_pte page_dir v p (Suc n) perm s = Done (0, s')"
      using s1 free s'(1) by (simp add: Let_def)
    moreover have "load32 (ram s') (slot v) = p OR perm OR PTE_P"
      using s'(3) [of v] unfolding v2 by simp
    then have "load32 (ram s') (slot (page_at v i)) = page_at p i OR perm OR PTE_P" if "i < Suc n" for i
      using s'(2) [of "i - 1"] that by (cases i) simp_all
    moreover have "load32 (ram s') (slot w) = load32 (ram s) (slot w)"
      if w: "\<And>i. i < Suc n \<Longrightarrow> unat w div 4096 \<noteq> unat v div 4096 + i" for w
    proof -
      have "\<forall>i<n. unat w div 4096 \<noteq> unat ?v div 4096 + i" using w [of "Suc _"] unfolding v2 by simp
      with s'(3) kept [of w] w [of 0] show ?thesis by simp
    qed
    ultimately show ?thesis by blast
  qed
qed simp

text \<open>
  \<open>memory_create_map\<close> maps \<open>n\<close> pages none of which was mapped: it returns 0, each of the pages gets
  the entry of its physical page with the permissions and the present bit, and the entries of all
  other pages stay as they were.
\<close>

theorem memory_create_map_maps:
  assumes "find_pte_ok find_pte page_dir slot" and "unat vaddr + n * 4096 \<le> 2 ^ 32"
    and "\<And>i. i < n \<Longrightarrow> \<not> entry_present (load32 (ram s) (slot (page_at vaddr i)))"
  shows "\<exists>s'. memory_create_map find_pte page_dir vaddr paddr (int n) perm s = Done (0, s') \<and>
    (\<forall>i<n. load32 (ram s') (slot (page_at vaddr i)) = page_at paddr i OR perm OR PTE_P) \<and>
    (\<forall>w. (\<forall>i<n. unat w div 4096 \<noteq> unat vaddr div 4096 + i) \<longrightarrow>
       load32 (ram s') (slot w) = load32 (ram s) (slot w))"
  using map_pages_spec [OF assms] by (simp add: memory_create_map_def)

text \<open>A walk over tables laid out one after the other, for concrete states.\<close>

definition linear_slot :: "uint32_t \<Rightarrow> addr" where
  "linear_slot v = of_nat (0x400000 + 4 * (unat v div 4096))"

definition linear_find_pte :: find_pte_t where
  "linear_find_pte page_dir vaddr alloc s = (linear_slot vaddr, s)"

lemma linear_find_pte_ok: "find_pte_ok linear_find_pte page_dir linear_slot"
proof -
  have small: "unat (v :: uint32_t) div 4096 < 2 ^ 20" for v
  proof -
    have "unat v < 2 ^ LENGTH(32)" by (rule unsigned_less)
    then show ?thesis by simp
  qed
  have "linear_slot v \<noteq> NULL" for v
  proof
    assume "linear_slot v = NULL"
    then have "(of_nat (0x400000 + 4 * (unat v div 4096)) :: addr) = of_nat 0"
      by (simp add: linear_slot_def)
    with of_nat_inj_u32 [of "0x400000 + 4 * (unat v div 4096)" 0] small [of v] show False by simp
  qed
  moreover have "span (linear_slot v) 4 \<inter> span (linear_slot w) 4 = {}"
    if "unat v div 4096 \<noteq> unat w div 4096" for v w
  proof (rule ccontr)
    assume "span (linear_slot v) 4 \<inter> span (linear_slot w) 4 \<noteq> {}"
    then obtain i j :: nat where ij: "i < 4" "j < 4" "linear_slot v + of_nat i = linear_slot w + of_nat j"
      by (auto simp: span_iff)
    let ?x = "0x400000 + 4 * (unat v div 4096) + i" and ?y = "0x400000 + 4 * (unat w div 4096) + j"
    have "(of_nat ?x :: addr) = of_nat ?y" using ij(3) by (simp only: linear_slot_def of_nat_add)
    moreover have "?x < 2 ^ 32" "?y < 2 ^ 32" using small [of v] small [of w] ij(1,2) by simp_all
    ultimately have "?x = ?y" using of_nat_inj_u32 by blast
    with ij(1,2) that show False by linarith
  qed
  ultimately show ?thesis by (auto simp: find_pte_ok_def linear_find_pte_def)
qed

theorem memory_create_map_maps_witness:
  "\<exists>s'. memory_create_map linear_find_pte 0 0x5000 0x100000 2 PTE_W sample_mst = Done (0, s') \<and>
     load32 (ram s') (linear_slot 0x6000) = 0x101003"
proof -
  have "\<not> entry_present (load32 (ram sample_mst) (linear_slot (page_at 0x5000 i)))" for i
    by (simp add: load32_def entry_present_bit)
  from memory_create_map_maps [OF linear_find_pte_ok [of 0], of "0x5000" 2 sample_mst "0x100000" PTE_W, OF _ this]
  obtain s' where "memory_create_map linear_find_pte 0 0x5000 0x100000 (int 2) PTE_W sample_mst = Done (0, s')"
    and "load32 (ram s') (linear_slot (page_at 0x5000 1)) = page_at 0x100000 1 OR PTE_W OR PTE_P"
    by auto
  then show ?thesis by (auto simp: page_at_def MEM_PAGE_SIZE_def PTE_W_def PTE_P_def)
qed

lemma map_pages_panics:
  assumes "find_pte_ok find_pte page_dir slot" and "unat vaddr + n * 4096 \<le> 2 ^ 32"
    and "k < n" and "entry_present (load32 (ram s) (slot (page_at vaddr k)))"
  shows "map_pages find_pte page_dir vaddr paddr n perm s = Panic"
  using assms(2-)
proof (induction n arbitrary: vaddr paddr s k)
  case (Suc n)
  from find_pte_step [OF assms(1)] obtain s1 where
    s1: "find_pte page_dir vaddr 1 s = (slot vaddr, s1)" "slot vaddr \<noteq> NULL"
      "\<And>w. load32 (ram s1) (slot w) = load32 (ram s) (slot w)" by metis
  show ?case
  proof (cases "entry_present (load32 (ram s) (slot vaddr))")
    case True
    with s1 show ?thesis by simp
  next
    case False
    with Suc.prems(3) obtain j where k: "k = Suc j" by (cases k) auto
    let ?s2 = "set_ram (store32 (slot vaddr) (paddr OR perm OR PTE_P) (ram s1)) s1"
    have v1: "unat (vaddr + MEM_PAGE_SIZE) = unat vaddr + 4096"
      using unat_page_at [OF Suc.prems(1), of 1] Suc.prems(2) k by (simp add: page_at_def)
    have "entry_present (load32 (ram ?s2) (slot (page_at (vaddr + MEM_PAGE_SIZE) j)))"
      using Suc.prems(3) find_pte_disjoint [OF assms(1)] page_number_at [OF Suc.prems(1,2)] s1(3) k by simp
    then have "map_pages find_pte page_dir (vaddr + MEM_PAGE_SIZE) (paddr + MEM_PAGE_SIZE) n perm ?s2 = Panic"
      using Suc.prems(1,2) v1 k by (intro Suc.IH [of _ j]) simp_all
    with False s1 show ?thesis by (simp add: Let_def)
  qed
qed simp

text \<open>
  \<open>memory_create_map\<close> never overwrites a mapping: if any of the \<open>n\<close> pages is already present, its
  assertion fails and the kernel stops.
\<close>

theorem memory_create_map_remap_panics:
  assumes "find_pte_ok find_pte page_dir slot" and "unat vaddr + n * 4096 \<le> 2 ^ 32"
    and "k < n" and "entry_present (load32 (ram s) (slot (page_at vaddr k)))"
  shows "memory_create_map find_pte page_dir vaddr paddr (int n) perm s = Panic"
  using map_pages_panics [OF assms] by (simp add: memory_create_map_def)

theorem memory_create_map_remap_panics_witness:
  "memory_create_map linear_find_pte 0 0x5000 0x100000 2 PTE_W
     (set_ram (store32 (linear_slot 0x6000) 1 (ram sample_mst)) sample_mst) = Panic"
  using memory_create_map_remap_panics [OF linear_find_pte_ok [of 0], of "0x5000" 2 1
      "set_ram (store32 (linear_slot 0x6000) 1 (ram sample_mst)) sample_mst" "0x100000" PTE_W]
  by (simp add: page_at_def MEM_PAGE_SIZE_def entry_present_bit)

section \<open>Address spaces of processes\<close>

lemma span_entry: "i < n \<Longrightarrow> span (p + 4 * of_nat i) 4 \<subseteq> span p (4 * n)"
proof
  fix a
  assume i: "i < n" and "a \<in> span (p + 4 * of_nat i) 4"
  then obtain j where "j < 4" "a = p + of_nat (4 * i + j)" by (auto simp: span_iff add.assoc)
  moreover from this i have "4 * i + j < 4 * n" by linarith
  ultimately show "a \<in> span p (4 * n)" unfolding span_iff by blast
qed

lemma span_entry_disjoint:
  assumes "i < n" and "4 * n < 2 ^ 32"
  shows "span (p + 4 * of_nat i) 4 \<inter> span (p + 4 * of_nat n) 4 = {}"
proof -
  have "span p (4 * n) \<inter> span (p + of_nat (4 * n)) 4 = {}"
    using assms(2) by (intro span_adjacent) simp
  with span_entry [OF assms(1), of p] show ?thesis by (simp del: span.simps) blast
qed

lemma copy_entries_spec:
  assumes "4 * n \<le> N" and "N < 2 ^ 32" and "span p N \<inter> span q N = {}"
  shows "(\<forall>i<n. load32 (copy_entries p q n m) (p + 4 * of_nat i) = load32 m (q + 4 * of_nat i)) \<and>
    (\<forall>a. a \<notin> span p (4 * n) \<longrightarrow> copy_entries p q n m a = m a)"
  using assms(1)
proof (induction n)
  case (Suc n)
  let ?m = "copy_entries p q n m"
  have IH: "load32 ?m (p + 4 * of_nat i) = load32 m (q + 4 * of_nat i)" if "i < n" for i
    using Suc that by simp
  have IH2: "?m a = m a" if "a \<notin> span p (4 * n)" for a using Suc that by simp
  have sub: "span (q + 4 * of_nat n) 4 \<subseteq> span q N" "span p (4 * n) \<subseteq> span p N"
    using span_entry [of n "Suc n" q] span_mono [of "4 * Suc n" N q] span_mono [of "4 * n" N p] Suc.prems
    by (auto simp del: span.simps)
  have src: "load32 ?m (q + 4 * of_nat n) = load32 m (q + 4 * of_nat n)"
    by (rule load32_cong, rule IH2) (use sub assms(3) in blast)
  have "load32 (copy_entries p q (Suc n) m) (p + 4 * of_nat i) = load32 m (q + 4 * of_nat i)" if "i < Suc n" for i
  proof (cases "i = n")
    case True
    with src show ?thesis by (simp add: Let_def)
  next
    case False
    with that have "i < n" by simp
    with IH [of i] span_entry_disjoint [of i n p] Suc.prems assms(2) show ?thesis
      by (simp add: Let_def load_store_other del: span.simps)
  qed
  moreover have "copy_entries p q (Suc n) m a = m a" if "a \<notin> span p (4 * Suc n)" for a
  proof -
    have "a \<notin> span (p + 4 * of_nat n) 4" using that span_entry [of n "Suc n" p] by blast
    moreover have "a \<notin> span p (4 * n)" using that span_mono [of "4 * n" "4 * Suc n" p] by (auto simp del: span.simps)
    ultimately show ?thesis using IH2 by (simp add: Let_def store32_other del: span.simps)
  qed
  ultimately show ?case by blast
qed simp

lemma copy_entries_above:
  assumes "span p 4096 \<inter> span q 4096 = {}" and i: "n \<le> i" "i < 1024"
  shows "load32 (copy_entries p q n (write_bytes p (replicate 4096 0) m)) (p + 4 * of_nat i) = 0"
proof -
  let ?m = "write_bytes p (replicate 4096 0) m"
  have "copy_entries p q n ?m a = 0" if a: "a \<in> span (p + 4 * of_nat i) 4" for a
  proof -
    obtain j where j: "j < 4" "a = p + of_nat (4 * i + j)" using a by (auto simp: span_iff add.assoc)
    have "a \<notin> span p (4 * n)"
    proof
      assume "a \<in> span p (4 * n)"
      then obtain k where "k < 4 * n" "a = p + of_nat k" unfolding span_iff by blast
      with j of_nat_inj_u32 [of k "4 * i + j"] i show False by simp
    qed
    moreover have "?m a = 0" using j write_bytes_at [of "replicate 4096 0" "4 * i + j" p m] i by simp
    ultimately show ?thesis using copy_entries_spec [OF _ _ assms(1), of n ?m] i by simp
  qed
  then have "load32 (copy_entries p q n ?m) (p + 4 * of_nat i) = load32 (\<lambda>_. 0) (p + 4 * of_nat i)"
    by (intro load32_cong) blast
  then show ?thesis by (simp add: load32_def)
qed

text \<open>
  A new address space shares the kernel's half and has nothing else.  When a page was allocated for
  the directory and the kernel's directory is elsewhere, every entry below \<open>MEMORY_TASK_BASE\<close> is the
  kernel's, every entry from there on is empty, and no other memory changes.
\<close>

theorem memory_create_uvm_shares_kernel:
  assumes "addr_alloc_page 1 s = Some (p, s1)" and "p \<noteq> 0" and "span p 4096 \<inter> span kernel_page_dir 4096 = {}"
  shows "\<exists>s'. memory_create_uvm kernel_page_dir s = Some (p, s') \<and>
    (\<forall>i<1024. load32 (ram s') (p + 4 * of_nat i) =
       (if i < unat (pde_index MEMORY_TASK_BASE) then load32 (ram s1) (kernel_page_dir + 4 * of_nat i) else 0)) \<and>
    (\<forall>a. a \<notin> span p 4096 \<longrightarrow> ram s' a = ram s1 a)"
proof -
  let ?m = "write_bytes p (replicate 4096 0) (ram s1)"
  let ?c = "copy_entries p kernel_page_dir 512 ?m"
  have half: "unat (pde_index MEMORY_TASK_BASE) = 512"
    by (simp add: pde_index_def MEMORY_TASK_BASE_def)
  have set0: "kernel_memset p 0 4096 (ram s1) = Some ?m"
    using kernel_memset_eq [of p 0 4096 "ram s1"] assms(2) by simp
  have eq: "memory_create_uvm kernel_page_dir s = Some (p, set_ram ?c s1)"
    using assms(1,2) set0 half by (simp add: memory_create_uvm_def MEM_PAGE_SIZE_def)
  note spec = copy_entries_spec [OF _ _ assms(3), of 512 ?m]
  have out: "?m a = ram s1 a" if "a \<notin> span p 4096" for a
    using that by (simp add: write_bytes_other del: span.simps)
  have low: "load32 ?c (p + 4 * of_nat i) = load32 (ram s1) (kernel_page_dir + 4 * of_nat i)" if "i < 512" for i
  proof -
    have "load32 ?c (p + 4 * of_nat i) = load32 ?m (kernel_page_dir + 4 * of_nat i)" using spec that by simp
    also have "\<dots> = load32 (ram s1) (kernel_page_dir + 4 * of_nat i)"
    proof (rule load32_cong, rule out)
      fix a
      assume "a \<in> span (kernel_page_dir + 4 * of_nat i) 4"
      then have "a \<in> span kernel_page_dir 4096" using span_entry [of i 1024 kernel_page_dir] that by auto
      with assms(3) show "a \<notin> span p 4096" by blast
    qed
    finally show ?thesis .
  qed
  have high: "load32 ?c (p + 4 * of_nat i) = 0" if "512 \<le> i" "i < 1024" for i
    using assms(3) that by (rule copy_entries_above)
  have "ram (set_ram ?c s1) a = ram s1 a" if "a \<notin> span p 4096" for a
    using spec out [OF that] that span_mono [of "4 * 512" 4096 p] by (auto simp del: span.simps)
  with eq low high show ?thesis unfolding half by (intro exI [of _ "set_ram ?c s1"]) (auto simp del: span.simps)
qed

lemma clear_first_bit:
  "bitmap_set_bit \<lparr>bitcount = 16, bits = p\<rparr> 0 1 (- 1) m = Some (m(p := word_of_int (uint (m p) AND NOT 1)))"
  by (simp add: bitmap_set_bit_def set_loop.simps set_one_def bit_byte_def shl1_def)

theorem memory_create_uvm_shares_kernel_witness:
  "\<exists>s'. memory_create_uvm 0x20000 (set_ram (store32 0x20004 0x5007 (\<lambda>_. 0)) sample_mst) = Some (0x100000, s') \<and>
     load32 (ram s') 0x100004 = 0x5007 \<and> load32 (ram s') 0x100ffc = 0"
proof -
  let ?m = "store32 0x20004 0x5007 (\<lambda>_. 0)" and ?b = "\<lparr>bitcount = 16, bits = 0x10000\<rparr>"
  let ?s = "set_ram ?m sample_mst" and ?m1 = "?m(0x10000 := 0)"
  have "\<not> bit_of ?b ?m 0" by (simp add: bit_of_def store32_def word_bytes_def)
  then obtain st where "bitmap_alloc_nbits ?b 0 1 ?m \<lparr>search_idx = 0, alog = []\<rparr> = Some (0, ?m1, st)"
    using alloc_one_here [of "\<lparr>search_idx = 0, alog = []\<rparr>" ?b ?m]
    by (auto simp: bitmap_alloc_nbits_def clear_first_bit store32_def word_bytes_def)
  then obtain xs where al: "addr_alloc_page 1 ?s =
      Some (0x100000, set_ram ?m1 (?s\<lparr>bm_search := st\<lparr>alog := alog st @ xs\<rparr>\<rparr>))"
    using alloc_page_quiet [of ?s 1 0 ?m1 st] by auto
  have "span 0x100000 4096 \<inter> span 0x20000 4096 = {}"
    using span_of_nat_disjoint [of "0x20000" 4096 "0x100000" 4096] by (simp add: Int_commute)
  from memory_create_uvm_shares_kernel [OF al _ this] obtain s' where
    s': "memory_create_uvm 0x20000 ?s = Some (0x100000, s')"
      "\<And>i. i < 1024 \<Longrightarrow> load32 (ram s') (0x100000 + 4 * of_nat i) =
         (if i < unat (pde_index MEMORY_TASK_BASE) then load32 ?m1 (0x20000 + 4 * of_nat i) else 0)"
    by auto
  have "load32 ?m1 0x20004 = 0x5007" by (simp add: load32_def store32_def word_bytes_def)
  with s'(1) s'(2) [of 1] s'(2) [of 1023] show ?thesis
    by (simp add: pde_index_def MEMORY_TASK_BASE_def)
qed

section \<open>Start of the memory manager\<close>

lemma sint_of_unat: "unat (w :: uint32_t) = n \<Longrightarrow> n < 2 ^ 31 \<Longrightarrow> sint w = int n"
proof -
  assume n: "unat w = n" "n < 2 ^ 31"
  then have "w = of_nat n" by auto
  then have "sint w = signed_take_bit 31 (int n)" by (simp only: signed_of_nat) simp
  with n(2) show ?thesis by (simp add: signed_take_bit_int_eq_self)
qed

text \<open>The number of whole pages above the first megabyte.\<close>

definition free_pages :: "boot_info_t \<Rightarrow> nat" where
  "free_pages boot_info = (unat (total_mem_size boot_info) - 2 ^ 20) div 4096"

end
