(* ===== verification/Kernel_Run.thy ===== *)
theory Kernel_Run
  imports Kernel_Machine
begin

text \<open>
  Straight runs of kernel code: the pieces on the stack executed one after the other, with no interrupt
  in between and nobody else at the log.  A call of \<open>log_printf\<close> then sends its text to the serial port
  and returns with the rest of the kernel as it was.
\<close>

definition runs :: "(addr \<Rightarrow> addr) \<Rightarrow> (nat \<Rightarrow> uint8_t) \<Rightarrow> kst \<Rightarrow> kst \<Rightarrow> bool" where
  "runs buf lsr = rtranclp (\<lambda>s s'. run_frame buf lsr s = Some s')"

lemma runs_refl [simp]: "runs buf lsr s s"
  by (simp add: runs_def)

lemma runs_step: "run_frame buf lsr s = Some s' \<Longrightarrow> runs buf lsr s' s'' \<Longrightarrow> runs buf lsr s s''"
  unfolding runs_def by (rule converse_rtranclp_into_rtranclp)

lemma runs_trans: "runs buf lsr s s' \<Longrightarrow> runs buf lsr s' s'' \<Longrightarrow> runs buf lsr s s''"
  unfolding runs_def by (rule rtranclp_trans)

lemma run_frame_top: "kstack s = f # fs \<Longrightarrow> run_frame buf lsr s = run_piece buf lsr f (s\<lparr>kstack := fs\<rparr>)"
  by (simp add: run_frame_def)

lemma run_frame_push [simp]: "run_frame buf lsr (push_frame f s) = run_piece buf lsr f s"
  by (simp add: run_frame_def push_frame_def)

lemma run_frame_pending: "run_frame buf lsr s = Some s' \<Longrightarrow> kstack s \<noteq> []"
  by (auto simp: run_frame_def)

text \<open>
  Code that runs to its end: the pieces on the stack are executed until none is left.  This is the
  sequential composition of the code before there are tasks.
\<close>

partial_function (option) finish :: "(addr \<Rightarrow> addr) \<Rightarrow> (nat \<Rightarrow> uint8_t) \<Rightarrow> kst \<Rightarrow> kst option" where
  "finish buf lsr s = (if kstack s = [] then Some s else Option.bind (run_frame buf lsr s) (finish buf lsr))"

lemma finish_runs:
  assumes "runs buf lsr s s'" and "kstack s' = []"
  shows "finish buf lsr s = Some s'"
  using assms(1) unfolding runs_def
proof (induction rule: converse_rtranclp_induct)
  case base
  show ?case using assms(2) by (simp add: finish.simps)
next
  case (step s t)
  then show ?case using run_frame_pending [OF step.hyps(1)] by (simp add: finish.simps [of buf lsr s])
qed

section \<open>One message\<close>

definition log_quiet :: "kst \<Rightarrow> bool" where
  "log_quiet s \<longleftrightarrow> mowner (mutexes s log_mutex) = NULL \<and> locked_count (mutexes s log_mutex) = 0 \<and>
    list_count (mwait_list (mutexes s log_mutex)) = 0"

definition to_com1 :: "uint8_t list \<Rightarrow> (uint16_t \<times> uint8_t) list" where
  "to_com1 = map (Pair COM1_PORT)"

definition said :: "uint8_t list \<Rightarrow> kst \<Rightarrow> kst" where
  "said str s = s\<lparr>ports := (ports s)(COM1_PORT := 10), outs := outs s @ to_com1 (str @ [13, 10])\<rparr>"

lemma said_frame [simp]:
  "idle_task (said msg s) = idle_task s" "first_task (said msg s) = first_task s" "curr_task (said msg s) = curr_task s"
  "mutexes (said msg s) = mutexes s" "saved (said msg s) = saved s" "kmem (said msg s) = kmem s" "kstack (said msg s) = kstack s"
  "tasks (said msg s) = tasks s" "nodes (said msg s) = nodes s" "list_of (said msg s) = list_of s"
  "gdt_table (said msg s) = gdt_table s" "tr (said msg s) = tr s" "eflags (said msg s) = eflags s" "sems (said msg s) = sems s"
  by (simp_all add: said_def)

lemma log_quiet_cong: "mutexes s' = mutexes s \<Longrightarrow> log_quiet s' = log_quiet s"
  by (simp add: log_quiet_def)

lemma run_chars:
  assumes "\<exists>k. lsr k AND 0x20 \<noteq> 0" and "kstack s = F_log_body (str @ [c]) # fs"
  shows "runs buf lsr s (s\<lparr>kstack := F_log_body [] # fs, ports := (ports s)(COM1_PORT := c), outs := outs s @ to_com1 (str @ [c])\<rparr>)"
  using assms(2)
proof (induction str arbitrary: s)
  case Nil
  then have "run_frame buf lsr s =
      Some (s\<lparr>kstack := F_log_body [] # fs, ports := (ports s)(COM1_PORT := c), outs := outs s @ to_com1 [c]\<rparr>)"
    using log_body_total [OF assms(1)] by (simp add: run_frame_def push_frame_def outb_def to_com1_def)
  from runs_step [OF this runs_refl] show ?case by (simp only: append_Nil)
next
  case (Cons d cs)
  let ?s1 = "s\<lparr>kstack := F_log_body (cs @ [c]) # fs, ports := (ports s)(COM1_PORT := d), outs := outs s @ [(COM1_PORT, d)]\<rparr>"
  have 1: "run_frame buf lsr s = Some ?s1"
    using Cons.prems log_body_total [OF assms(1)] by (simp add: run_frame_def push_frame_def outb_def)
  have "kstack ?s1 = F_log_body (cs @ [c]) # fs" by simp
  from runs_step [OF 1 Cons.IH [OF this]] show ?case by (simp add: to_com1_def cong: if_cong)
qed

text \<open>
  The log is free for the running task when nobody has it or when the task has it already: the mutex is
  reentrant, and releasing it again restores it.
\<close>

definition log_ours :: "kst \<Rightarrow> bool" where
  "log_ours s \<longleftrightarrow> log_quiet s \<or> mowner (mutexes s log_mutex) = curr_task s \<and> 0 < locked_count (mutexes s log_mutex)"

lemma log_ours_cong: "mutexes s' = mutexes s \<Longrightarrow> curr_task s' = curr_task s \<Longrightarrow> log_ours s' = log_ours s"
  by (simp add: log_ours_def log_quiet_def)

lemma log_lock_unlock:
  assumes "log_ours s"
  shows "\<exists>f. mutex_lock log_mutex s = upd_mutex log_mutex f s \<and>
    (\<forall>s'. mutexes s' = mutexes s \<and> curr_task s' = curr_task s \<longrightarrow> mutex_unlock log_mutex (upd_mutex log_mutex f s') = s')"
  using assms unfolding log_ours_def
proof
  assume quiet: "log_quiet s"
  let ?f = "\<lambda>x. x\<lparr>locked_count := locked_count x + 1, mowner := curr_task s\<rparr>"
  have "(mutexes s)(log_mutex := (mutexes s log_mutex)\<lparr>locked_count := 0, mowner := NULL\<rparr>) = mutexes s"
    using quiet by (auto simp: log_quiet_def fun_eq_iff)
  then have "mutex_unlock log_mutex (upd_mutex log_mutex ?f s') = s'"
    if "mutexes s' = mutexes s" "curr_task s' = curr_task s" for s' :: kst
    using quiet that by (simp add: mutex_unlock_def task_current_def upd_mutex_def cli_def log_quiet_def)
  then show ?thesis using quiet mutex_lock_free [of s log_mutex] by (intro exI [of _ ?f]) (simp add: log_quiet_def)
next
  assume held: "mowner (mutexes s log_mutex) = curr_task s \<and> 0 < locked_count (mutexes s log_mutex)"
  let ?f = "\<lambda>x. x\<lparr>locked_count := locked_count x + 1\<rparr>"
  have "mutex_unlock log_mutex (upd_mutex log_mutex ?f s') = s'"
    if "mutexes s' = mutexes s" "curr_task s' = curr_task s" for s' :: kst
    using held that mutex_unlock_nested [of "upd_mutex log_mutex ?f s'" log_mutex] by (simp add: upd_mutex_def)
  then show ?thesis using held mutex_lock_again [of s log_mutex] by (intro exI [of _ ?f]) simp
qed

lemma run_message:
  assumes dev: "\<exists>k. lsr k AND 0x20 \<noteq> 0" and top: "kstack s = F_log str # fs" and ours: "log_ours s"
  shows "runs buf lsr s (said str (s\<lparr>kstack := fs\<rparr>))"
proof -
  let ?str = "str @ [13, 10]"
  let ?s0 = "s\<lparr>kstack := F_log_body ?str # fs\<rparr>"
  have "log_ours ?s0" using ours log_ours_cong [of ?s0 s] by simp
  from log_lock_unlock [OF this] obtain f where
    f: "mutex_lock log_mutex ?s0 = upd_mutex log_mutex f ?s0"
      "\<forall>s'. mutexes s' = mutexes s \<and> curr_task s' = curr_task s \<longrightarrow> mutex_unlock log_mutex (upd_mutex log_mutex f s') = s'" by auto
  let ?s1 = "upd_mutex log_mutex f ?s0"
  have 1: "run_frame buf lsr s = Some ?s1" using top f(1) by (simp add: run_frame_def log_lock_def push_frame_def)
  have "kstack ?s1 = F_log_body ((str @ [13]) @ [10]) # fs" by simp
  from run_chars [OF dev this]
  have 2: "runs buf lsr ?s1 (?s1\<lparr>kstack := F_log_body [] # fs, ports := (ports ?s1)(COM1_PORT := 10), outs := outs ?s1 @ to_com1 ?str\<rparr>)"
    (is "runs _ _ _ ?s2") by simp
  have "?s2\<lparr>kstack := fs\<rparr> = upd_mutex log_mutex f (said str (s\<lparr>kstack := fs\<rparr>))"
    by (simp add: upd_mutex_def said_def to_com1_def)
  then have "run_frame buf lsr ?s2 = Some (said str (s\<lparr>kstack := fs\<rparr>))"
    using f(2) by (simp add: run_frame_def log_end_def)
  then show ?thesis using runs_step [OF 1] runs_trans [OF 2] runs_step runs_refl by blast
qed

section \<open>Formatted messages\<close>

text \<open>
  A call of \<open>log_printf\<close> whose text \<open>msg\<close> fits the message buffer at \<open>b\<close>, with the arguments stored outside
  that buffer.
\<close>

definition printable :: "mem \<Rightarrow> addr \<Rightarrow> uint8_t list \<Rightarrow> va list \<Rightarrow> uint8_t list \<Rightarrow> bool" where
  "printable m b fmt args msg \<longleftrightarrow> (\<exists>bs. fmt_text NORMAL fmt bs = Some msg \<and> list_all2 (arg_is m (span b 128)) args bs) \<and>
    length msg < 128 \<and> 0 \<notin> set msg"

lemma printable_change:
  assumes "printable m b fmt args msg" and "\<And>a. a \<notin> span b 128 \<Longrightarrow> m' a = m a"
  shows "printable m' b fmt args msg"
proof -
  from assms(1) obtain bs where bs: "fmt_text NORMAL fmt bs = Some msg" "list_all2 (arg_is m (span b 128)) args bs"
    and "length msg < 128" "0 \<notin> set msg" unfolding printable_def by blast
  moreover have "list_all2 (arg_is m' (span b 128)) args bs"
    using args_change [OF bs(2) assms(2) subset_refl] .
  ultimately show ?thesis unfolding printable_def by blast
qed

definition buffer_ok :: "addr \<Rightarrow> bool" where
  "buffer_ok b \<longleftrightarrow> b \<noteq> NULL \<and> unat b + 128 \<le> 2 ^ 32"

lemma printf_text:
  assumes "printable (kmem s) b fmt args msg" and "buffer_ok b"
  shows "\<exists>m. log_printf b fmt args s = Some (push_frame (F_log msg) (s\<lparr>kmem := m\<rparr>)) \<and>
    (\<forall>a. a \<notin> span b 128 \<longrightarrow> m a = kmem s a)"
proof -
  from assms(1) obtain bs where bs: "fmt_text NORMAL fmt bs = Some msg"
    "list_all2 (arg_is (kmem s) (span b 128)) args bs" "length msg < 128" "0 \<notin> set msg"
    unfolding printable_def by blast
  have mx: "max 128 (Suc (length msg)) = 128" using bs(3) by simp
  from log_printf_format [OF bs(1,4), of s b args, unfolded mx, OF bs(2)] assms(2) bs(3) show ?thesis
    unfolding buffer_ok_def by fastforce
qed

lemma run_log_call:
  assumes dev: "\<exists>k. lsr k AND 0x20 \<noteq> 0"
    and top: "run_frame buf lsr s = log_printf (buf (curr_task s)) fmt args (s\<lparr>kstack := fs\<rparr>)" and "log_quiet s"
    and msg: "printable (kmem s) (buf (curr_task s)) fmt args msg" and "buffer_ok (buf (curr_task s))"
  shows "\<exists>m. runs buf lsr s (said msg (s\<lparr>kstack := fs, kmem := m\<rparr>)) \<and>
    (\<forall>a. a \<notin> span (buf (curr_task s)) 128 \<longrightarrow> m a = kmem s a)"
proof -
  let ?s0 = "s\<lparr>kstack := fs\<rparr>"
  have "printable (kmem ?s0) (buf (curr_task s)) fmt args msg" using msg by simp
  from printf_text [OF this assms(5)] obtain m where
    m: "log_printf (buf (curr_task s)) fmt args ?s0 = Some (push_frame (F_log msg) (?s0\<lparr>kmem := m\<rparr>))"
      "\<forall>a. a \<notin> span (buf (curr_task s)) 128 \<longrightarrow> m a = kmem s a" by auto
  let ?s1 = "push_frame (F_log msg) (?s0\<lparr>kmem := m\<rparr>)"
  have 1: "run_frame buf lsr s = Some ?s1" using top m(1) by simp
  have "runs buf lsr ?s1 (said msg (?s1\<lparr>kstack := fs\<rparr>))"
    using assms(3) by (intro run_message [OF dev]) (simp_all add: log_ours_def log_quiet_def push_frame_def)
  moreover have "?s1\<lparr>kstack := fs\<rparr> = s\<lparr>kstack := fs, kmem := m\<rparr>" by (simp add: push_frame_def)
  ultimately have "runs buf lsr s (said msg (s\<lparr>kstack := fs, kmem := m\<rparr>))"
    using runs_step [OF 1] by simp
  with m(2) show ?thesis by blast
qed

lemma run_printf:
  assumes "\<exists>k. lsr k AND 0x20 \<noteq> 0" and "kstack s = F_printf fmt args # fs" and "log_quiet s"
    and "printable (kmem s) (buf (curr_task s)) fmt args msg" and "buffer_ok (buf (curr_task s))"
  shows "\<exists>m. runs buf lsr s (said msg (s\<lparr>kstack := fs, kmem := m\<rparr>)) \<and>
    (\<forall>a. a \<notin> span (buf (curr_task s)) 128 \<longrightarrow> m a = kmem s a)"
  by (rule run_log_call [where buf = buf, OF assms(1) _ assms(3-5)]) (simp add: run_frame_def assms(2))

lemma printableI:
  assumes "fmt_text NORMAL fmt bs = Some msg" and "list_all2 (arg_is m (span b 128)) args bs"
    and "length msg < 128" and "0 \<notin> set msg"
  shows "printable m b fmt args msg"
  using assms unfolding printable_def by blast

definition tx :: "string \<Rightarrow> uint8_t list" where
  "tx = map of_char"

text \<open>Several calls of \<open>log_printf\<close> in a row.\<close>

definition push_calls :: "(uint8_t list \<times> va list) list \<Rightarrow> kst \<Rightarrow> kst" where
  "push_calls calls s = s\<lparr>kstack := map (\<lambda>(fmt, args). F_printf fmt args) calls @ kstack s\<rparr>"

lemma push_calls_append: "push_calls xs (push_calls ys s) = push_calls (xs @ ys) s"
  by (simp add: push_calls_def)

text \<open>The text of each call, argument by argument.\<close>

definition denotes :: "mem \<Rightarrow> addr \<Rightarrow> uint8_t list \<times> va list \<Rightarrow> uint8_t list \<Rightarrow> bool" where
  "denotes m b = (\<lambda>(fmt, args) msg. \<exists>bs. fmt_text NORMAL fmt bs = Some msg \<and> list_all2 (arg_is m (span b 128)) args bs)"

lemma denotesI:
  "fmt_text NORMAL fmt bs = Some msg \<Longrightarrow> list_all2 (arg_is m (span b 128)) args bs \<Longrightarrow> denotes m b (fmt, args) msg"
  unfolding denotes_def by auto

lemma denotes_printable:
  assumes "list_all2 (denotes m b) calls msgs" and "\<And>t. t \<in> set msgs \<Longrightarrow> length t < 128 \<and> 0 \<notin> set t"
  shows "list_all2 (\<lambda>(fmt, args) t. printable m b fmt args t) calls msgs"
  using assms(1) by (rule list.rel_mono_strong) (use assms(2) in \<open>auto simp: denotes_def printable_def\<close>)

definition lines_of :: "uint8_t list list \<Rightarrow> uint8_t list" where
  "lines_of msgs = concat (map (\<lambda>msg. msg @ [13, 10]) msgs)"

lemma lines_of_append [simp]: "lines_of (xs @ ys) = lines_of xs @ lines_of ys"
  by (simp add: lines_of_def)

lemma run_printfs:
  assumes dev: "\<exists>k. lsr k AND 0x20 \<noteq> 0" and "buffer_ok (buf (curr_task s))"
    and "kstack s = map (\<lambda>(fmt, args). F_printf fmt args) calls @ fs" and "log_quiet s"
    and "list_all2 (\<lambda>(fmt, args) msg. printable (kmem s) (buf (curr_task s)) fmt args msg) calls msgs"
  shows "\<exists>p m. runs buf lsr s (s\<lparr>kstack := fs, ports := p, outs := outs s @ to_com1 (lines_of msgs), kmem := m\<rparr>) \<and>
    (\<forall>a. a \<notin> span (buf (curr_task s)) 128 \<longrightarrow> m a = kmem s a)"
  using assms(2-)
proof (induction calls arbitrary: s msgs)
  case Nil
  then have "s\<lparr>kstack := fs, ports := ports s, outs := outs s @ to_com1 (lines_of msgs), kmem := kmem s\<rparr> = s"
    by (simp add: to_com1_def lines_of_def)
  then show ?case by (metis runs_refl)
next
  case (Cons c calls)
  obtain fmt args where c: "c = (fmt, args)" by (cases c)
  from Cons.prems(4) obtain msg rest where msgs: "msgs = msg # rest" by (cases msgs) auto
  have ok: "printable (kmem s) (buf (curr_task s)) fmt args msg" using Cons.prems(4) c msgs by simp
  have top: "kstack s = F_printf fmt args # map (\<lambda>(fmt, args). F_printf fmt args) calls @ fs"
    using Cons.prems(2) c by simp
  from run_printf [where buf = buf, OF dev top Cons.prems(3) ok Cons.prems(1)] obtain m where
    1: "runs buf lsr s (said msg (s\<lparr>kstack := map (\<lambda>(fmt, args). F_printf fmt args) calls @ fs, kmem := m\<rparr>))"
      (is "runs _ _ _ ?s1")
    and m: "\<forall>a. a \<notin> span (buf (curr_task s)) 128 \<longrightarrow> m a = kmem s a" by blast
  have cur: "curr_task ?s1 = curr_task s" "kmem ?s1 = m" "outs ?s1 = outs s @ to_com1 (msg @ [13, 10])"
    "log_quiet ?s1" using Cons.prems(3) by (simp_all add: said_def log_quiet_def)
  have "list_all2 (\<lambda>(fmt, args) msg. printable m (buf (curr_task s)) fmt args msg) calls rest"
  proof -
    have "list_all2 (\<lambda>(fmt, args) msg. printable (kmem s) (buf (curr_task s)) fmt args msg) calls rest"
      using Cons.prems(4) msgs by simp
    then show ?thesis
      by (rule list_all2_mono) (use m printable_change in \<open>force split: prod.splits\<close>)
  qed
  with Cons.IH [of ?s1 rest] Cons.prems(1) cur obtain p m' where
    2: "runs buf lsr ?s1 (?s1\<lparr>kstack := fs, ports := p, outs := outs ?s1 @ to_com1 (lines_of rest), kmem := m'\<rparr>)"
    and m': "\<forall>a. a \<notin> span (buf (curr_task s)) 128 \<longrightarrow> m' a = m a" by (auto simp: said_def)
  have "?s1\<lparr>kstack := fs, ports := p, outs := outs ?s1 @ to_com1 (lines_of rest), kmem := m'\<rparr> =
      s\<lparr>kstack := fs, ports := p, outs := outs s @ to_com1 (lines_of msgs), kmem := m'\<rparr>"
    by (simp add: said_def msgs lines_of_def to_com1_def)
  with runs_trans [OF 1 2] m m' show ?case by metis
qed

section \<open>Paging stays as it is\<close>

text \<open>No code of the running kernel writes the control register that turns paging on.\<close>

lemma cr0_basic [simp]:
  "cr0 (cli s) = cr0 s" "cr0 (push_frame f s) = cr0 s" "cr0 (outb p v s) = cr0 s"
  "cr0 (upd_task t g s) = cr0 s" "cr0 (upd_mutex m h s) = cr0 s"
  by (simp_all add: cli_def push_frame_def outb_def upd_task_def upd_mutex_def)

lemma cr0_queues [simp]:
  "cr0 (task_set_ready t s) = cr0 s" "cr0 (task_set_block t s) = cr0 s" "cr0 (task_set_sleep t n s) = cr0 s"
  "cr0 (task_set_wakeup t s) = cr0 s" "cr0 (sleep_step t s) = cr0 s"
  by (simp_all add: task_set_ready_def task_set_block_def task_set_sleep_def task_set_wakeup_def sleep_step_def Let_def
      split: prod.split)

lemma cr0_dispatch [simp]: "cr0 (task_dispatch s) = cr0 s"
  by (simp add: task_dispatch_def task_switch_def switch_to_tss_def Let_def)

lemma cr0_mutex [simp]: "cr0 (mutex_lock m s) = cr0 s" "cr0 (mutex_unlock m s) = cr0 s"
  by (simp_all add: mutex_lock_def mutex_unlock_def Let_def split: prod.split)

lemma cr0_walk: "sleep_walk n s = Some s' \<Longrightarrow> cr0 s' = cr0 s"
  by (erule sleep_walk.raw_induct [rotated, where P = "\<lambda>n s s'. cr0 s' = cr0 s"]) (fastforce split: if_splits)

lemma cr0_tick: "task_time_tick s = Some s' \<Longrightarrow> cr0 s' = cr0 s" "task_time_tick_sleep s = Some s' \<Longrightarrow> cr0 s' = cr0 s"
  using cr0_walk by (auto simp: task_time_tick_def task_time_tick_sleep_def Let_def split: if_splits)

lemma cr0_timer: "timer_interrupt s = Some s' \<Longrightarrow> cr0 s' = cr0 s"
  by (auto simp: timer_interrupt_def do_handler_time_def pic_send_eoi_def Let_def dest!: cr0_tick(1))

lemma cr0_rest: "task_rest t name s = Some s' \<Longrightarrow> cr0 s' = cr0 s"
  by (auto simp: task_rest_def Let_def case_prod_beta)

lemma run_frame_cr0: "run_frame buf lsr s = Some s' \<Longrightarrow> cr0 s' = cr0 s"
proof -
  have "run_piece buf lsr f s = Some s' \<Longrightarrow> cr0 s' = cr0 s" for f and s s' :: kst
    by (cases "(buf, lsr, f, s)" rule: run_piece.cases)
      (auto simp: log_lock_def log_end_def log_printf_def write_eflags_def gdt_scan_piece_def tss_fill_def
        task_manager_end_def task_first_init_def task_init_def panic_def task_first_rest_def task_first_end_def write_tr_def
        mmu_set_page_dir_def write_cr3_def task_time_tick_slice_def Let_def dest!: log_body_sends cr0_rest cr0_tick(2) cr0_timer
        split: if_splits prod.splits)
  then show "run_frame buf lsr s = Some s' \<Longrightarrow> cr0 s' = cr0 s"
    by (fastforce simp: run_frame_def split: list.splits)
qed

lemma runs_cr0: "runs buf lsr s s' \<Longrightarrow> cr0 s' = cr0 s"
  unfolding runs_def by (induction rule: rtranclp_induct) (simp_all add: run_frame_cr0)

end
