(* ===== verification/Exceptions.thy ===== *)
theory Exceptions
  imports Kernel_Run
begin

text \<open>
  The exception handlers of \<open>src/source/kernel/cpu/irq.c\<close>: each reports what happened and the saved
  registers on the serial port and stops the machine.  \<open>lit\<close> gives the address of a string literal.  The
  second message of \<open>dump_core_regs\<close> has one conversion more than arguments: \<open>stray\<close> is the word that
  \<open>va_arg\<close> finds there.
\<close>

section \<open>Operations\<close>

record exception_frame_t =
  xf_gs :: uint32_t
  xf_fs :: uint32_t
  xf_es :: uint32_t
  xf_ds :: uint32_t
  xf_edi :: uint32_t
  xf_esi :: uint32_t
  xf_ebp :: uint32_t
  xf_esp :: uint32_t
  xf_ebx :: uint32_t
  xf_edx :: uint32_t
  xf_ecx :: uint32_t
  xf_eax :: uint32_t
  xf_num :: uint32_t
  xf_err_code :: uint32_t
  xf_eip :: uint32_t
  xf_cs :: uint32_t
  xf_eflags :: uint32_t

definition reg_arg :: "uint32_t \<Rightarrow> va" where
  "reg_arg r = VInt (sint r)"

text \<open>The calls of \<open>log_printf\<close> that the two functions make one after the other.\<close>

definition dump_calls :: "exception_frame_t \<Rightarrow> int \<Rightarrow> (uint8_t list \<times> va list) list" where
  "dump_calls f stray =
    [(map of_char ''IRQ: %d, error code: %d.'', [reg_arg (xf_num f), reg_arg (xf_err_code f)]),
     (map of_char ''CS: %d\<newline>DS: %d\<newline>ES: %d\<newline>SS: %d\<newline>FS:%d\<newline>GS:%d'',
      [reg_arg (xf_cs f), reg_arg (xf_ds f), reg_arg (xf_es f), reg_arg (xf_fs f), reg_arg (xf_gs f), VInt stray]),
     (map of_char ''EAX:0x%x\<newline>EBX:0x%x\<newline>ECX:0x%x\<newline>EDX:0x%x\<newline>EDI:0x%x\<newline>ESI:0x%x\<newline>EBP:0x%x\<newline>ESP:0x%x\<newline>'',
      [reg_arg (xf_eax f), reg_arg (xf_ebx f), reg_arg (xf_ecx f), reg_arg (xf_edx f),
       reg_arg (xf_edi f), reg_arg (xf_esi f), reg_arg (xf_ebp f), reg_arg (xf_esp f)]),
     (map of_char ''EIP:0x%x\<newline>EFLAGS:0x%x\<newline>'', [reg_arg (xf_eip f), reg_arg (xf_eflags f)])]"

definition banner_calls :: "addr \<Rightarrow> (uint8_t list \<times> va list) list" where
  "banner_calls msg =
    [(map of_char ''--------------------------------------------------------------------------'', []),
     (map of_char ''IRQ/Exception happend %s'', [VPtr msg])]"

definition dump_core_regs :: "exception_frame_t \<Rightarrow> int \<Rightarrow> kst \<Rightarrow> kst" where
  "dump_core_regs f stray s = push_calls (dump_calls f stray) s"

text \<open>The stack is given from the top: the two messages, the registers, then the loop around \<open>hlt\<close>.\<close>

definition do_default_handler :: "exception_frame_t \<Rightarrow> int \<Rightarrow> addr \<Rightarrow> kst \<Rightarrow> kst" where
  "do_default_handler f stray msg s =
    push_calls (banner_calls msg) (dump_core_regs f stray (push_frame F_hang s))"

fun exc_message :: "exc \<Rightarrow> string option" where
  "exc_message exc_unknown = Some ''Unknown exception.''"
| "exc_message exc_divider = Some ''Divider Error.''"
| "exc_message exc_Debug = Some ''Debug Exception''"
| "exc_message exc_NMI = Some ''NMI Interrupt.''"
| "exc_message exc_breakpoint = Some ''Breakpoint.''"
| "exc_message exc_overflow = Some ''Overflow.''"
| "exc_message exc_bound_range = Some ''BOUND Range Exceeded.''"
| "exc_message exc_invalid_opcode = Some ''Invalid Opcode.''"
| "exc_message exc_device_unavailable = Some ''Device Not Available.''"
| "exc_message exc_double_fault = Some ''Double Fault.''"
| "exc_message exc_invalid_tss = Some ''Invalid TSS''"
| "exc_message exc_segment_not_present = Some ''Segment Not Present.''"
| "exc_message exc_stack_segment_fault = Some ''Stack-Segment Fault.''"
| "exc_message exc_general_protection = Some ''general_protection Error.''"
| "exc_message exc_page_fault = Some ''page_fault Error.''"
| "exc_message exc_fpu_error = Some ''X87 FPU Floating Point Error.''"
| "exc_message exc_alignment_check = Some ''Alignment Check.''"
| "exc_message exc_machine_check = Some ''Machine Check.''"
| "exc_message exc_smd_exception = Some ''SIMD Floating Point Exception.''"
| "exc_message exc_virtual_exception = Some ''Virtualization Exception.''"
| "exc_message exc_time = None"

text \<open>The C handler that the entry point of each vector calls; the timer's is \<open>do_handler_time\<close>.\<close>

definition do_handler :: "(string \<Rightarrow> addr) \<Rightarrow> int \<Rightarrow> exc \<Rightarrow> exception_frame_t \<Rightarrow> kst \<Rightarrow> kst option" where
  "do_handler lit stray e f s =
    (case exc_message e of
       None \<Rightarrow> do_handler_time s
     | Some msg \<Rightarrow> Some (do_default_handler f stray (lit msg) s))"

text \<open>
  An exception as the processor takes it: through an interrupt gate, which disables interrupts, into the
  entry point that calls the handler and would end with \<open>iret\<close>.
\<close>

definition take_exception :: "(string \<Rightarrow> addr) \<Rightarrow> int \<Rightarrow> exc \<Rightarrow> exception_frame_t \<Rightarrow> kst \<Rightarrow> kst option" where
  "take_exception lit stray e f s = do_handler lit stray e f (cli (push_frame (F_iret (eflags s)) s))"

section \<open>The length of printed numbers\<close>

lemma length_rdigits: "2 \<le> b \<Longrightarrow> n < b ^ Suc k \<Longrightarrow> length (rdigits b n) \<le> Suc k"
proof (induction k arbitrary: n)
  case 0
  then show ?case by (simp add: rdigits.simps)
next
  case (Suc k)
  show ?case
  proof (cases "n < b")
    case True
    then show ?thesis by (simp add: rdigits.simps)
  next
    case False
    have "n div b < b ^ Suc k" using Suc.prems by (simp add: less_mult_imp_div_less mult.commute)
    with Suc.IH [OF Suc.prems(1) this] False Suc.prems(1) show ?thesis by (simp add: rdigits.simps [of b n])
  qed
qed

lemma length_itoa_text:
  assumes "\<bar>n\<bar> \<le> 2 ^ 31"
  shows "length (itoa_text n 10) \<le> 11" "length (itoa_text n 16) \<le> 8"
proof -
  have "nat \<bar>n\<bar> \<le> 2 ^ 31" using assms by (simp add: nat_le_iff)
  then have "nat \<bar>n\<bar> < 10 ^ Suc 9" "nat \<bar>n\<bar> < 16 ^ Suc 7" by simp_all
  then have "length (rdigits 10 (nat \<bar>n\<bar>)) \<le> Suc 9" "length (rdigits 16 (nat \<bar>n\<bar>)) \<le> Suc 7"
    by (intro length_rdigits; simp)+
  then show "length (itoa_text n 10) \<le> 11" "length (itoa_text n 16) \<le> 8"
    by (auto simp: itoa_text_def simp del: nat_abs_int_diff)
qed

lemma abs_sint: "\<bar>sint (r :: uint32_t)\<bar> \<le> 2 ^ 31"
  using sint_lt [of r] sint_ge [of r] by simp

lemma reg_text: "length (itoa_text (sint (r :: uint32_t)) 10) \<le> 11" "length (itoa_text (sint r) 16) \<le> 8"
  by (rule length_itoa_text [OF abs_sint])+

section \<open>The report\<close>

definition dec :: "uint32_t \<Rightarrow> uint8_t list" where
  "dec r = itoa_text (sint r) 10"

definition hex :: "uint32_t \<Rightarrow> uint8_t list" where
  "hex r = itoa_text (sint r) 16"

definition report :: "exception_frame_t \<Rightarrow> int \<Rightarrow> string \<Rightarrow> uint8_t list list" where
  "report f stray msg =
    [tx ''--------------------------------------------------------------------------'',
     tx ''IRQ/Exception happend '' @ tx msg,
     tx ''IRQ: '' @ dec (xf_num f) @ tx '', error code: '' @ dec (xf_err_code f) @ tx ''.'',
     tx ''CS: '' @ dec (xf_cs f) @ tx ''\<newline>DS: '' @ dec (xf_ds f) @ tx ''\<newline>ES: '' @ dec (xf_es f) @
       tx ''\<newline>SS: '' @ dec (xf_fs f) @ tx ''\<newline>FS:'' @ dec (xf_gs f) @ tx ''\<newline>GS:'' @ itoa_text stray 10,
     tx ''EAX:0x'' @ hex (xf_eax f) @ tx ''\<newline>EBX:0x'' @ hex (xf_ebx f) @ tx ''\<newline>ECX:0x'' @ hex (xf_ecx f) @
       tx ''\<newline>EDX:0x'' @ hex (xf_edx f) @ tx ''\<newline>EDI:0x'' @ hex (xf_edi f) @ tx ''\<newline>ESI:0x'' @ hex (xf_esi f) @
       tx ''\<newline>EBP:0x'' @ hex (xf_ebp f) @ tx ''\<newline>ESP:0x'' @ hex (xf_esp f) @ tx ''\<newline>'',
     tx ''EIP:0x'' @ hex (xf_eip f) @ tx ''\<newline>EFLAGS:0x'' @ hex (xf_eflags f) @ tx ''\<newline>'']"

lemma report_bounds:
  assumes "\<bar>stray\<bar> \<le> 2 ^ 31" and "length msg < 100" and "t \<in> set (report f stray msg)"
  shows "length t < 128"
proof -
  have "length (dec r) \<le> 11" "length (hex r) \<le> 8" for r by (simp_all add: dec_def hex_def reg_text)
  note d = this(1) [of "xf_num f"] this(1) [of "xf_err_code f"] this(1) [of "xf_cs f"] this(1) [of "xf_ds f"]
    this(1) [of "xf_es f"] this(1) [of "xf_fs f"] this(1) [of "xf_gs f"]
    and h = this(2) [of "xf_eax f"] this(2) [of "xf_ebx f"] this(2) [of "xf_ecx f"] this(2) [of "xf_edx f"]
    this(2) [of "xf_edi f"] this(2) [of "xf_esi f"] this(2) [of "xf_ebp f"] this(2) [of "xf_esp f"]
    this(2) [of "xf_eip f"] this(2) [of "xf_eflags f"]
  have "length (itoa_text stray 10) \<le> 11" using assms(1) by (rule length_itoa_text)
  with d h assms(2,3) show ?thesis unfolding report_def by (auto simp: tx_def)
qed

section \<open>A handler at work\<close>

lemma report_no_zero: "0 \<notin> set (tx msg) \<Longrightarrow> t \<in> set (report f stray msg) \<Longrightarrow> 0 \<notin> set t"
  using itoa_text_no_zero [of 10] itoa_text_no_zero [of 16]
  by (auto simp: report_def tx_def dec_def hex_def)

lemma banner_denotes:
  assumes "arg_is m (span b 128) (VPtr p) (SStr (tx msg))"
  shows "list_all2 (denotes m b) (banner_calls p) (take 2 (report f stray msg))"
proof -
  have "denotes m b (map of_char ''--------------------------------------------------------------------------'', [])
     (tx ''--------------------------------------------------------------------------'')"
    by (rule denotesI [of _ "[]"]) (simp_all add: tx_def)
  moreover have "denotes m b (map of_char ''IRQ/Exception happend %s'', [VPtr p]) (tx ''IRQ/Exception happend '' @ tx msg)"
    by (rule denotesI [of _ "[SStr (tx msg)]"]) (use assms in \<open>simp_all add: tx_def conv_text.simps\<close>)
  ultimately show ?thesis unfolding banner_calls_def report_def by simp
qed

definition arg_of :: "uint32_t \<Rightarrow> sarg" where
  "arg_of r = SInt (sint r)"

lemma dump_denotes: "list_all2 (denotes m b) (dump_calls f stray) (drop 2 (report f stray msg))"
proof -
  note ev = tx_def dec_def hex_def arg_of_def reg_arg_def conv_text.simps
  have "denotes m b (map of_char ''IRQ: %d, error code: %d.'', [reg_arg (xf_num f), reg_arg (xf_err_code f)])
     (tx ''IRQ: '' @ dec (xf_num f) @ tx '', error code: '' @ dec (xf_err_code f) @ tx ''.'')"
    by (rule denotesI [of _ "[arg_of (xf_num f), arg_of (xf_err_code f)]"]) (simp_all add: ev)
  moreover have "denotes m b (map of_char ''CS: %d\<newline>DS: %d\<newline>ES: %d\<newline>SS: %d\<newline>FS:%d\<newline>GS:%d'',
      [reg_arg (xf_cs f), reg_arg (xf_ds f), reg_arg (xf_es f), reg_arg (xf_fs f), reg_arg (xf_gs f), VInt stray])
     (tx ''CS: '' @ dec (xf_cs f) @ tx ''\<newline>DS: '' @ dec (xf_ds f) @ tx ''\<newline>ES: '' @ dec (xf_es f) @
       tx ''\<newline>SS: '' @ dec (xf_fs f) @ tx ''\<newline>FS:'' @ dec (xf_gs f) @ tx ''\<newline>GS:'' @ itoa_text stray 10)"
    by (rule denotesI [of _ "[arg_of (xf_cs f), arg_of (xf_ds f), arg_of (xf_es f), arg_of (xf_fs f),
      arg_of (xf_gs f), SInt stray]"]) (simp_all add: ev)
  moreover have "denotes m b
     (map of_char ''EAX:0x%x\<newline>EBX:0x%x\<newline>ECX:0x%x\<newline>EDX:0x%x\<newline>EDI:0x%x\<newline>ESI:0x%x\<newline>EBP:0x%x\<newline>ESP:0x%x\<newline>'',
      [reg_arg (xf_eax f), reg_arg (xf_ebx f), reg_arg (xf_ecx f), reg_arg (xf_edx f),
       reg_arg (xf_edi f), reg_arg (xf_esi f), reg_arg (xf_ebp f), reg_arg (xf_esp f)])
     (tx ''EAX:0x'' @ hex (xf_eax f) @ tx ''\<newline>EBX:0x'' @ hex (xf_ebx f) @ tx ''\<newline>ECX:0x'' @ hex (xf_ecx f) @
       tx ''\<newline>EDX:0x'' @ hex (xf_edx f) @ tx ''\<newline>EDI:0x'' @ hex (xf_edi f) @ tx ''\<newline>ESI:0x'' @ hex (xf_esi f) @
       tx ''\<newline>EBP:0x'' @ hex (xf_ebp f) @ tx ''\<newline>ESP:0x'' @ hex (xf_esp f) @ tx ''\<newline>'')"
    by (rule denotesI [of _ "map arg_of [xf_eax f, xf_ebx f, xf_ecx f, xf_edx f, xf_edi f, xf_esi f, xf_ebp f, xf_esp f]"])
      (simp_all add: ev)
  moreover have "denotes m b (map of_char ''EIP:0x%x\<newline>EFLAGS:0x%x\<newline>'', [reg_arg (xf_eip f), reg_arg (xf_eflags f)])
     (tx ''EIP:0x'' @ hex (xf_eip f) @ tx ''\<newline>EFLAGS:0x'' @ hex (xf_eflags f) @ tx ''\<newline>'')"
    by (rule denotesI [of _ "[arg_of (xf_eip f), arg_of (xf_eflags f)]"]) (simp_all add: ev)
  ultimately show ?thesis unfolding dump_calls_def report_def by simp
qed

lemma report_printable:
  assumes "arg_is m (span b 128) (VPtr p) (SStr (tx msg))" and "length msg < 100" and "\<bar>stray\<bar> \<le> 2 ^ 31"
  shows "list_all2 (\<lambda>(fmt, args) t. printable m b fmt args t) (banner_calls p @ dump_calls f stray) (report f stray msg)"
proof -
  have z: "0 \<notin> set (tx msg)" using assms(1) by (simp add: cstring_def)
  have "list_all2 (denotes m b) (banner_calls p @ dump_calls f stray)
      (take 2 (report f stray msg) @ drop 2 (report f stray msg))"
    by (rule list_all2_appendI [OF banner_denotes [OF assms(1)] dump_denotes])
  then have "list_all2 (denotes m b) (banner_calls p @ dump_calls f stray) (report f stray msg)"
    by (simp only: append_take_drop_id)
  then show ?thesis
    by (rule denotes_printable) (use report_bounds [OF assms(3,2)] report_no_zero [OF z] in blast)
qed

lemma exc_message_length: "exc_message e = Some msg \<Longrightarrow> length msg < 100"
  by (cases e) auto

text \<open>
  A series of messages and then the loop around \<open>hlt\<close>: with interrupts disabled nothing runs any more,
  otherwise only what interrupts bring, on top of the loop.
\<close>

lemma run_hang:
  assumes "kstack s = F_hang # fs"
  shows "run_frame buf lsr s = (if if_set s then timer_interrupt s else None)"
proof -
  have "push_frame F_hang (s\<lparr>kstack := fs\<rparr>) = s" using assms by (simp add: push_frame_def)
  then show ?thesis by (simp add: run_frame_top [OF assms])
qed

lemma run_fatal:
  assumes "\<exists>k. lsr k AND 0x20 \<noteq> 0" and "buffer_ok (buf (curr_task s))" and "log_quiet s"
    and "list_all2 (\<lambda>(fmt, args) t. printable (kmem s) (buf (curr_task s)) fmt args t) calls msgs"
  shows "\<exists>p m s'. runs buf lsr (push_calls calls (push_frame F_hang s)) s' \<and>
    s' = s\<lparr>kstack := F_hang # kstack s, ports := p, kmem := m, outs := outs s @ to_com1 (lines_of msgs)\<rparr> \<and>
    (\<forall>a. a \<notin> span (buf (curr_task s)) 128 \<longrightarrow> m a = kmem s a) \<and>
    run_frame buf lsr s' = (if if_set s then timer_interrupt s' else None)"
proof -
  let ?s0 = "push_calls calls (push_frame F_hang s)"
  have st: "kstack ?s0 = map (\<lambda>(fmt, args). F_printf fmt args) calls @ F_hang # kstack s"
    "curr_task ?s0 = curr_task s" "kmem ?s0 = kmem s" "outs ?s0 = outs s" "log_quiet ?s0"
    using assms(3) by (simp_all add: push_calls_def push_frame_def log_quiet_def)
  have "list_all2 (\<lambda>(fmt, args) t. printable (kmem ?s0) (buf (curr_task ?s0)) fmt args t) calls msgs"
    using assms(4) by (simp only: st)
  from run_printfs [where buf = buf, OF assms(1) _ st(1,5) this] assms(2) obtain p m where
    1: "runs buf lsr ?s0 (?s0\<lparr>kstack := F_hang # kstack s, ports := p, outs := outs s @ to_com1 (lines_of msgs), kmem := m\<rparr>)"
      (is "runs _ _ _ ?s1") and 2: "\<forall>a. a \<notin> span (buf (curr_task s)) 128 \<longrightarrow> m a = kmem s a" by (auto simp only: st)
  have "?s1 = s\<lparr>kstack := F_hang # kstack s, ports := p, kmem := m, outs := outs s @ to_com1 (lines_of msgs)\<rparr>"
    by (simp add: push_calls_def push_frame_def)
  moreover have "if_set ?s1 = if_set s" by (simp add: if_set_def push_calls_def push_frame_def)
  then have "run_frame buf lsr ?s1 = (if if_set s then timer_interrupt ?s1 else None)" by (simp add: run_hang [of ?s1])
  ultimately show ?thesis using 1 2 by metis
qed

text \<open>
  C40: every exception handler but the timer's reports the exception on the serial port and stops.  Taken
  through its interrupt gate, an exception sends the separator, the name of the exception and the saved
  registers, each line ended by CR LF and each short enough for the message buffer, touches no memory
  but that buffer, and ends in the loop around \<open>hlt\<close> with interrupts disabled: no further piece of the
  kernel runs.
\<close>

theorem exception_report:
  assumes "exc_message e = Some msg" and "arg_is (kmem s) (span (buf (curr_task s)) 128) (VPtr (lit msg)) (SStr (tx msg))"
    and "buffer_ok (buf (curr_task s))" and "\<exists>k. lsr k AND 0x20 \<noteq> 0" and "log_quiet s"
    and "\<bar>stray\<bar> \<le> 2 ^ 31"
  shows "\<exists>s0 p m s'. take_exception lit stray e f s = Some s0 \<and> runs buf lsr s0 s' \<and>
    s' = (cli s)\<lparr>kstack := F_hang # F_iret (eflags s) # kstack s, ports := p, kmem := m,
            outs := outs s @ to_com1 (lines_of (report f stray msg))\<rparr> \<and>
    (\<forall>a. a \<notin> span (buf (curr_task s)) 128 \<longrightarrow> m a = kmem s a) \<and>
    (\<forall>t \<in> set (report f stray msg). length t < 128) \<and> run_frame buf lsr s' = None"
proof -
  let ?calls = "banner_calls (lit msg) @ dump_calls f stray" and ?s = "cli (push_frame (F_iret (eflags s)) s)"
  have S: "kmem ?s = kmem s" "curr_task ?s = curr_task s" "outs ?s = outs s" "kstack ?s = F_iret (eflags s) # kstack s"
    "mutexes ?s = mutexes s" by (simp_all add: cli_def push_frame_def)
  have quiet: "log_quiet ?s" using assms(5) log_quiet_cong [OF S(5)] by simp
  have "take_exception lit stray e f s = Some (push_calls ?calls (push_frame F_hang ?s))"
    using assms(1) by (simp add: take_exception_def do_handler_def do_default_handler_def dump_core_regs_def push_calls_append)
  moreover have "\<forall>t \<in> set (report f stray msg). length t < 128"
    using report_bounds [OF assms(6) exc_message_length [OF assms(1)]] by blast
  moreover from run_fatal [where buf = buf and s = ?s, unfolded S, OF assms(4,3) quiet
      report_printable [OF assms(2) exc_message_length [OF assms(1)] assms(6), of f]] obtain p m s' where
    "runs buf lsr (push_calls ?calls (push_frame F_hang ?s)) s'"
    "s' = ?s\<lparr>kstack := F_hang # F_iret (eflags s) # kstack s, ports := p, kmem := m,
      outs := outs s @ to_com1 (lines_of (report f stray msg))\<rparr>"
    "\<forall>a. a \<notin> span (buf (curr_task s)) 128 \<longrightarrow> m a = kmem s a" "run_frame buf lsr s' = None" by (simp del: span.simps) blast
  ultimately show ?thesis by (intro exI conjI) (assumption | simp add: cli_def push_frame_def)+
qed

definition sample_frame :: exception_frame_t where
  "sample_frame =
    \<lparr>xf_gs = 16, xf_fs = 16, xf_es = 16, xf_ds = 16, xf_edi = 0, xf_esi = 0, xf_ebp = 0, xf_esp = 0x9000,
     xf_ebx = 3, xf_edx = 0, xf_ecx = 7, xf_eax = 10, xf_num = 0, xf_err_code = 0, xf_eip = 0x10000,
     xf_cs = 8, xf_eflags = 0x202\<rparr>"

definition sample_fault :: kst where
  "sample_fault = sample_state\<lparr>kmem := write_bytes 0x9000 (tx ''Divider Error.'' @ [0]) (\<lambda>_. 0)\<rparr>"

theorem exception_report_witness:
  "\<exists>s0 s'. take_exception (\<lambda>_. 0x9000) 0 exc_divider sample_frame sample_fault = Some s0 \<and>
     runs (\<lambda>_. 0x8000) (\<lambda>_. 0x60) s0 s' \<and>
     outs s' = outs sample_state @ to_com1 (lines_of (report sample_frame 0 ''Divider Error.'')) \<and>
     run_frame (\<lambda>_. 0x8000) (\<lambda>_. 0x60) s' = None"
proof -
  have m: "exc_message exc_divider = Some ''Divider Error.''" by simp
  have len: "Suc (length (tx ''Divider Error.'')) = 15" by (simp add: tx_def)
  have "span 0x8000 128 \<inter> span 0x9000 15 = {}"
    using span_of_nat_disjoint [where x = "0x8000" and n = 128 and y = "0x9000" and m = 15] by (simp del: span.simps)
  then have "span 0x9000 (Suc (length (tx ''Divider Error.''))) \<inter> span 0x8000 128 = {}" unfolding len by blast
  then have a: "arg_is (kmem sample_fault) (span 0x8000 128) (VPtr 0x9000) (SStr (tx ''Divider Error.''))"
    using bytes_at_write [where xs = "tx ''Divider Error.'' @ [0]" and p = "0x9000" and m = "\<lambda>_. 0"]
    by (simp add: sample_fault_def cstring_def len del: span.simps bytes_at.simps write_bytes.simps) (simp add: tx_def)
  have "log_quiet sample_fault" by (simp add: log_quiet_def sample_fault_def sample_state_def add_sem_waiter_def add_mutex_waiter_def
    Let_def sample_ready_def sample_held_def empty_state_def list_init_def list_count_def split: prod.split)
  from exception_report [where buf = "\<lambda>_. 0x8000", where lsr = "\<lambda>_. 0x60", where lit = "\<lambda>_. 0x9000",
      OF m a _ _ this, of 0 sample_frame] obtain s0 p m s' where
    "take_exception (\<lambda>_. 0x9000) 0 exc_divider sample_frame sample_fault = Some s0"
    "runs (\<lambda>_. 0x8000) (\<lambda>_. 0x60) s0 s'" "run_frame (\<lambda>_. 0x8000) (\<lambda>_. 0x60) s' = None"
    and s': "s' = (cli sample_fault)\<lparr>kstack := F_hang # F_iret (eflags sample_fault) # kstack sample_fault, ports := p, kmem := m,
      outs := outs sample_fault @ to_com1 (lines_of (report sample_frame 0 ''Divider Error.''))\<rparr>"
    by (auto simp: buffer_ok_def)
  moreover have "outs s' = outs sample_state @ to_com1 (lines_of (report sample_frame 0 ''Divider Error.''))"
    unfolding s' by (simp add: sample_fault_def)
  ultimately show ?thesis by blast
qed

section \<open>Failed assertions\<close>

definition panic_lines :: "uint8_t list \<Rightarrow> int \<Rightarrow> uint8_t list \<Rightarrow> uint8_t list \<Rightarrow> uint8_t list list" where
  "panic_lines file line func cond =
    [tx ''assert failed! '' @ cond,
     tx ''file:'' @ file @ tx ''\<newline>,line:'' @ itoa_text line 10 @ tx ''\<newline>,func:'' @ func]"

definition panic_calls :: "assert_site \<Rightarrow> (uint8_t list \<times> va list) list" where
  "panic_calls = (\<lambda>(file, line, func, cond). [(panic_fmt1, [VPtr cond]), (panic_fmt2, [VPtr file, VInt line, VPtr func])])"

lemma panic_eq: "panic site s = push_calls (panic_calls site) (push_frame F_hang s)"
  by (cases site) (simp add: panic_def panic_calls_def push_calls_def push_frame_def)

text \<open>The literals of an assertion are in memory, outside the buffer, and short enough for the messages.\<close>

definition site_ok :: "mem \<Rightarrow> addr \<Rightarrow> assert_site \<Rightarrow> uint8_t list \<Rightarrow> uint8_t list \<Rightarrow> uint8_t list \<Rightarrow> bool" where
  "site_ok m b = (\<lambda>(pfile, line, pfunc, pcond) file func cond.
    arg_is m (span b 128) (VPtr pfile) (SStr file) \<and> arg_is m (span b 128) (VPtr pfunc) (SStr func) \<and>
    arg_is m (span b 128) (VPtr pcond) (SStr cond) \<and> \<bar>line\<bar> \<le> 2 ^ 31 \<and> length file + length func < 98 \<and> length cond < 110)"

lemma panic_printable:
  assumes "site_ok m b (pfile, line, pfunc, pcond) file func cond"
  shows "list_all2 (\<lambda>(fmt, args) t. printable m b fmt args t) (panic_calls (pfile, line, pfunc, pcond)) (panic_lines file line func cond)"
proof -
  have A: "arg_is m (span b 128) (VPtr pfile) (SStr file)" "arg_is m (span b 128) (VPtr pfunc) (SStr func)"
    "arg_is m (span b 128) (VPtr pcond) (SStr cond)" "\<bar>line\<bar> \<le> 2 ^ 31" "length file + length func < 98" "length cond < 110"
    using assms by (simp_all add: site_ok_def del: arg_is.simps)
  have z: "0 \<notin> set file" "0 \<notin> set func" "0 \<notin> set cond" using A(1-3) by (simp_all add: cstring_def)
  have "denotes m b (panic_fmt1, [VPtr pcond]) (tx ''assert failed! '' @ cond)"
    by (rule denotesI [of _ "[SStr cond]"]) (use A(3) in \<open>simp_all add: panic_fmt1_def tx_def conv_text.simps del: arg_is.simps\<close>)
  moreover have "denotes m b (panic_fmt2, [VPtr pfile, VInt line, VPtr pfunc])
      (tx ''file:'' @ file @ tx ''\<newline>,line:'' @ itoa_text line 10 @ tx ''\<newline>,func:'' @ func)"
    by (rule denotesI [of _ "[SStr file, SInt line, SStr func]"])
      (use A(1,2) in \<open>simp_all add: panic_fmt2_def tx_def conv_text.simps del: arg_is.simps(2)\<close>)
  ultimately have "list_all2 (denotes m b) (panic_calls (pfile, line, pfunc, pcond)) (panic_lines file line func cond)"
    by (simp add: panic_calls_def panic_lines_def)
  then show ?thesis
    by (rule denotes_printable)
      (use A(5,6) z itoa_text_no_zero [of 10 line] length_itoa_text(1) [OF A(4)] in \<open>auto simp: panic_lines_def tx_def\<close>)
qed

text \<open>
  C20: a task without memory is not created.  \<open>task_init\<close> on a null pointer fails its assertion: it reports the
  condition, the file, the line and the function on the serial port and goes into the loop around \<open>hlt\<close>,
  with no queue, no descriptor and no task changed, and with the code that would fill the descriptor
  below that loop.  With interrupts disabled no further code runs.  With interrupts enabled the kernel
  is not stopped: the loop waits for the timer, and a timer interrupt is handled on top of it as ever, so
  that other tasks may still be dispatched.
\<close>

theorem task_init_null_panics:
  assumes "\<exists>k. lsr k AND 0x20 \<noteq> 0" and "buffer_ok (buf (curr_task s))" and "log_quiet s"
    and "site_ok (kmem s) (buf (curr_task s)) (pfile, line, pfunc, pcond) file func cond"
  shows "\<exists>p m s'. runs buf lsr (task_init (pfile, line, pfunc, pcond) NULL entry esp name s) s' \<and>
    s' = s\<lparr>kstack := F_hang # F_gdt_scan NULL entry esp name # kstack s, ports := p, kmem := m,
           outs := outs s @ to_com1 (lines_of (panic_lines file line func cond))\<rparr> \<and>
    (\<forall>a. a \<notin> span (buf (curr_task s)) 128 \<longrightarrow> m a = kmem s a) \<and>
    run_frame buf lsr s' = (if if_set s then timer_interrupt s' else None)"
proof -
  let ?s = "push_frame (F_gdt_scan NULL entry esp name) s" and ?site = "(pfile, line, pfunc, pcond)"
  have "task_init ?site NULL entry esp name s = push_calls (panic_calls ?site) (push_frame F_hang ?s)"
    by (simp add: task_init_def panic_eq)
  moreover have "buffer_ok (buf (curr_task ?s))" "log_quiet ?s" using assms(2,3) by (simp_all add: log_quiet_def)
  moreover have "list_all2 (\<lambda>(fmt, args) t. printable (kmem ?s) (buf (curr_task ?s)) fmt args t) (panic_calls ?site)
      (panic_lines file line func cond)" using panic_printable [OF assms(4)] by simp
  moreover have "if_set ?s = if_set s" by (simp add: if_set_def)
  ultimately obtain p m s' where "runs buf lsr (task_init ?site NULL entry esp name s) s'"
    "run_frame buf lsr s' = (if if_set s then timer_interrupt s' else None)"
    "s' = ?s\<lparr>kstack := F_hang # kstack ?s, ports := p, kmem := m, outs := outs ?s @ to_com1 (lines_of (panic_lines file line func cond))\<rparr>"
    "\<forall>a. a \<notin> span (buf (curr_task ?s)) 128 \<longrightarrow> m a = kmem ?s a"
    using run_fatal [where buf = buf and s = ?s, OF assms(1)] by metis
  then show ?thesis by (intro exI [of _ p] exI [of _ m] exI [of _ s']) (simp add: push_frame_def)
qed

definition sample_assert :: kst where
  "sample_assert = sample_state\<lparr>kmem := write_bytes 0x9000 (tx ''task.c'' @ [0]) (write_bytes 0x9010 (tx ''task_init'' @ [0])
    (write_bytes 0x9020 (tx ''task != (task_t *)0'' @ [0]) (\<lambda>_. 0)))\<rparr>"

theorem task_init_null_panics_witness:
  "\<exists>s'. runs (\<lambda>_. 0x8000) (\<lambda>_. 0x60) (task_init (0x9000, 38, 0x9010, 0x9020) NULL 0 0 0 sample_assert) s' \<and>
     outs s' = outs sample_state @ to_com1 (lines_of [tx ''assert failed! task != (task_t *)0'',
       tx ''file:task.c\<newline>,line:38\<newline>,func:task_init'']) \<and>
     run_frame (\<lambda>_. 0x8000) (\<lambda>_. 0x60) s' = timer_interrupt s'"
proof -
  let ?m = "kmem sample_assert"
  have len: "Suc (length (tx ''task.c'')) = 7" "Suc (length (tx ''task_init'')) = 10" "Suc (length (tx ''task != (task_t *)0'')) = 20"
    by (simp_all add: tx_def)
  have dis: "span 0x9000 7 \<inter> span 0x8000 128 = {}" "span 0x9010 10 \<inter> span 0x8000 128 = {}" "span 0x9020 20 \<inter> span 0x8000 128 = {}"
    using span_of_nat_disjoint [where x = "0x8000" and n = 128 and y = "0x9000" and m = 7]
      span_of_nat_disjoint [where x = "0x8000" and n = 128 and y = "0x9010" and m = 10]
      span_of_nat_disjoint [where x = "0x8000" and n = 128 and y = "0x9020" and m = 20]
    by (simp_all add: Int_commute del: span.simps)
  have "cstring ?m 0x9000 (tx ''task.c'')" "cstring ?m 0x9010 (tx ''task_init'')" "cstring ?m 0x9020 (tx ''task != (task_t *)0'')"
    by (simp_all add: sample_assert_def cstring_def tx_def)
  then have site: "site_ok ?m 0x8000 (0x9000, 38, 0x9010, 0x9020) (tx ''task.c'') (tx ''task_init'') (tx ''task != (task_t *)0'')"
    unfolding site_ok_def prod.case arg_is.simps len using dis by (simp add: tx_def del: span.simps)
  have quiet: "log_quiet sample_assert" by (simp add: log_quiet_def sample_assert_def sample_state_def add_sem_waiter_def add_mutex_waiter_def
    Let_def sample_ready_def sample_held_def empty_state_def list_init_def list_count_def split: prod.split)
  have "panic_lines (tx ''task.c'') 38 (tx ''task_init'') (tx ''task != (task_t *)0'') =
      [tx ''assert failed! task != (task_t *)0'', tx ''file:task.c\<newline>,line:38\<newline>,func:task_init'']"
    by (simp add: panic_lines_def tx_def itoa_text_def rdigits.simps dchar_def numchar_def)
  moreover obtain s' where s': "runs (\<lambda>_. 0x8000) (\<lambda>_. 0x60) (task_init (0x9000, 38, 0x9010, 0x9020) NULL 0 0 0 sample_assert) s'"
    "outs s' = outs sample_assert @ to_com1 (lines_of (panic_lines (tx ''task.c'') 38 (tx ''task_init'') (tx ''task != (task_t *)0'')))"
    "run_frame (\<lambda>_. 0x8000) (\<lambda>_. 0x60) s' = (if if_set sample_assert then timer_interrupt s' else None)"
    using task_init_null_panics [where buf = "\<lambda>_. 0x8000" and lsr = "\<lambda>_. 0x60" and entry = 0 and esp = 0 and name = 0, OF _ _ quiet site]
    by (auto simp: buffer_ok_def)
  moreover have "if_set sample_assert" by (simp add: if_set_def sample_assert_def sample_context)
  ultimately show ?thesis by (intro exI [of _ s']) (simp add: sample_assert_def)
qed

end
