(* ===== verification/Memory_Init.thy ===== *)
theory Memory_Init
  imports Memory Exceptions
begin

text \<open>
  \<open>memory_init\<close> and \<open>show_mem_info\<close> of \<open>src/source/kernel/core/memory.c\<close>.  They run before there are tasks:
  their messages are printed by the log one after the other, on the stack of which \<open>buf NULL\<close> is the
  message buffer.
\<close>

section \<open>Operations\<close>

text \<open>
  The loader fills \<open>ram_region_count\<close> entries of the array, at most its length; an index past the list
  that stands for the array is left out.
\<close>

fun show_regions :: "int \<Rightarrow> (uint32_t \<times> uint32_t) list \<Rightarrow> (uint8_t list \<times> va list) list" where
  "show_regions i [] = []"
| "show_regions i ((start, sz) # regions) =
    (map of_char ''[%d]:0x%x-0x%x'', [VInt i, VInt (sint start), VInt (sint sz)]) # show_regions (i + 1) regions"

definition show_mem_info :: "boot_info_t \<Rightarrow> (uint8_t list \<times> va list) list" where
  "show_mem_info boot_info =
    (map of_char ''memory region:'', []) # show_regions 0 (valid_regions boot_info) @ [(map of_char ''\<newline>'', [])]"

text \<open>Calls of \<open>log_printf\<close>, executed to their end.\<close>

definition print_all :: "(addr \<Rightarrow> addr) \<Rightarrow> (nat \<Rightarrow> uint8_t) \<Rightarrow> (uint8_t list \<times> va list) list \<Rightarrow> mst \<Rightarrow> mst option" where
  "print_all buf lsr calls s = map_option (\<lambda>k. s\<lparr>ks := k\<rparr>) (finish buf lsr (push_calls calls (ks s)))"

text \<open>\<open>creat_kernel_tables\<close> is called here and defined in no file: a parameter.\<close>

definition memory_init ::
    "(addr \<Rightarrow> addr) \<Rightarrow> (nat \<Rightarrow> uint8_t) \<Rightarrow> (mst \<Rightarrow> mst) \<Rightarrow> addr \<Rightarrow> boot_info_t \<Rightarrow> mst \<Rightarrow> mst checked option" where
  "memory_init buf lsr creat_kernel_tables mem_free_start boot_info s =
    Option.bind (print_all buf lsr ((map of_char ''memory init success'', []) # show_mem_info boot_info) s)
      (\<lambda>s1. let up1MB_free = down2 (total_mem_size boot_info - MEM_EXT_START) MEM_PAGE_SIZE
            in Option.bind (print_all buf lsr
                 [(map of_char ''free memory: 0x%x, size:0x%x'', [VInt (sint MEM_EXT_START), VInt (sint up1MB_free)])] s1)
              (\<lambda>s2. map_option
                (\<lambda>s3. let mem_free = mem_free_start +
                            word_of_int (bitmap_byte_count (sint (asize (paddr_alloc s3) div MEM_PAGE_SIZE)))
                      in if mem_free < MEM_EBDA_START then Done (creat_kernel_tables s3) else Panic)
                (addr_alloc_init mem_free_start MEM_EXT_START up1MB_free MEM_PAGE_SIZE s2)))"

section \<open>The messages\<close>

definition region_line :: "int \<Rightarrow> uint32_t \<times> uint32_t \<Rightarrow> uint8_t list" where
  "region_line i r = tx ''['' @ itoa_text i 10 @ tx '']:0x'' @ hex (fst r) @ tx ''-0x'' @ hex (snd r)"

fun region_lines :: "int \<Rightarrow> (uint32_t \<times> uint32_t) list \<Rightarrow> uint8_t list list" where
  "region_lines i [] = []"
| "region_lines i (r # rs) = region_line i r # region_lines (i + 1) rs"

definition info_lines :: "boot_info_t \<Rightarrow> uint8_t list list" where
  "info_lines boot_info =
    [tx ''memory init success'', tx ''memory region:''] @ region_lines 0 (valid_regions boot_info) @ [tx ''\<newline>'']"

definition size_line :: "boot_info_t \<Rightarrow> uint8_t list" where
  "size_line boot_info = tx ''free memory: 0x'' @ hex MEM_EXT_START @ tx '', size:0x'' @
    hex (down2 (total_mem_size boot_info - MEM_EXT_START) MEM_PAGE_SIZE)"

definition mem_lines :: "boot_info_t \<Rightarrow> uint8_t list list" where
  "mem_lines boot_info = info_lines boot_info @ [size_line boot_info]"

lemma hex_text: "length (hex r) \<le> 8" "0 \<notin> set (hex r)"
  using itoa_text_no_zero [of 16] by (simp_all add: hex_def reg_text)

lemma plain_printable: "of_char CHR ''%'' \<notin> set fmt \<Longrightarrow> length fmt < 128 \<Longrightarrow> 0 \<notin> set fmt \<Longrightarrow> printable m b fmt [] fmt"
  by (rule printableI [of _ "[]"]) (simp_all add: fmt_text_plain)

lemma region_printable:
  assumes "0 \<le> i" and "i \<le> 2 ^ 31"
  shows "printable m b (map of_char ''[%d]:0x%x-0x%x'') [VInt i, VInt (sint (p :: uint32_t)), VInt (sint (q :: uint32_t))] (region_line i (p, q))"
proof (rule printableI [of _ "[SInt i, SInt (sint p), SInt (sint q)]"])
  have "length (itoa_text i 10) \<le> 11" using assms by (intro length_itoa_text(1)) simp
  then show "length (region_line i (p, q)) < 128" using hex_text(1) [of p] hex_text(1) [of q] by (simp add: region_line_def tx_def)
  show "0 \<notin> set (region_line i (p, q))"
    using hex_text(2) itoa_text_no_zero [of 10 i] by (auto simp: region_line_def tx_def)
qed (simp_all add: region_line_def tx_def hex_def conv_text.simps)

lemma regions_printable:
  assumes "0 \<le> i" and "i + int (length rs) \<le> 2 ^ 31"
  shows "list_all2 (\<lambda>(fmt, args) t. printable m b fmt args t) (show_regions i rs) (region_lines i rs)"
  using assms
proof (induction rs arbitrary: i)
  case (Cons r rs)
  then show ?case using region_printable [of i m b "fst r" "snd r"] by (cases r) simp
qed simp

lemma info_printable:
  assumes "length (valid_regions boot_info) \<le> 2 ^ 31"
  shows "list_all2 (\<lambda>(fmt, args) t. printable m b fmt args t)
    ((map of_char ''memory init success'', []) # show_mem_info boot_info) (info_lines boot_info)"
proof -
  have "printable m b (map of_char ''memory init success'') [] (tx ''memory init success'')"
    "printable m b (map of_char ''memory region:'') [] (tx ''memory region:'')"
    "printable m b (map of_char ''\<newline>'') [] (tx ''\<newline>'')"
    unfolding tx_def by (rule plain_printable; simp)+
  moreover have "int (length (valid_regions boot_info)) \<le> 2 ^ 31" using assms by simp
  then have "list_all2 (\<lambda>(fmt, args) t. printable m b fmt args t)
      (show_regions 0 (valid_regions boot_info)) (region_lines 0 (valid_regions boot_info))" by (intro regions_printable) simp_all
  ultimately show ?thesis unfolding info_lines_def show_mem_info_def by (simp add: list_all2_appendI)
qed

lemma size_printable:
  "printable m b (map of_char ''free memory: 0x%x, size:0x%x'')
    [VInt (sint MEM_EXT_START), VInt (sint (down2 (total_mem_size boot_info - MEM_EXT_START) MEM_PAGE_SIZE))] (size_line boot_info)"
    (is "printable _ _ _ [_, VInt (sint ?q)] _")
proof (rule printableI [of _ "[SInt (sint MEM_EXT_START), SInt (sint ?q)]"])
  show "length (size_line boot_info) < 128"
    using hex_text(1) [of MEM_EXT_START] hex_text(1) [of ?q] by (simp add: size_line_def tx_def)
  show "0 \<notin> set (size_line boot_info)" using hex_text(2) by (auto simp: size_line_def tx_def)
qed (simp_all add: size_line_def tx_def hex_def conv_text.simps)

lemma print_all_effect:
  assumes "\<exists>k. lsr k AND 0x20 \<noteq> 0" and "buffer_ok (buf (curr_task (ks s)))" and "kstack (ks s) = []" and "log_quiet (ks s)"
    and "list_all2 (\<lambda>(fmt, args) msg. printable (ram s) (buf (curr_task (ks s))) fmt args msg) calls msgs"
  shows "\<exists>p m. print_all buf lsr calls s =
      Some (s\<lparr>ks := (ks s)\<lparr>ports := p, outs := outs (ks s) @ to_com1 (lines_of msgs), kmem := m\<rparr>\<rparr>) \<and>
    (\<forall>a. a \<notin> span (buf (curr_task (ks s))) 128 \<longrightarrow> m a = ram s a)"
proof -
  let ?k = "push_calls calls (ks s)"
  have k: "curr_task ?k = curr_task (ks s)" "kmem ?k = ram s" "outs ?k = outs (ks s)" "log_quiet ?k"
    "kstack ?k = map (\<lambda>(fmt, args). F_printf fmt args) calls @ []"
    using assms(3,4) by (simp_all add: push_calls_def log_quiet_def ram_def)
  from run_printfs [where buf = buf and s = ?k, unfolded k(1-3), OF assms(1,2) k(5,4) assms(5)] obtain p m where
    1: "runs buf lsr ?k (?k\<lparr>kstack := [], ports := p, outs := outs (ks s) @ to_com1 (lines_of msgs), kmem := m\<rparr>)"
    and 2: "\<forall>a. a \<notin> span (buf (curr_task (ks s))) 128 \<longrightarrow> m a = ram s a" by blast
  have "?k\<lparr>kstack := [], ports := p, outs := outs (ks s) @ to_com1 (lines_of msgs), kmem := m\<rparr> =
      (ks s)\<lparr>ports := p, outs := outs (ks s) @ to_com1 (lines_of msgs), kmem := m\<rparr>"
    using assms(3) by (simp add: push_calls_def)
  with finish_runs [OF 1] assms(3) 2 show ?thesis by (auto simp: print_all_def)
qed

section \<open>Initialisation\<close>

text \<open>The allocator that \<open>memory_init\<close> sets up: all whole pages above the first megabyte, every one free.\<close>

definition fresh_allocator :: "addr \<Rightarrow> boot_info_t \<Rightarrow> mst \<Rightarrow> bool" where
  "fresh_allocator mem_free_start boot_info s \<longleftrightarrow>
    quiet s \<and> astart (paddr_alloc s) = 0x100000 \<and> apage_size (paddr_alloc s) = 4096 \<and>
    unat (asize (paddr_alloc s)) = 4096 * free_pages boot_info \<and>
    abitmap (paddr_alloc s) = \<lparr>bitcount = int (free_pages boot_info), bits = mem_free_start\<rparr> \<and>
    (\<forall>j. 0 \<le> j \<and> j < int (free_pages boot_info) \<longrightarrow> bitmap_get_bit (abitmap (paddr_alloc s)) j (ram s) = Some 0)"

definition bitmap_at :: "addr \<Rightarrow> boot_info_t \<Rightarrow> addr set" where
  "bitmap_at mem_free_start boot_info = span mem_free_start ((free_pages boot_info + 7) div 8)"

lemma init_allocator:
  assumes "mem_free_start \<noteq> NULL" and "unat mem_free_start < 2 ^ 20"
    and "2 ^ 20 \<le> unat (total_mem_size boot_info)"
  shows "\<exists>s1 m. addr_alloc_init mem_free_start MEM_EXT_START (down2 (total_mem_size boot_info - MEM_EXT_START) MEM_PAGE_SIZE)
      MEM_PAGE_SIZE s = Some s1 \<and> ks s1 = (mutex_init paddr_mutex (ks s))\<lparr>kmem := m\<rparr> \<and>
    fresh_allocator mem_free_start boot_info s1 \<and> (\<forall>a. a \<notin> bitmap_at mem_free_start boot_info \<longrightarrow> m a = ram s a) \<and>
    (mem_free_start + word_of_int (bitmap_byte_count (sint (asize (paddr_alloc s1) div MEM_PAGE_SIZE))) < MEM_EBDA_START \<longleftrightarrow>
      unat mem_free_start + (free_pages boot_info + 7) div 8 < 0x80000)"
proof -
  let ?n = "free_pages boot_info" and ?t = "total_mem_size boot_info"
  let ?sz = "down2 (?t - MEM_EXT_START) MEM_PAGE_SIZE"
  have "unat ?t < 2 ^ LENGTH(32)" by (rule unsigned_less)
  then have n: "?n < 2 ^ 20" by (simp add: free_pages_def)
  have "MEM_EXT_START \<le> ?t" using assms(3) by (simp add: MEM_EXT_START_def word_le_nat_alt)
  then have "unat (?t - MEM_EXT_START) = unat ?t - 2 ^ 20"
    by (simp add: unat_sub MEM_EXT_START_def)
  then have sz: "unat ?sz = 4096 * ?n"
    using unat_down2 [of "?t - MEM_EXT_START" 12] by (simp add: MEM_PAGE_SIZE_def free_pages_def)
  then have "unat (?sz div MEM_PAGE_SIZE) = ?n" by (simp add: unat_div MEM_PAGE_SIZE_def)
  then have cnt: "sint (?sz div MEM_PAGE_SIZE) = int ?n" using n by (intro sint_of_unat) simp_all
  let ?b = "\<lparr>bitcount = int ?n, bits = mem_free_start\<rparr>"
  let ?s1 = "s\<lparr>ks := mutex_init paddr_mutex (ks s)\<rparr>"
  obtain m where m: "bitmap_init mem_free_start (int ?n) 0 (ram ?s1) = Some (?b, m)"
    "\<And>j. 0 \<le> j \<Longrightarrow> j < int ?n \<Longrightarrow> bitmap_get_bit ?b j m = Some 0"
    "\<And>a. a \<notin> span mem_free_start (nat ((int ?n + 7) div 8)) \<Longrightarrow> m a = ram ?s1 a"
    using bitmap_init_spec [of "int ?n" mem_free_start 0 "ram ?s1"] assms(1) n by auto
  have "nat ((int ?n + 7) div 8) = (?n + 7) div 8" by (simp add: nat_div_distrib)
  moreover have "ram ?s1 = ram s" by (simp add: ram_def mutex_init_def)
  ultimately have frame: "\<forall>a. a \<notin> bitmap_at mem_free_start boot_info \<longrightarrow> m a = ram s a" using m(3) by (simp add: bitmap_at_def)
  let ?a = "\<lparr>abitmap = ?b, astart = MEM_EXT_START, asize = ?sz, apage_size = MEM_PAGE_SIZE\<rparr>"
  let ?s2 = "set_ram m (?s1\<lparr>paddr_alloc := ?a\<rparr>)"
  have init: "addr_alloc_init mem_free_start MEM_EXT_START ?sz MEM_PAGE_SIZE s = Some ?s2"
    unfolding addr_alloc_init_def Let_def cnt m(1) by simp
  have bytes: "bitmap_byte_count (int ?n) = int ((?n + 7) div 8)"
    by (simp add: bitmap_byte_count_def nonneg_sdiv_smod zdiv_int)
  have "unat (mem_free_start + of_nat ((?n + 7) div 8)) = unat mem_free_start + (?n + 7) div 8"
    using assms(2) n by (simp add: unat_word_ariths unat_of_nat)
  then have "mem_free_start + word_of_int (bitmap_byte_count (sint (asize (paddr_alloc ?s2) div MEM_PAGE_SIZE))) < MEM_EBDA_START \<longleftrightarrow>
      unat mem_free_start + (?n + 7) div 8 < 0x80000"
    by (simp add: cnt bytes word_less_nat_alt MEM_EBDA_START_def)
  moreover have "fresh_allocator mem_free_start boot_info ?s2"
    using m(2) sz
    by (simp add: fresh_allocator_def quiet_def mutex_init_def list_init_def list_count_def MEM_EXT_START_def MEM_PAGE_SIZE_def)
  ultimately show ?thesis using init frame by (intro exI [of _ ?s2] exI [of _ m]) simp
qed

text \<open>What \<open>memory_init\<close> needs to print: a free log, a message buffer, and a port that becomes ready.\<close>

definition can_print :: "(addr \<Rightarrow> addr) \<Rightarrow> (nat \<Rightarrow> uint8_t) \<Rightarrow> kst \<Rightarrow> bool" where
  "can_print buf lsr s \<longleftrightarrow> (\<exists>k. lsr k AND 0x20 \<noteq> 0) \<and> buffer_ok (buf (curr_task s)) \<and> kstack s = [] \<and> log_quiet s"

lemma memory_init_effect:
  assumes "mem_free_start \<noteq> NULL" and "unat mem_free_start < 2 ^ 20"
    and "2 ^ 20 \<le> unat (total_mem_size boot_info)" and "length (valid_regions boot_info) \<le> 2 ^ 31"
    and print: "can_print buf lsr (ks s)"
  shows "\<exists>s1 m p. memory_init buf lsr creat_kernel_tables mem_free_start boot_info s =
      Some (if unat mem_free_start + (free_pages boot_info + 7) div 8 < 0x80000
            then Done (creat_kernel_tables s1) else Panic) \<and>
    ks s1 = (mutex_init paddr_mutex (ks s))\<lparr>ports := p, outs := outs (ks s) @ to_com1 (lines_of (mem_lines boot_info)), kmem := m\<rparr> \<and>
    fresh_allocator mem_free_start boot_info s1 \<and>
    (\<forall>a. a \<notin> bitmap_at mem_free_start boot_info \<union> span (buf (curr_task (ks s))) 128 \<longrightarrow> m a = ram s a)"
proof -
  let ?calls = "(map of_char ''memory init success'', []) # show_mem_info boot_info"
  let ?size = "[(map of_char ''free memory: 0x%x, size:0x%x'', [VInt (sint MEM_EXT_START),
    VInt (sint (down2 (total_mem_size boot_info - MEM_EXT_START) MEM_PAGE_SIZE))])]"
  note P = print [unfolded can_print_def]
  from P have dev: "\<exists>k. lsr k AND 0x20 \<noteq> 0" and "buffer_ok (buf (curr_task (ks s)))" "kstack (ks s) = []" "log_quiet (ks s)" by auto
  from print_all_effect [where buf = buf and s = s, OF this info_printable [OF assms(4)]] obtain p1 m1 where
    1: "print_all buf lsr ?calls s = Some (s\<lparr>ks := (ks s)\<lparr>ports := p1, outs := outs (ks s) @ to_com1 (lines_of (info_lines boot_info)), kmem := m1\<rparr>\<rparr>)"
      (is "_ = Some ?s1") and m1: "\<forall>a. a \<notin> span (buf (curr_task (ks s))) 128 \<longrightarrow> m1 a = ram s a" by blast
  have s1: "buffer_ok (buf (curr_task (ks ?s1)))" "kstack (ks ?s1) = []" "log_quiet (ks ?s1)"
    using P by (simp_all add: log_quiet_def)
  have "list_all2 (\<lambda>(fmt, args) msg. printable (ram ?s1) (buf (curr_task (ks ?s1))) fmt args msg) ?size [size_line boot_info]"
    using size_printable by simp
  from print_all_effect [where buf = buf and s = ?s1, OF dev s1 this] obtain p2 m2 where
    2: "print_all buf lsr ?size ?s1 =
      Some (?s1\<lparr>ks := (ks ?s1)\<lparr>ports := p2, outs := outs (ks ?s1) @ to_com1 (lines_of [size_line boot_info]), kmem := m2\<rparr>\<rparr>)"
      (is "_ = Some ?s2") and m2: "\<forall>a. a \<notin> span (buf (curr_task (ks s))) 128 \<longrightarrow> m2 a = m1 a" by (auto simp: ram_def simp del: span.simps)
  from init_allocator [OF assms(1-3), of ?s2] obtain s3 m where
    3: "addr_alloc_init mem_free_start MEM_EXT_START (down2 (total_mem_size boot_info - MEM_EXT_START) MEM_PAGE_SIZE) MEM_PAGE_SIZE ?s2 = Some s3"
      "ks s3 = (mutex_init paddr_mutex (ks ?s2))\<lparr>kmem := m\<rparr>" "fresh_allocator mem_free_start boot_info s3"
    and m: "\<forall>a. a \<notin> bitmap_at mem_free_start boot_info \<longrightarrow> m a = ram ?s2 a"
    and fits: "mem_free_start + word_of_int (bitmap_byte_count (sint (asize (paddr_alloc s3) div MEM_PAGE_SIZE))) < MEM_EBDA_START \<longleftrightarrow>
      unat mem_free_start + (free_pages boot_info + 7) div 8 < 0x80000" by blast
  have "memory_init buf lsr creat_kernel_tables mem_free_start boot_info s =
      Some (if unat mem_free_start + (free_pages boot_info + 7) div 8 < 0x80000 then Done (creat_kernel_tables s3) else Panic)"
    unfolding memory_init_def 1 Let_def bind.bind_lunit 2 3(1) by (simp add: fits)
  moreover have "to_com1 (lines_of (info_lines boot_info)) @ to_com1 (lines_of [size_line boot_info]) = to_com1 (lines_of (mem_lines boot_info))"
    by (simp add: mem_lines_def to_com1_def)
  then have "ks s3 = (mutex_init paddr_mutex (ks s))\<lparr>ports := p2, outs := outs (ks s) @ to_com1 (lines_of (mem_lines boot_info)), kmem := m\<rparr>"
    using 3(2) by (simp add: mutex_init_def)
  moreover have "\<forall>a. a \<notin> bitmap_at mem_free_start boot_info \<union> span (buf (curr_task (ks s))) 128 \<longrightarrow> m a = ram s a"
    using m m1 m2 by (simp add: ram_def del: span.simps)
  ultimately show ?thesis using 3(3) by blast
qed

text \<open>
  \<open>memory_init\<close> on a machine with at least one megabyte.  It prints the memory map; the allocator starts
  at one megabyte with the whole pages above it, every one of them free, and its mutex is free; the
  bitmap takes one byte for eight pages behind the kernel, and if it would reach the extended BIOS area
  the assertion fails.
\<close>

theorem memory_init_ready:
  assumes "mem_free_start \<noteq> NULL" and "unat mem_free_start < 2 ^ 20"
    and "2 ^ 20 \<le> unat (total_mem_size boot_info)" and "length (valid_regions boot_info) \<le> 2 ^ 31"
    and "can_print buf lsr (ks s)"
  shows "\<exists>s1. memory_init buf lsr creat_kernel_tables mem_free_start boot_info s =
      Some (if unat mem_free_start + (free_pages boot_info + 7) div 8 < 0x80000
            then Done (creat_kernel_tables s1) else Panic) \<and>
    fresh_allocator mem_free_start boot_info s1 \<and> outs (ks s1) = outs (ks s) @ to_com1 (lines_of (mem_lines boot_info))"
proof -
  from memory_init_effect [OF assms, of creat_kernel_tables] obtain s1 m p where
    "memory_init buf lsr creat_kernel_tables mem_free_start boot_info s =
      Some (if unat mem_free_start + (free_pages boot_info + 7) div 8 < 0x80000 then Done (creat_kernel_tables s1) else Panic)"
    "fresh_allocator mem_free_start boot_info s1"
    "ks s1 = (mutex_init paddr_mutex (ks s))\<lparr>ports := p, outs := outs (ks s) @ to_com1 (lines_of (mem_lines boot_info)), kmem := m\<rparr>" by blast
  then show ?thesis by (intro exI [of _ s1]) simp
qed

theorem memory_init_ready_witness:
  "\<exists>s1. memory_init (\<lambda>_. 0x8000) (\<lambda>_. 0x20) id 0x20000 \<lparr>ram_region_cfg = [(0, 0x9f000), (0x100000, 0x7ee0000)], ram_region_count = 2\<rparr>
       sample_mst = Some (Done s1) \<and> quiet s1"
proof -
  let ?i = "\<lparr>ram_region_cfg = [(0, 0x9f000), (0x100000, 0x7ee0000)], ram_region_count = 2\<rparr>"
  have "total_mem_size ?i = 0x7f7f000" by (simp add: total_mem_size_def valid_regions_def numeral_2_eq_2)
  moreover from this have "free_pages ?i = 0x7e7f" by (simp add: free_pages_def)
  moreover have "length (valid_regions ?i) \<le> 2 ^ 31" by (simp add: valid_regions_def)
  moreover have "log_quiet sample_state"
    by (simp add: log_quiet_def sample_state_def add_sem_waiter_def add_mutex_waiter_def Let_def sample_ready_def
        sample_held_def empty_state_def list_init_def list_count_def split: prod.split)
  then have "can_print (\<lambda>_. 0x8000) (\<lambda>_. 0x20) (ks sample_mst)"
    by (simp add: can_print_def buffer_ok_def sample_mst_def)
      (simp add: log_quiet_def mutex_init_def sample_context list_init_def list_count_def)
  ultimately show ?thesis
    using memory_init_ready [of "0x20000" ?i "\<lambda>_. 0x8000" "\<lambda>_. 0x20" sample_mst id] by (auto simp: fresh_allocator_def)
qed

end
