(* ===== verification/Boot.thy ===== *)
theory Boot
  imports Task_Create_Props Memory_Init Irq
begin

text \<open>
  The start of the kernel, \<open>src/source/kernel/init/init.c\<close>: \<open>kernel_init\<close>, which sets up the processor,
  the memory, the log, the interrupts, the timer and the task manager, and \<open>init_main\<close>, which creates
  the first task.  Before the first task is current no task is, and code runs with \<open>curr_task\<close> null.
  \<open>init_main\<close> ends with \<open>move_to_first_task\<close>, which the compiler rejects; the model ends before it.
\<close>

section \<open>Operations\<close>

text \<open>Addresses that the linker chooses: tables, entry points, the idle task's stack, and literals.\<close>

record image =
  gdt_at :: uint32_t
  idt_at :: uint32_t
  entry_of :: "exc \<Rightarrow> uint32_t"
  free_at :: addr
  idle_code :: uint32_t
  idle_stack_end :: uint32_t
  task_init_site :: assert_site
  idle_name :: addr
  first_name :: addr
  version_str :: addr
  author_str :: addr

text \<open>\<open>task_manager_init\<close> calls functions that may switch tasks; it is executed to its end.\<close>

definition kernel_init ::
    "(addr \<Rightarrow> addr) \<Rightarrow> (nat \<Rightarrow> uint8_t) \<Rightarrow> image \<Rightarrow> (mst \<Rightarrow> mst) \<Rightarrow> boot_info_t \<Rightarrow> mst \<Rightarrow> mst checked option" where
  "kernel_init buf lsr im creat_kernel_tables boot_info s =
    (let s1 = s\<lparr>ks := cpu_init (gdt_at im) (ks s)\<rparr>
     in Option.bind (memory_init buf lsr creat_kernel_tables (free_at im) boot_info s1)
          (\<lambda>r. case r of
             Panic \<Rightarrow> Some Panic
           | Done s2 \<Rightarrow>
               let k3 = log_init (ks s2);
                   k4 = irq_init (entry_of im) (idt_at im) k3
               in Option.bind (time_init (entry_of im) k4)
                    (\<lambda>k5. map_option (\<lambda>k6. Done (s2\<lparr>ks := k6\<rparr>))
                      (finish buf lsr (task_manager_init (task_init_site im) (idle_code im)
                         (idle_stack_end im) (idle_name im) k5)))))"

definition main_calls :: "image \<Rightarrow> (uint8_t list \<times> va list) list" where
  "main_calls im =
    [(map of_char ''kernel is running...'', []),
     (map of_char ''version %s %s'', [VPtr (version_str im), VPtr (author_str im)]),
     (map of_char ''%d %d %x %c'', [VInt (- 123456), VInt 123456, VInt 0x12345, VInt (of_char CHR ''c'')])]"

definition init_main :: "image \<Rightarrow> kst \<Rightarrow> kst" where
  "init_main im s = push_calls (main_calls im) (push_frame (F_first_init (task_init_site im) (first_name im)) s)"

section \<open>Before any task\<close>

text \<open>The static data of the kernel at its start.\<close>

definition cold :: "kst \<Rightarrow> bool" where
  "cold s \<longleftrightarrow> (\<forall>m. mutexes s m = \<lparr>mowner = NULL, locked_count = 0, mwait_list = list_init\<rparr>) \<and>
    (\<forall>k. sems s k = \<lparr>scount = 0, swait_list = list_init\<rparr>) \<and>
    curr_task s = NULL \<and> kstack s = [] \<and> (\<forall>t. saved s t = [])"

text \<open>
  The kernel after \<open>kernel_init\<close>: the idle task exists with a full slice, waits for nothing and will run
  with interrupts enabled, and no other task exists.
\<close>

definition prepared :: "kst \<Rightarrow> bool" where
  "prepared s \<longleftrightarrow> cold s \<and> qrep {idle_task s} s ((\<lambda>_. [])(Q_all := [idle_task s])) \<and> tss_ok {idle_task s} s \<and>
    gdt_scan 1 (gdt_table s) = 0x20 \<and> time_ticks (tasks s (idle_task s)) = TASK_TIME_SLICE_DEFAULT \<and>
    slice_ticks (tasks s (idle_task s)) = TASK_TIME_SLICE_DEFAULT \<and> bit (tss_eflags (tss (tasks s (idle_task s)))) 9"

lemma start_tss_flags: "bit (tss_eflags (start_tss entry esp)) 9"
  by (simp add: start_tss_def EFLAGS_DEFAULT_def EFLAGS_IF_def bit_or_iff bit_push_bit_iff)

lemma empty_qrep:
  assumes "\<And>m. mwait_list (mutexes s m) = list_init" and "\<And>k. swait_list (sems s k) = list_init"
    and "ready_list s = list_init" "task_list s = list_init" "sleep_list s = list_init"
  shows "qrep T s (\<lambda>_. [])"
proof -
  have "list_of s q = list_init" for q using assms by (cases q) simp_all
  then show ?thesis by (simp add: qrep_def)
qed

lemma second_scan: "gdt_scan 1 (tss_entry 0x18 t (init_gdt_table gdt)) = 0x20"
proof -
  have "attr (make_segment_desc base sizeof_tss_t (SEG_P_PRESENT OR SEG_DPL0 OR SEG_TYPE_TSS)) \<noteq> 0" for base
    using tss_desc_made [of base] by (auto simp: is_tss_desc_def)
  then show ?thesis
    by (simp add: gdt_scan.simps [of 1] gdt_scan.simps [of 2] gdt_scan.simps [of 3] gdt_scan.simps [of 4] gdt_consts
        tss_entry_def segment_desc_set_def init_gdt_entries clear_gdt_eq init_gdt_attrs)
qed

section \<open>Devices\<close>

lemma idt_fill_frame: "\<exists>t. idt_fill h n s = s\<lparr>idt_table := t\<rparr>"
proof (induction n)
  case 0
  have "s = s\<lparr>idt_table := idt_table s\<rparr>" by simp
  then show ?case by (metis idt_fill.simps(1))
next
  case (Suc n)
  then obtain t where "idt_fill h n s = s\<lparr>idt_table := t\<rparr>" by blast
  then have "idt_fill h (Suc n) s = s\<lparr>idt_table := t(int n := idt_gate h)\<rparr>" by (simp add: Let_def)
  then show ?case by blast
qed

lemma install_all_frame: "\<exists>t. irq_install_all entry ves s = s\<lparr>idt_table := t\<rparr>"
proof (induction entry ves s rule: irq_install_all.induct)
  case (1 entry s)
  have "s = s\<lparr>idt_table := idt_table s\<rparr>" by simp
  then show ?case by (metis irq_install_all.simps(1))
next
  case (2 entry v e ves s)
  then obtain t where "irq_install_all entry ves (snd (irq_install v (entry e) s)) =
    (snd (irq_install v (entry e) s))\<lparr>idt_table := t\<rparr>" by blast
  then show ?case by (intro exI [of _ t]) (simp add: irq_install_def)
qed

text \<open>The programming of the serial port, the interrupt controllers and the timer, as the devices see it.\<close>

definition com1_setup :: "(uint16_t \<times> uint8_t) list" where
  "com1_setup = [(0x3F9, 0x00), (0x3FB, 0x80), (0x3F8, 0x03), (0x3F9, 0x00), (0x3FB, 0x03), (0x3FA, 0xC7), (0x3FC, 0x0F)]"

definition pic_setup :: "(uint16_t \<times> uint8_t) list" where
  "pic_setup = [(0x20, 0x11), (0x21, 0x20), (0x21, 0x04), (0x21, 0x01),
     (0xA0, 0x11), (0xA1, 0x28), (0xA1, 0x02), (0xA1, 0x01), (0x21, 0xFB), (0xA1, 0xFF)]"

definition timer_setup :: "(uint16_t \<times> uint8_t) list" where
  "timer_setup = [(0x43, 0x36), (0x40, 0x9B), (0x40, 0x2E), (0x21, 0xFA)]"

text \<open>Every exception and the timer have their handlers, every other vector has the default one.\<close>

definition all_vectors :: "(exc \<Rightarrow> uint32_t) \<Rightarrow> (int \<Rightarrow> gate_desc_t) \<Rightarrow> bool" where
  "all_vectors entry t \<longleftrightarrow>
    (\<forall>e v. exception_vector e = Some v \<longrightarrow> t v = gate_desc_set 8 (entry e) 0x8E00) \<and>
    t 0x20 = gate_desc_set 8 (entry exc_time) 0x8E00 \<and>
    (\<forall>v. 0 \<le> v \<and> v < 128 \<and> v \<noteq> 0x20 \<and> (\<forall>e. exception_vector e \<noteq> Some v) \<longrightarrow>
      t v = gate_desc_set 8 (entry exc_unknown) 0x8E00)"

lemma exception_vector_low: "exception_vector e = Some v \<Longrightarrow> 0 \<le> v \<and> v \<le> 20"
  by (cases e) auto

lemma irq_init_frame:
  "\<exists>p. irq_init entry a s = s\<lparr>idt_table := idt_table (irq_init entry a s), idtr := make_dtr a (128 * 8),
     ports := p, outs := outs s @ pic_setup\<rparr> \<and> p PIC0_IMR = 0xFB"
proof -
  obtain t where 1: "idt_fill (entry exc_unknown) 128 s = s\<lparr>idt_table := t\<rparr>" using idt_fill_frame by blast
  obtain t' where 2: "irq_install_all entry irq_vectors (s\<lparr>idt_table := t\<rparr>) = s\<lparr>idt_table := t'\<rparr>"
    using install_all_frame [of entry irq_vectors "s\<lparr>idt_table := t\<rparr>"] by auto
  show ?thesis
    by (rule exI [of _ "ports (irq_init entry a s)"])
      (simp add: irq_init_def Let_def lidt_def init_pic_def outb_def 1 2 pic_consts pic_setup_def
        IRQ_PIC_START_def IDT_TABLE_NR_def)
qed

lemma time_init_effect:
  assumes "ports s PIC0_IMR = 0xFB"
  shows "\<exists>p. time_init entry s =
    Some (s\<lparr>sys_tick := 0, idt_table := (idt_table s)(0x20 := idt_gate (entry exc_time)), ports := p, outs := outs s @ timer_setup\<rparr>) \<and>
    p PIC0_IMR = 0xFA"
proof -
  have rc: "reload_count = 11931" by (simp add: reload_count_def PIT_OSC_FREQ_def OS_TICKS_MS_def)
  from assms show ?thesis
    by (intro exI [of _ "(ports s)(0x43 := 0x36, 0x40 := 0x2E, PIC0_IMR := 0xFA)"])
      (simp add: time_init_def init_pit_def Let_def irq_enable_def IRQ0_TIMER_def IRQ_PIC_START_def shl1_def
        irq_install_def IDT_TABLE_NR_def outb_def inb_def pic_consts pit_consts timer_setup_def rc)
qed

lemma log_init_frame:
  "\<exists>p. log_init s = (mutex_init log_mutex s)\<lparr>ports := p, outs := outs s @ com1_setup\<rparr>"
  by (rule exI [of _ "ports (log_init s)"])
    (simp add: log_init_def Let_def outb_def COM1_PORT_def com1_setup_def mutex_init_def)

lemma devices:
  "\<exists>t p. time_init entry (irq_init entry a (log_init s)) =
      Some ((mutex_init log_mutex s)\<lparr>sys_tick := 0, idt_table := t, idtr := make_dtr a (128 * 8), ports := p,
        outs := outs s @ com1_setup @ pic_setup @ timer_setup\<rparr>) \<and>
    p PIC0_IMR = 0xFA \<and> all_vectors entry t"
proof -
  let ?s2 = "irq_init entry a (log_init s)"
  obtain p2 where 2: "?s2 = (log_init s)\<lparr>idt_table := idt_table ?s2, idtr := make_dtr a (128 * 8),
     ports := p2, outs := outs (log_init s) @ pic_setup\<rparr>" (is "_ = ?s2'") and p2: "p2 PIC0_IMR = 0xFB"
    using irq_init_frame by blast
  have imr: "ports ?s2 PIC0_IMR = 0xFB" by (subst 2) (simp add: p2)
  let ?t = "(idt_table ?s2)(0x20 := idt_gate (entry exc_time))"
  obtain p where 3: "time_init entry ?s2 = Some (?s2\<lparr>sys_tick := 0, idt_table := ?t, ports := p, outs := outs ?s2 @ timer_setup\<rparr>)"
    and p: "p PIC0_IMR = 0xFA" using time_init_effect [OF imr] by blast
  obtain p1 where 1: "log_init s = (mutex_init log_mutex s)\<lparr>ports := p1, outs := outs s @ com1_setup\<rparr>" using log_init_frame by blast
  have "?s2\<lparr>sys_tick := 0, idt_table := t, ports := p, outs := outs ?s2 @ timer_setup\<rparr> =
      (mutex_init log_mutex s)\<lparr>sys_tick := 0, idt_table := t, idtr := make_dtr a (128 * 8), ports := p,
        outs := outs s @ com1_setup @ pic_setup @ timer_setup\<rparr>" for t
    by (subst (1 2) 2, subst (1 2) 1) simp
  moreover have "all_vectors entry ?t"
    unfolding all_vectors_def using exception_vector_low by (fastforce simp: irq_init_gates idt_gate_eq)
  ultimately show ?thesis using 3 p by (intro exI [of _ ?t] exI [of _ p]) simp
qed

section \<open>Properties\<close>

text \<open>
  The task manager on a fresh kernel: the idle task gets the first free descriptor.
\<close>

lemma task_manager_init_effect:
  assumes cold: "cold s" and idle: "task_space {idle_task s}" and gdt: "gdt_table s = init_gdt_table g"
  shows "\<exists>k. runs buf lsr (task_manager_init site code stk name s) k \<and> prepared k \<and>
    idle_task k = idle_task s \<and> first_task k = first_task s \<and> eflags k = eflags s \<and> cr0 k = cr0 s \<and>
    ports k = ports s \<and> outs k = outs s \<and> gdtr k = gdtr s \<and> idtr k = idtr s \<and>
    idt_table k = idt_table s \<and> tss (tasks k (idle_task s)) = start_tss code stk \<and>
    kernel_strncpy (idle_task s + off_name) name TASK_NAME_SIZE (kmem s) = Some (kmem k)"
proof -
  let ?i = "idle_task s"
  let ?s1 = "push_frame F_manager_end (s\<lparr>ready_list := list_init, task_list := list_init, sleep_list := list_init\<rparr>)"
  note c = cold [unfolded cold_def]
  have q: "qrep {} ?s1 (\<lambda>_. [])" by (rule empty_qrep) (use c in \<open>simp_all add: push_frame_def\<close>)
  obtain m where m: "kernel_strncpy (?i + off_name) name TASK_NAME_SIZE (kmem ?s1) = Some m"
    using kernel_strncpy_total [of "?i + off_name" name 32 "kmem ?s1"] by (auto simp: TASK_NAME_SIZE_def)
  have sel: "gdt_scan 1 (gdt_table ?s1) = 0x18" by (simp add: push_frame_def gdt init_gdt_scan)
  have mu: "locked_count (mutexes ?s1 gdt_mutex) = 0" using c by (simp add: push_frame_def)
  have "task_space (insert ?i {})" using idle by simp
  from task_init_effect [OF this q _ _ mu _ sel _ m, of buf lsr site code stk] obtain s1 s2 s3 h r l where
    run: "run_frame buf lsr (task_init site ?i code stk name ?s1) = Some s1" "run_frame buf lsr s1 = Some s2"
      "run_frame buf lsr s2 = Some s3"
    and s3: "s3 = ?s1\<lparr>gdt_table := tss_entry 0x18 ?i (gdt_table ?s1), nodes := h, ready_list := r, task_list := l, kmem := m,
        mutexes := (mutexes ?s1)(gdt_mutex := (mutexes ?s1 gdt_mutex)\<lparr>locked_count := 0, mowner := NULL\<rparr>),
        tasks := (tasks ?s1)(?i := new_task ?s1 0x18 ?i code stk)\<rparr>"
    and q3: "qrep {?i} s3 ((a_ready (idle_task ?s1) ?i (\<lambda>_. []))(Q_all := [?i]))" and ok3: "tss_ok {?i} s3"
    by (auto simp: tss_ok_def)
  let ?k = "s3\<lparr>kstack := [], curr_task := NULL\<rparr>"
  have "run_frame buf lsr s3 = Some ?k"
    using c by (simp add: run_frame_def s3 push_frame_def task_manager_end_def)
  with run have "runs buf lsr (task_manager_init site code stk name s) ?k"
    unfolding task_manager_init_def Let_def
    by (simp add: push_frame_def) (meson runs_step runs_refl)
  moreover have "prepared ?k"
  proof -
    have "cold ?k" using c by (simp add: cold_def s3 push_frame_def)
    moreover have "qrep {?i} ?k ((\<lambda>_. [])(Q_all := [?i]))"
      using qrep_cong [OF q3, of ?k] by (simp add: a_ready_def push_frame_def)
    moreover have "tss_ok {?i} ?k" using ok3 tss_ok_cong [of ?k s3 "{?i}"] by simp
    moreover have "idle_task ?k = ?i" by (simp add: s3 push_frame_def)
    moreover have "gdt_scan 1 (gdt_table ?k) = 0x20" by (simp add: s3 push_frame_def gdt second_scan)
    moreover have "tasks ?k ?i = new_task ?s1 0x18 ?i code stk" by (simp add: s3)
    ultimately show ?thesis unfolding prepared_def by (simp add: new_task_def fresh_task_def start_tss_flags)
  qed
  moreover have "idle_task ?k = ?i \<and> first_task ?k = first_task s \<and> eflags ?k = eflags s \<and> cr0 ?k = cr0 s \<and>
      ports ?k = ports s \<and> outs ?k = outs s \<and> gdtr ?k = gdtr s \<and> idtr ?k = idtr s \<and>
      idt_table ?k = idt_table s \<and> tss (tasks ?k ?i) = start_tss code stk \<and>
      kernel_strncpy (?i + off_name) name TASK_NAME_SIZE (kmem s) = Some (kmem ?k)"
    using m by (simp add: s3 push_frame_def new_task_def fresh_task_def)
  ultimately show ?thesis by blast
qed

text \<open>
  What is assumed of \<open>creat_kernel_tables\<close>: it changes nothing but the page directory register and memory,
  and memory only at \<open>K\<close>.
\<close>

definition tables_in :: "addr set \<Rightarrow> (mst \<Rightarrow> mst) \<Rightarrow> bool" where
  "tables_in K creat_kernel_tables \<longleftrightarrow>
    (\<forall>x. \<exists>m c. ks (creat_kernel_tables x) = (ks x)\<lparr>kmem := m, cr3 := c\<rparr> \<and> (\<forall>a. a \<notin> K \<longrightarrow> m a = kmem (ks x) a))"

definition tables_only :: "(mst \<Rightarrow> mst) \<Rightarrow> bool" where
  "tables_only creat_kernel_tables \<longleftrightarrow>
    (\<forall>x. \<exists>m c. ks (creat_kernel_tables x) = (ks x)\<lparr>kmem := m, cr3 := c\<rparr>)"

lemma tables_only_in: "tables_only creat_kernel_tables \<Longrightarrow> tables_in UNIV creat_kernel_tables"
  by (simp add: tables_only_def tables_in_def)

text \<open>Memory that \<open>kernel_init\<close> writes, next to the name of the idle task.\<close>

definition init_writes :: "(addr \<Rightarrow> addr) \<Rightarrow> image \<Rightarrow> boot_info_t \<Rightarrow> addr set \<Rightarrow> addr set" where
  "init_writes buf im boot_info K = K \<union> bitmap_at (free_at im) boot_info \<union> span (buf NULL) 128"

text \<open>
  The kernel after \<open>kernel_init\<close>, when the page tables were made in the state \<open>x\<close>, started in \<open>s\<close> and ended
  in \<open>s0\<close>.
\<close>

definition came_up :: "image \<Rightarrow> (mst \<Rightarrow> mst) \<Rightarrow> boot_info_t \<Rightarrow> mst \<Rightarrow> mst \<Rightarrow> mst \<Rightarrow> bool" where
  "came_up im creat_kernel_tables boot_info s x s0 \<longleftrightarrow> (let k = ks s0 in
    fresh_allocator (free_at im) boot_info x \<and> s0 = (creat_kernel_tables x)\<lparr>ks := k\<rparr> \<and>
    prepared k \<and> tss (tasks k (idle_task k)) = start_tss (idle_code im) (idle_stack_end im) \<and>
    outs k = outs (ks s) @ to_com1 (lines_of (mem_lines boot_info)) @ com1_setup @ pic_setup @ timer_setup \<and>
    ports k PIC0_IMR = 0xFA \<and> all_vectors (entry_of im) (idt_table k) \<and>
    gdtr k = make_dtr (gdt_at im) (256 * 8) \<and> idtr k = make_dtr (idt_at im) (128 * 8) \<and>
    eflags k = eflags (ks s) \<and> cr0 k = cr0 (ks s))"

lemma kernel_init_effect:
  assumes cold: "cold (ks s)" and idle: "task_space {idle_task (ks s)}"
    and mem: "free_at im \<noteq> NULL" "unat (free_at im) < 2 ^ 20" "2 ^ 20 \<le> unat (total_mem_size boot_info)"
      "length (valid_regions boot_info) \<le> 2 ^ 31"
    and fits: "unat (free_at im) + (free_pages boot_info + 7) div 8 < 0x80000" and tables: "tables_in K creat_kernel_tables"
    and dev: "\<exists>k. lsr k AND 0x20 \<noteq> 0" and buf: "buffer_ok (buf NULL)"
  shows "\<exists>s0 x m. kernel_init buf lsr im creat_kernel_tables boot_info s = Some (Done s0) \<and>
    came_up im creat_kernel_tables boot_info s x s0 \<and>
    idle_task (ks s0) = idle_task (ks s) \<and> first_task (ks s0) = first_task (ks s) \<and>
    kernel_strncpy (idle_task (ks s) + off_name) (idle_name im) TASK_NAME_SIZE m = Some (kmem (ks s0)) \<and>
    (\<forall>a. a \<notin> init_writes buf im boot_info K \<longrightarrow> m a = kmem (ks s) a)"
proof -
  let ?s1 = "s\<lparr>ks := cpu_init (gdt_at im) (ks s)\<rparr>"
  have c: "curr_task (ks ?s1) = NULL" "kmem (ks ?s1) = kmem (ks s)" "outs (ks ?s1) = outs (ks s)"
    using cold by (simp_all add: cold_def cpu_init_def init_gdt_def lgdt_def mutex_init_def)
  have "can_print buf lsr (ks ?s1)"
    using cold dev buf by (auto simp: can_print_def cold_def cpu_init_def init_gdt_def lgdt_def mutex_init_def log_quiet_def
        list_init_def list_count_def)
  from memory_init_effect [where buf = buf, OF mem this, of creat_kernel_tables] fits obtain x m1 p1 where
    1: "memory_init buf lsr creat_kernel_tables (free_at im) boot_info ?s1 = Some (Done (creat_kernel_tables x))"
    "ks x = (mutex_init paddr_mutex (cpu_init (gdt_at im) (ks s)))\<lparr>ports := p1,
      outs := outs (ks s) @ to_com1 (lines_of (mem_lines boot_info)), kmem := m1\<rparr>"
    and fresh: "fresh_allocator (free_at im) boot_info x"
    and m1: "\<forall>a. a \<notin> bitmap_at (free_at im) boot_info \<union> span (buf NULL) 128 \<longrightarrow> m1 a = kmem (ks s) a"
    unfolding c ram_def by auto
  let ?k2 = "ks (creat_kernel_tables x)"
  from tables obtain m2 c2 where K: "?k2 = (ks x)\<lparr>kmem := m2, cr3 := c2\<rparr>" "\<forall>a. a \<notin> K \<longrightarrow> m2 a = kmem (ks x) a"
    unfolding tables_in_def by blast
  have frame: "m2 a = kmem (ks s) a" if "a \<notin> init_writes buf im boot_info K" for a
    using that K(2) m1 by (simp add: 1(2) init_writes_def del: span.simps)
  obtain t p where 3: "time_init (entry_of im) (irq_init (entry_of im) (idt_at im) (log_init ?k2)) =
      Some ((mutex_init log_mutex ?k2)\<lparr>sys_tick := 0, idt_table := t, idtr := make_dtr (idt_at im) (128 * 8), ports := p,
        outs := outs ?k2 @ com1_setup @ pic_setup @ timer_setup\<rparr>)" (is "_ = Some ?k5")
    and p: "p PIC0_IMR = 0xFA" "all_vectors (entry_of im) t" using devices by blast
  have f: "idle_task ?k5 = idle_task (ks s)" "first_task ?k5 = first_task (ks s)" "eflags ?k5 = eflags (ks s)"
    "cr0 ?k5 = cr0 (ks s)" "ports ?k5 = p" "idt_table ?k5 = t" "kmem ?k5 = m2" "idtr ?k5 = make_dtr (idt_at im) (128 * 8)"
    "gdtr ?k5 = make_dtr (gdt_at im) (256 * 8)"
    "outs ?k5 = outs (ks s) @ to_com1 (lines_of (mem_lines boot_info)) @ com1_setup @ pic_setup @ timer_setup"
    by (simp_all add: K(1) 1(2) mutex_init_def cpu_init_def init_gdt_def lgdt_def GDT_TABLE_SIZE_def sizeof_segment_desc_t_def)
  have k5: "cold ?k5" "task_space {idle_task ?k5}" "gdt_table ?k5 = init_gdt_table (gdt_table (ks s))"
    using cold idle by (simp_all add: K(1) 1(2) cold_def mutex_init_def cpu_init_def init_gdt_def lgdt_def)
  from task_manager_init_effect [where buf = buf and lsr = lsr and site = "task_init_site im" and code = "idle_code im"
      and stk = "idle_stack_end im" and name = "idle_name im", OF k5]
  obtain k where run: "runs buf lsr (task_manager_init (task_init_site im) (idle_code im) (idle_stack_end im) (idle_name im) ?k5) k"
    and k: "prepared k" "idle_task k = idle_task ?k5" "first_task k = first_task ?k5" "eflags k = eflags ?k5" "cr0 k = cr0 ?k5"
      "ports k = ports ?k5" "outs k = outs ?k5" "gdtr k = gdtr ?k5" "idtr k = idtr ?k5" "idt_table k = idt_table ?k5"
      "tss (tasks k (idle_task ?k5)) = start_tss (idle_code im) (idle_stack_end im)"
      "kernel_strncpy (idle_task ?k5 + off_name) (idle_name im) TASK_NAME_SIZE (kmem ?k5) = Some (kmem k)" by blast
  have "kstack k = []" using k(1) by (simp add: prepared_def cold_def)
  from finish_runs [OF run this]
  have "kernel_init buf lsr im creat_kernel_tables boot_info s = Some (Done ((creat_kernel_tables x)\<lparr>ks := k\<rparr>))"
    unfolding kernel_init_def Let_def 1(1) by (simp add: 3)
  moreover have "came_up im creat_kernel_tables boot_info s x ((creat_kernel_tables x)\<lparr>ks := k\<rparr>)"
    using fresh k p unfolding f by (simp add: came_up_def Let_def)
  ultimately show ?thesis
    using k(2,3,12) frame unfolding f
    by (intro exI [of _ "(creat_kernel_tables x)\<lparr>ks := k\<rparr>"] exI [of _ x] exI [of _ m2]) simp
qed


definition boot_image :: image where
  "boot_image = \<lparr>gdt_at = 0xA000, idt_at = 0xB000, entry_of = (\<lambda>e. if e = exc_time then 0x10200 else 0x10100),
     free_at = 0x20000, idle_code = 0x10300, idle_stack_end = 0xC000, task_init_site = (0, 38, 0, 0),
     idle_name = 0x9030, first_name = 0x9020, version_str = 0x9000, author_str = 0x9010\<rparr>"

definition cold_state :: kst where
  "cold_state = empty_state\<lparr>curr_task := NULL\<rparr>"

lemma cold_state_facts:
  "cold cold_state" "idle_task cold_state = idle0" "first_task cold_state = task1" "kstack cold_state = []"
  "curr_task cold_state = NULL"
  by (simp_all add: cold_def cold_state_def empty_state_def)

lemma two_space: "task_space {idle0, task1}"
  by (simp add: task_space_def sizeof_task_t_def)


section \<open>The first task\<close>

lemma main_denotes:
  assumes "arg_is m (span b 128) (VPtr (version_str im)) (SStr (tx ''1.0.0''))"
    and "arg_is m (span b 128) (VPtr (author_str im)) (SStr (tx ''shabi''))"
  shows "list_all2 (denotes m b) (main_calls im)
    [tx ''kernel is running...'', tx ''version 1.0.0 shabi'', tx ''-123456 123456 12345 c'']"
proof -
  note ev = tx_def conv_text.simps itoa_text_def rdigits.simps dchar_def numchar_def
  have "denotes m b (map of_char ''kernel is running...'', []) (tx ''kernel is running...'')"
    by (rule denotesI [of _ "[]"]) (simp_all add: ev)
  moreover have "denotes m b (map of_char ''version %s %s'', [VPtr (version_str im), VPtr (author_str im)])
      (tx ''version 1.0.0 shabi'')"
    by (rule denotesI [of _ "[SStr (tx ''1.0.0''), SStr (tx ''shabi'')]"])
      (use assms in \<open>simp_all add: tx_def conv_text.simps\<close>)
  moreover have "denotes m b (map of_char ''%d %d %x %c'', [VInt (- 123456), VInt 123456, VInt 0x12345, VInt (of_char CHR ''c'')])
      (tx ''-123456 123456 12345 c'')"
    by (rule denotesI [of _ "[SInt (- 123456), SInt 123456, SInt 0x12345, SInt (of_char CHR ''c'')]"])
      (simp_all add: ev)
  ultimately show ?thesis unfolding main_calls_def by simp
qed

lemma first_denotes: "denotes m b (first_fmt, [VInt 10]) (tx ''first_task_init slice_ticks: 10'')"
  unfolding first_fmt_def
  by (rule denotesI [of _ "[SInt 10]"])
    (simp_all add: tx_def conv_text.simps itoa_text_def rdigits.simps dchar_def numchar_def)

text \<open>A kernel whose only two tasks are the idle task and the running one, with nothing locked.\<close>

lemma two_tasks_inv:
  assumes "task_space {idle_task k, t}" and "idle_task k \<noteq> t" and "curr_task k = t" and "kstack k = []" and "\<forall>u. saved k u = []"
    and "qrep {idle_task k, t} k ((\<lambda>_. [])(Q_ready := [t], Q_all := [idle_task k, t]))" and "tss_ok {idle_task k, t} k"
    and "tr k = word_of_int (tss_sel (tasks k t))"
    and "\<forall>m. mowner (mutexes k m) = NULL \<and> locked_count (mutexes k m) = 0" and "\<forall>j. scount (sems k j) = 0"
  shows "kernel_inv {idle_task k, t} k ((\<lambda>_. [])(Q_ready := [t], Q_all := [idle_task k, t]))"
proof -
  let ?a = "(\<lambda>_. [])(Q_ready := [t], Q_all := [idle_task k, t]) :: queues"
  have c: "core k u = []" for u using assms(4,5) by (simp add: core_def stack_of_def)
  have "tr_ok k" using assms(3,7,8) by (simp add: tr_ok_def tss_ok_def)
  then have "sched_inv {idle_task k, t} k ?a"
    using assms by (auto simp: sched_inv_def sched_pre_def a_next_def off_kind_run_iff off_kind_wait_iff)
  moreover have "sync_ok k ?a"
    using assms(9,10) by (simp add: sync_ok_def mutex_ok_def alock_ok_def alock_of_def asem_ok_def asem_of_def)
  moreover have "log_ok (core k) (alock_of k ?a log_mutex)"
    using assms(9) by (simp add: log_ok_def c alock_of_def)
  ultimately show ?thesis using assms(9) by (simp add: kernel_inv_def clean_def c owner_ready_def)
qed

lemma cold_log_quiet: "cold s \<Longrightarrow> log_quiet s"
  by (simp add: cold_def log_quiet_def list_init_def list_count_def)

text \<open>\<open>task_first_init\<close> on a prepared kernel, up to its message.\<close>

lemma task_first_init_effect:
  assumes prep: "prepared s" and T: "task_space {idle_task s, first_task s}" and ne: "idle_task s \<noteq> first_task s"
  shows "\<exists>k. runs buf lsr (task_first_init site name s) (push_frame (F_printf first_fmt [VInt 10]) (push_frame F_first_end k)) \<and>
    cold k \<and> outs k = outs s \<and> idle_task k = idle_task s \<and> first_task k = first_task s \<and>
    qrep {idle_task s, first_task s} k ((\<lambda>_. [])(Q_ready := [first_task s], Q_all := [idle_task s, first_task s])) \<and>
    tss_ok {idle_task s, first_task s} k \<and> tr k = word_of_int (tss_sel (tasks k (first_task s))) \<and>
    tss (tasks k (first_task s)) = start_tss 0 0 \<and> cr0 k = cr0 s \<and>
    tasks k (idle_task s) = tasks s (idle_task s) \<and>
    kernel_strncpy (first_task s + off_name) name TASK_NAME_SIZE (kmem s) = Some (kmem k)"
proof -
  let ?i = "idle_task s" and ?t = "first_task s" and ?s1 = "push_frame F_first_rest s"
  let ?a = "(\<lambda>_. [])(Q_all := [?i]) :: queues"
  note P = prep [unfolded prepared_def]
  have c: "\<And>m. mutexes s m = \<lparr>mowner = NULL, locked_count = 0, mwait_list = list_init\<rparr>" "kstack s = []"
    using P by (simp_all add: cold_def)
  have q: "qrep {?i} ?s1 ?a" using qrep_cong [of "{?i}" s ?a ?s1] P by simp
  have ok: "tss_ok {?i} ?s1" using tss_ok_cong [of ?s1 s "{?i}"] P by simp
  obtain m where m: "kernel_strncpy (?t + off_name) name TASK_NAME_SIZE (kmem ?s1) = Some m"
    using kernel_strncpy_total [of "?t + off_name" name 32 "kmem ?s1"] by (auto simp: TASK_NAME_SIZE_def)
  have sel: "gdt_scan 1 (gdt_table ?s1) = 0x20" using P by simp
  have mu: "locked_count (mutexes ?s1 gdt_mutex) = 0" using c by simp
  have T': "task_space (insert ?t {?i})" using T by (simp add: insert_commute)
  from task_init_effect [OF T' q _ ok mu _ sel _ m, of buf lsr site 0 0] ne obtain s1 s2 s3 h r l where
    run: "run_frame buf lsr (task_init site ?t 0 0 name ?s1) = Some s1" "run_frame buf lsr s1 = Some s2"
      "run_frame buf lsr s2 = Some s3"
    and s3: "s3 = ?s1\<lparr>gdt_table := tss_entry 0x20 ?t (gdt_table ?s1), nodes := h, ready_list := r, task_list := l, kmem := m,
        mutexes := (mutexes ?s1)(gdt_mutex := (mutexes ?s1 gdt_mutex)\<lparr>locked_count := 0, mowner := NULL\<rparr>),
        tasks := (tasks ?s1)(?t := new_task ?s1 0x20 ?t 0 0)\<rparr>"
    and q3: "qrep {?t, ?i} s3 ((\<lambda>_. [])(Q_ready := [?t], Q_all := [?i, ?t]))" and ok3: "tss_ok {?t, ?i} s3"
    by (auto simp: a_ready_def fun_upd_twist)
  let ?k = "write_tr 0x20 (s3\<lparr>kstack := []\<rparr>)"
  have "run_frame buf lsr s3 = Some (push_frame (F_printf first_fmt [VInt 10]) (push_frame F_first_end ?k))"
    using c by (simp add: run_frame_def s3 push_frame_def task_first_rest_def Let_def new_task_def fresh_task_def
        TASK_TIME_SLICE_DEFAULT_def write_tr_def)
  with run have "runs buf lsr (task_first_init site name s) (push_frame (F_printf first_fmt [VInt 10]) (push_frame F_first_end ?k))"
    unfolding task_first_init_def by (meson runs_step runs_refl)
  moreover have "cold ?k" using P by (simp add: cold_def s3 push_frame_def write_tr_def)
  moreover have "qrep {?i, ?t} ?k ((\<lambda>_. [])(Q_ready := [?t], Q_all := [?i, ?t]))"
    using qrep_cong [OF q3, of ?k] by (simp add: write_tr_def insert_commute)
  moreover have "tss_ok {?i, ?t} ?k" using ok3 tss_ok_cong [of ?k s3 "{?i, ?t}"] by (simp add: write_tr_def insert_commute)
  moreover have "outs ?k = outs s \<and> idle_task ?k = ?i \<and> first_task ?k = ?t \<and> tr ?k = word_of_int (tss_sel (tasks ?k ?t)) \<and>
      tss (tasks ?k ?t) = start_tss 0 0 \<and> cr0 ?k = cr0 s \<and> tasks ?k ?i = tasks s ?i"
    using ne by (simp add: s3 push_frame_def write_tr_def new_task_def fresh_task_def)
  moreover have "kernel_strncpy (?t + off_name) name TASK_NAME_SIZE (kmem s) = Some (kmem ?k)"
    using m by (simp add: s3 push_frame_def write_tr_def)
  ultimately show ?thesis by blast
qed

text \<open>The first task has the processor, nothing is pending, and the idle task is as it was.\<close>

definition handed_over :: "kst \<Rightarrow> kst \<Rightarrow> bool" where
  "handed_over s k \<longleftrightarrow> curr_task k = first_task s \<and> kstack k = [] \<and> (\<forall>t. saved k t = []) \<and> log_quiet k \<and>
    idle_task k = idle_task s \<and> first_task k = first_task s \<and> tasks k (idle_task s) = tasks s (idle_task s) \<and>
    tss (tasks k (first_task s)) = start_tss 0 0 \<and> cr0 k = cr0 s \<and>
    kernel_inv {idle_task s, first_task s} k
      ((\<lambda>_. [])(Q_ready := [first_task s], Q_all := [idle_task s, first_task s]))"

lemma task_first_init_runs:
  assumes "prepared s" and T: "task_space {idle_task s, first_task s}" "idle_task s \<noteq> first_task s"
    and dev: "\<exists>k. lsr k AND 0x20 \<noteq> 0" and buf: "buffer_ok (buf NULL)"
  shows "\<exists>k m. runs buf lsr (task_first_init site name s) k \<and> handed_over s k \<and> cr3 k = 0 \<and>
    kernel_strncpy (first_task s + off_name) name TASK_NAME_SIZE (kmem s) = Some m \<and>
    (\<forall>a. a \<notin> span (buf NULL) 128 \<longrightarrow> kmem k a = m a) \<and>
    outs k = outs s @ to_com1 (lines_of [tx ''first_task_init slice_ticks: 10''])"
proof -
  let ?i = "idle_task s" and ?t = "first_task s" and ?msg = "tx ''first_task_init slice_ticks: 10''"
  from task_first_init_effect [OF assms(1-3), of buf lsr site name]
  obtain k where r3: "runs buf lsr (task_first_init site name s)
      (push_frame (F_printf first_fmt [VInt 10]) (push_frame F_first_end k))" (is "runs _ _ _ ?s3")
    and k: "cold k" "outs k = outs s" "idle_task k = ?i" "first_task k = ?t"
      "qrep {?i, ?t} k ((\<lambda>_. [])(Q_ready := [?t], Q_all := [?i, ?t]))" "tss_ok {?i, ?t} k"
      "tr k = word_of_int (tss_sel (tasks k ?t))" "tss (tasks k ?t) = start_tss 0 0" "tasks k ?i = tasks s ?i" "cr0 k = cr0 s"
      "kernel_strncpy (?t + off_name) name TASK_NAME_SIZE (kmem s) = Some (kmem k)" by auto
  note c = k(1) [unfolded cold_def]
  have s3: "kstack ?s3 = [F_printf first_fmt [VInt 10], F_first_end]" "curr_task ?s3 = NULL" "log_quiet ?s3"
    using c cold_log_quiet [OF k(1)] by (simp_all add: push_frame_def log_quiet_def)
  have "printable (kmem ?s3) (buf (curr_task ?s3)) first_fmt [VInt 10] ?msg"
    using first_denotes [of "kmem ?s3" "buf (curr_task ?s3)"] by (auto simp: denotes_def printable_def tx_def)
  from run_printf [where buf = buf, OF dev s3(1,3) this] buf s3(2) obtain m' where
    r4: "runs buf lsr ?s3 (said ?msg (?s3\<lparr>kstack := [F_first_end], kmem := m'\<rparr>))" (is "runs _ _ _ ?s4")
    and m': "\<forall>a. a \<notin> span (buf NULL) 128 \<longrightarrow> m' a = kmem k a" by auto
  let ?k = "(said ?msg (k\<lparr>kstack := [], kmem := m'\<rparr>))\<lparr>curr_task := ?t, cr3 := 0\<rparr>"
  have "run_frame buf lsr ?s4 = Some ?k"
    using k(4,8) by (simp add: run_frame_def said_def push_frame_def task_first_end_def Let_def mmu_set_page_dir_def
        write_cr3_def start_tss_def zero_tss_def)
  then have "runs buf lsr (task_first_init site name s) ?k" using r3 r4 by (meson runs_step runs_trans runs_refl)
  moreover have "kernel_inv {?i, ?t} ?k ((\<lambda>_. [])(Q_ready := [?t], Q_all := [?i, ?t]))"
    using two_tasks_inv [of ?k ?t] T c k(3,5-7) qrep_cong [OF k(5), of ?k] tss_ok_cong [of ?k k "{?i, ?t}"]
    by (simp add: said_def)
  then have "handed_over s ?k"
    using c k(3,4,8-10) cold_log_quiet [OF k(1)] by (simp add: handed_over_def said_def log_quiet_def)
  ultimately show ?thesis using k(2,11) m'
    by (intro exI [of _ ?k] exI [of _ "kmem k"]) (simp add: said_def lines_of_def)
qed

lemma init_main_effect:
  assumes prep: "prepared s" and T: "task_space {idle_task s, first_task s}" "idle_task s \<noteq> first_task s"
    and dev: "\<exists>k. lsr k AND 0x20 \<noteq> 0" and buf: "buffer_ok (buf NULL)"
    and lits: "arg_is (kmem s) (span (buf NULL) 128) (VPtr (version_str im)) (SStr (tx ''1.0.0''))"
      "arg_is (kmem s) (span (buf NULL) 128) (VPtr (author_str im)) (SStr (tx ''shabi''))"
  shows "\<exists>k m m'. runs buf lsr (init_main im s) k \<and> handed_over s k \<and> cr3 k = 0 \<and>
    (\<forall>a. a \<notin> span (buf NULL) 128 \<longrightarrow> m a = kmem s a) \<and>
    kernel_strncpy (first_task s + off_name) (first_name im) TASK_NAME_SIZE m = Some m' \<and>
    (\<forall>a. a \<notin> span (buf NULL) 128 \<longrightarrow> kmem k a = m' a) \<and>
    outs k = outs s @ to_com1 (lines_of [tx ''kernel is running...'', tx ''version 1.0.0 shabi'',
      tx ''-123456 123456 12345 c'', tx ''first_task_init slice_ticks: 10''])"
proof -
  let ?i = "idle_task s" and ?t = "first_task s" and ?F = "F_first_init (task_init_site im) (first_name im)"
  let ?msgs = "[tx ''kernel is running...'', tx ''version 1.0.0 shabi'', tx ''-123456 123456 12345 c'']"
  have cold: "cold s" and ks: "kstack s = []" "curr_task s = NULL" using prep by (simp_all add: prepared_def cold_def)
  let ?s0 = "init_main im s"
  have s0: "kstack ?s0 = map (\<lambda>(fmt, args). F_printf fmt args) (main_calls im) @ [?F]" "curr_task ?s0 = NULL"
    "kmem ?s0 = kmem s" "outs ?s0 = outs s" "log_quiet ?s0"
    using cold_log_quiet [OF cold] ks by (simp_all add: init_main_def push_calls_def push_frame_def log_quiet_def)
  have "list_all2 (\<lambda>(fmt, args) t. printable (kmem ?s0) (buf (curr_task ?s0)) fmt args t) (main_calls im) ?msgs"
    by (rule denotes_printable) (use main_denotes [OF lits] s0 in \<open>auto simp: tx_def\<close>)
  from run_printfs [where buf = buf, OF dev _ s0(1,5) this] buf s0 obtain p m where
    "runs buf lsr ?s0 (?s0\<lparr>kstack := [?F], ports := p, outs := outs s @ to_com1 (lines_of ?msgs), kmem := m\<rparr>)"
    and m: "\<forall>a. a \<notin> span (buf NULL) 128 \<longrightarrow> m a = kmem s a" by auto
  then have r1: "runs buf lsr ?s0 (s\<lparr>kstack := [?F], ports := p, outs := outs s @ to_com1 (lines_of ?msgs), kmem := m\<rparr>)"
      (is "runs _ _ _ ?s1")
    by (simp add: init_main_def push_calls_def push_frame_def)
  let ?s2 = "s\<lparr>ports := p, outs := outs s @ to_com1 (lines_of ?msgs), kmem := m, kstack := []\<rparr>"
  have r2: "run_frame buf lsr ?s1 = Some (task_first_init (task_init_site im) (first_name im) ?s2)"
    by (simp add: run_frame_def)
  have p2: "prepared ?s2"
    using prep qrep_cong [of "{?i}" s _ ?s2] tss_ok_cong [of ?s2 s "{?i}"] by (simp add: prepared_def cold_def)
  have same: "idle_task ?s2 = ?i" "first_task ?s2 = ?t" "outs ?s2 = outs s @ to_com1 (lines_of ?msgs)" "kmem ?s2 = m" by simp_all
  from task_first_init_runs [where buf = buf and site = "task_init_site im" and name = "first_name im", OF p2 _ _ dev buf,
      unfolded same, OF T] obtain k m' where
    r3: "runs buf lsr (task_first_init (task_init_site im) (first_name im) ?s2) k"
    and k: "handed_over ?s2 k" "cr3 k = 0" "kernel_strncpy (?t + off_name) (first_name im) TASK_NAME_SIZE m = Some m'"
      "\<forall>a. a \<notin> span (buf NULL) 128 \<longrightarrow> kmem k a = m' a"
      "outs k = (outs s @ to_com1 (lines_of ?msgs)) @ to_com1 (lines_of [tx ''first_task_init slice_ticks: 10''])" by blast
  have "runs buf lsr ?s0 k" using r1 r2 r3 by (meson runs_step runs_trans)
  moreover have "outs k = outs s @ to_com1 (lines_of (?msgs @ [tx ''first_task_init slice_ticks: 10'']))"
    unfolding k(5) by (simp add: lines_of_def to_com1_def)
  moreover have "handed_over s k" using k(1) by (simp add: handed_over_def)
  ultimately show ?thesis using k(2-4) m by auto
qed

text \<open>
  C17: \<open>init_main\<close> starts the first task.  On the kernel that \<open>kernel_init\<close> left, with a serial port that
  becomes ready, it prints its three messages and that of \<open>task_first_init\<close>, and ends with the first task
  running and the only ready one; the state satisfies the kernel invariant, and so does every state
  that the tasks, their calls and the timer can reach from there.  The page directory that is loaded is the one of the new segment, zero.
\<close>

theorem init_main_starts_first_task:
  assumes prep: "prepared s" and T: "task_space {idle_task s, first_task s}" "idle_task s \<noteq> first_task s"
    and dev: "\<exists>k. lsr k AND 0x20 \<noteq> 0" and buf: "buffer_ok (buf NULL)"
    and lits: "arg_is (kmem s) (span (buf NULL) 128) (VPtr (version_str im)) (SStr (tx ''1.0.0''))"
      "arg_is (kmem s) (span (buf NULL) 128) (VPtr (author_str im)) (SStr (tx ''shabi''))"
  shows "\<exists>k. runs buf lsr (init_main im s) k \<and> curr_task k = first_task s \<and> kstack k = [] \<and> cr3 k = 0 \<and>
    kernel_inv {idle_task s, first_task s} k
      ((\<lambda>_. [])(Q_ready := [first_task s], Q_all := [idle_task s, first_task s])) \<and>
    (\<forall>s'. rtranclp (kstep buf) k s' \<longrightarrow> (\<exists>a. kernel_inv {idle_task s, first_task s} s' a)) \<and>
    outs k = outs s @ to_com1 (lines_of [tx ''kernel is running...'', tx ''version 1.0.0 shabi'',
      tx ''-123456 123456 12345 c'', tx ''first_task_init slice_ticks: 10''])"
proof -
  from init_main_effect [where buf = buf, OF assms] obtain k where
    k: "runs buf lsr (init_main im s) k" "handed_over s k" "cr3 k = 0"
      "outs k = outs s @ to_com1 (lines_of [tx ''kernel is running...'', tx ''version 1.0.0 shabi'',
        tx ''-123456 123456 12345 c'', tx ''first_task_init slice_ticks: 10''])" by blast
  note H = k(2) [unfolded handed_over_def]
  have "\<forall>s'. rtranclp (kstep buf) k s' \<longrightarrow> (\<exists>a. kernel_inv {idle_task s, first_task s} s' a)"
    using inv_reachable H by blast
  with H k show ?thesis by blast
qed

definition sample_strings :: mem where
  "sample_strings = write_bytes 0x1010 (tx ''idle task'' @ [0]) (write_bytes 0x9020 (tx ''first task'' @ [0])
    (write_bytes 0x9000 (tx ''1.0.0'' @ [0]) (write_bytes 0x9010 (tx ''shabi'' @ [0]) (\<lambda>_. 0))))"

lemma sample_cstrings:
  "cstring sample_strings 0x9000 (tx ''1.0.0'')" "cstring sample_strings 0x9010 (tx ''shabi'')"
  "cstring sample_strings 0x9020 (tx ''first task'')" "cstring sample_strings 0x1010 (tx ''idle task'')"
  by (simp_all add: sample_strings_def cstring_def tx_def)

definition sample_prepared :: kst where
  "sample_prepared =
    (let (l, h) = list_insert_last (task_list cold_state) (all_node idle0) (nodes cold_state)
     in cold_state\<lparr>task_list := l, nodes := h, gdt_table := tss_entry 0x18 idle0 (init_gdt_table sample_gdt),
          tasks := (tasks cold_state)(idle0 := (tasks cold_state idle0)\<lparr>time_ticks := 10, slice_ticks := 10, tss := start_tss 0 0, tss_sel := 0x18\<rparr>),
          kmem := sample_strings\<rparr>)"

lemma sample_prepared_ok: "prepared sample_prepared"
proof -
  obtain l h where ins: "list_insert_last (list_of cold_state Q_all) (node_of Q_all idle0) (nodes cold_state) = (l, h)"
    by (cases "list_insert_last (list_of cold_state Q_all) (node_of Q_all idle0) (nodes cold_state)")
  have f: "idle_task sample_prepared = idle0" "cold sample_prepared"
    "gdt_table sample_prepared = tss_entry 0x18 idle0 (init_gdt_table sample_gdt)"
    "tss_sel (tasks sample_prepared idle0) = 0x18" "nodes sample_prepared = h"
    "list_of sample_prepared = (list_of cold_state)(Q_all := l)"
    using ins cold_state_facts by (simp_all add: sample_prepared_def cold_def)
  have g: "time_ticks (tasks sample_prepared idle0) = 10" "slice_ticks (tasks sample_prepared idle0) = 10"
    "tss (tasks sample_prepared idle0) = start_tss 0 0" by (simp_all add: sample_prepared_def split: prod.split)
  have "qrep {idle0} cold_state (\<lambda>_. [])"
    by (rule empty_qrep) (simp_all add: cold_state_def empty_state_def)
  moreover have "task_space {idle0}" using two_space by (simp add: task_space_def)
  ultimately have "qrep {idle0} sample_prepared ((\<lambda>_. [])(Q_all := [idle0]))"
    using qrep_insert [OF _ _ _ _ ins, of "{idle0}" "\<lambda>_. []" sample_prepared] f by (simp add: off_kind_def)
  moreover have "tss_ok {idle0} sample_prepared"
    by (simp add: tss_ok_def f tss_desc_def tss_task_def tss_entry_def segment_desc_set_def tss_desc_made)
  ultimately show ?thesis by (simp add: prepared_def f g second_scan TASK_TIME_SLICE_DEFAULT_def start_tss_flags)
qed

theorem init_main_starts_first_task_witness:
  "\<exists>k. runs (\<lambda>_. 0x8000) (\<lambda>_. 0x20) (init_main boot_image sample_prepared) k \<and> curr_task k = task1 \<and>
     (\<exists>a. kernel_inv {idle0, task1} k a)"
proof -
  let ?m = "kmem sample_prepared"
  have f: "idle_task sample_prepared = idle0" "first_task sample_prepared = task1"
    using cold_state_facts by (simp_all add: sample_prepared_def split: prod.split)
  have km: "?m = sample_strings" by (simp add: sample_prepared_def split: prod.split)
  have d: "span 0x8000 128 \<inter> span 0x9000 6 = {}" "span 0x8000 128 \<inter> span 0x9010 6 = {}"
    using span_of_nat_disjoint [where x = "0x8000" and n = 128 and y = "0x9000" and m = 6]
      span_of_nat_disjoint [where x = "0x8000" and n = 128 and y = "0x9010" and m = 6] by (simp_all del: span.simps)
  have len: "Suc (length (tx ''1.0.0'')) = 6" "Suc (length (tx ''shabi'')) = 6" by (simp_all add: tx_def)
  have "arg_is ?m (span 0x8000 128) (VPtr 0x9000) (SStr (tx ''1.0.0''))"
    "arg_is ?m (span 0x8000 128) (VPtr 0x9010) (SStr (tx ''shabi''))"
    unfolding arg_is.simps len km using d sample_cstrings by (auto simp del: span.simps)
  moreover have "buffer_ok 0x8000" by (simp add: buffer_ok_def)
  ultimately show ?thesis
    using init_main_starts_first_task [OF sample_prepared_ok, of "\<lambda>_. 0x20" "\<lambda>_. 0x8000" boot_image] two_space
    unfolding f by (auto simp: boot_image_def)
qed

end
