(* ===== verification/Ticks.thy ===== *)
theory Ticks
  imports Kernel_Run
begin

text \<open>
  Timer interrupts that find the running task in its own code and are handled to the end: the time
  slices of \<open>task_time_tick\<close>, and what appears on the serial line.
\<close>

section \<open>The serial line\<close>

definition serial :: "kst \<Rightarrow> uint8_t list" where
  "serial s = map snd (filter (\<lambda>x. fst x = COM1_PORT) (outs s))"

lemma serial_com1 [simp]: "map snd (filter (\<lambda>x. fst x = COM1_PORT) (to_com1 xs)) = xs"
  by (induction xs) (simp_all add: to_com1_def)

lemma serial_said [simp]: "serial (said msg s) = serial s @ lines_of [msg]"
  by (simp add: serial_def said_def lines_of_def)

lemma serial_outb: "p \<noteq> COM1_PORT \<Longrightarrow> serial (outb p c s) = serial s"
  by (simp add: serial_def outb_def)

lemma serial_cong: "outs s' = outs s \<Longrightarrow> serial s' = serial s"
  by (simp add: serial_def)

lemma serial_frame [simp]:
  "serial (upd_task t g s) = serial s" "serial (push_frame x s) = serial s" "serial (task_dispatch s) = serial s"
  "serial (s\<lparr>kstack := k\<rparr>) = serial s" "serial (s\<lparr>kmem := m\<rparr>) = serial s" "serial (s\<lparr>eflags := e\<rparr>) = serial s"
  by (simp_all add: serial_def)

section \<open>Ticks\<close>

text \<open>The state in which \<open>task_time_tick\<close> has counted the slice of the running task down.\<close>

definition ticked :: "kst \<Rightarrow> kst" where
  "ticked s = upd_task (curr_task s) (\<lambda>t. t\<lparr>slice_ticks := slice_ticks t - 1\<rparr>)
    (pic_send_eoi IRQ0_TIMER ((cli (push_frame (F_iret (eflags s)) s))\<lparr>sys_tick := sys_tick s + 1\<rparr>))"

lemma timer_interrupt_ticked:
  "timer_interrupt s =
    (if slice_ticks (tasks s (curr_task s)) = 1
     then Some (push_frame (F_log slice_end_msg) (push_frame (F_tick_slice (curr_task s)) (ticked s)))
     else task_time_tick_sleep (ticked s))"
  by (simp add: timer_interrupt_def do_handler_time_def task_time_tick_def Let_def ticked_def task_current_def
      pic_send_eoi_def outb_def cli_def push_frame_def)

lemma ticked_frame [simp]:
  "idle_task (ticked s) = idle_task s" "first_task (ticked s) = first_task s" "curr_task (ticked s) = curr_task s"
  "mutexes (ticked s) = mutexes s" "saved (ticked s) = saved s" "kmem (ticked s) = kmem s"
  "kstack (ticked s) = F_iret (eflags s) # kstack s" "serial (ticked s) = serial s" "gdt_table (ticked s) = gdt_table s"
  "tr (ticked s) = tr s" "nodes (ticked s) = nodes s" "list_of (ticked s) = list_of s"
  "tasks (ticked s) = (tasks s)(curr_task s := (tasks s (curr_task s))\<lparr>slice_ticks := slice_ticks (tasks s (curr_task s)) - 1\<rparr>)"
  by (simp_all add: ticked_def pic_send_eoi_def IRQ0_TIMER_def IRQ_PIC_START_def outb_def serial_def PIC0_OCW2_def COM1_PORT_def)

lemma sched_inv_ticked [simp]: "sched_inv T s a \<Longrightarrow> sched_inv T (ticked s) a"
  using sched_pre_cong [of T s a "ticked s"] by (simp add: sched_inv_def)

lemma iret_step:
  assumes "kstack s = [F_iret fl]"
  shows "runs buf lsr s (s\<lparr>kstack := [], eflags := fl\<rparr>)"
  using assms by (intro runs_step [OF _ runs_refl]) (simp add: run_frame_def write_eflags_def)

text \<open>An interrupt that is taken, and a stretch of the code that it triggers.\<close>

definition tick_runs :: "(addr \<Rightarrow> addr) \<Rightarrow> (nat \<Rightarrow> uint8_t) \<Rightarrow> kst \<Rightarrow> kst \<Rightarrow> bool" where
  "tick_runs buf lsr s s' \<longleftrightarrow> if_set s \<and> (\<exists>s0. timer_interrupt s = Some s0 \<and> runs buf lsr s0 s')"

section \<open>Preemption\<close>

text \<open>
  A tick within the slice: the task goes on, and tasks whose sleep ends join the ready queue behind it.
\<close>

lemma tick_within_slice:
  assumes inv: "sched_inv T s a" and q: "a Q_ready = c # ts" and s: "kstack s = []" "if_set s" "slice_ticks (tasks s c) \<noteq> 1"
  shows "\<exists>s' a' ws. tick_runs buf lsr s s' \<and> sched_inv T s' a' \<and> a' Q_ready = c # ts @ ws \<and> set (a Q_sleep) = set ws \<union> set (a' Q_sleep) \<and>
    kstack s' = [] \<and> eflags s' = eflags s \<and> mutexes s' = mutexes s \<and> saved s' = saved s \<and> serial s' = serial s \<and> idle_task s' = idle_task s \<and>
    slice_ticks (tasks s' c) = slice_ticks (tasks s c) - 1 \<and> (\<forall>t. time_ticks (tasks s' t) = time_ticks (tasks s t) \<and> tss (tasks s' t) = tss (tasks s t)) \<and>
    (\<forall>t \<in> set (a Q_sleep). sleep_ticks (tasks s' t) = sleep_ticks (tasks s t) - 1 \<and>
      (if sleep_ticks (tasks s t) = 1 then t \<in> set ws else t \<in> set (a' Q_sleep)))"
proof -
  have cur: "curr_task s = c" using sched_invD(2) [OF inv] q by (simp add: a_next_def)
  have "c \<notin> set (a Q_sleep)" using qrep_disjoint [OF sched_preD(2) [OF sched_invD(1) [OF inv]], of Q_ready Q_sleep c] q by simp
  note c = this
  from task_time_tick_sleep_spec [OF sched_invD(1) [OF sched_inv_ticked [OF inv]]] obtain s2 where
    s2: "task_time_tick_sleep (ticked s) = Some (task_dispatch s2)" "sched_pre T s2 (a_tick (ticked s) [] (a Q_sleep) a)"
      "same_context (ticked s) s2"
      "tasks s2 = (\<lambda>t. if t \<in> set (a Q_sleep) then tick_task (tasks (ticked s) t) else tasks (ticked s) t)" by blast
  let ?a = "a_tick (ticked s) [] (a Q_sleep) a"
  let ?ws = "filter (due (ticked s)) (a Q_sleep)"
  have rq: "?a Q_ready = c # ts @ ?ws" "set (a Q_sleep) = set ?ws \<union> set (?a Q_sleep)" using q by (auto simp: a_tick_def)
  have c2: "curr_task s2 = c" "kstack s2 = [F_iret (eflags s)]" "idle_task s2 = idle_task s" "mutexes s2 = mutexes s"
    "saved s2 = saved s" "serial s2 = serial s"
    using s2(3) cur s(1) serial_cong [of s2 "ticked s"] by (simp_all add: same_context_def)
  have "task_next_run s2 = curr_task s2"
    using task_next_run_rep [OF sched_preD(1,2) [OF s2(2)]] rq(1) c2(1) by (simp add: a_next_def)
  then have "timer_interrupt s = Some s2" using s2(1) s(3) cur by (simp add: timer_interrupt_ticked task_dispatch_stay)
  with iret_step [OF c2(2), of buf lsr] s(2) have "tick_runs buf lsr s (s2\<lparr>kstack := [], eflags := eflags s\<rparr>)" (is "tick_runs _ _ _ ?s'")
    unfolding tick_runs_def by blast
  moreover have "sched_inv T ?s' ?a" using s2(2) rq(1) c2(1) by (simp add: sched_inv_def a_next_def)
  moreover have "time_ticks (tasks ?s' t) = time_ticks (tasks s t) \<and> tss (tasks ?s' t) = tss (tasks s t)" for t
    by (simp add: s2(4) tick_task_def cur)
  moreover have "\<forall>t \<in> set (a Q_sleep). sleep_ticks (tasks ?s' t) = sleep_ticks (tasks s t) - 1 \<and>
      (if sleep_ticks (tasks s t) = 1 then t \<in> set ?ws else t \<in> set (?a Q_sleep))"
    using c by (auto simp: s2(4) tick_task_def cur due_def a_tick_def)
  ultimately show ?thesis
    using rq(1) c2 c s2(4) cur
    by (intro exI [of _ ?s'] exI [of _ ?a] exI [of _ ?ws] conjI allI) (rule rq(2) | assumption | simp)+
qed

section \<open>Sleeping tasks\<close>

text \<open>
  C12: a sleeping task wakes up with the timer.  While the running task computes in its own code and its
  slice lasts longer than the \<open>n\<close> ticks that a sleeping task has left, the timer interrupts: after fewer
  than \<open>n\<close> interrupts, each handled to its end, the sleeping task is still on the sleep queue, and after
  the \<open>n\<close>-th it is on the ready queue and no longer asleep; the running task goes on in its own code.
  (The interrupt that ends a slice does not count for sleeping tasks before the preempted task runs
  again; see \<open>tick_ends_slice\<close>.)
\<close>

theorem sleeper_wakes:
  assumes "sched_inv T s a" and "a Q_ready = c # ts" and "kstack s = []" and "if_set s"
    and "t \<in> set (a Q_sleep)" and "sleep_ticks (tasks s t) = int n" and "int n < slice_ticks (tasks s c)"
    and "0 < k" and "k \<le> n"
  shows "\<exists>s' a'. (tick_runs buf lsr ^^ k) s s' \<and> sched_inv T s' a' \<and> curr_task s' = c \<and> kstack s' = [] \<and> if_set s' \<and>
    (if k = n then t \<in> set (a' Q_ready) \<and> t \<notin> set (a' Q_sleep) else t \<in> set (a' Q_sleep) \<and> t \<notin> set (a' Q_ready))"
  using assms
proof (induction k arbitrary: s a ts n)
  case (Suc k)
  have "slice_ticks (tasks s c) \<noteq> 1" using Suc.prems(7-9) by simp
  from tick_within_slice [where buf = buf and lsr = lsr, OF Suc.prems(1-4) this] obtain s1 a1 ws where
    1: "tick_runs buf lsr s s1" and s1: "sched_inv T s1 a1" "a1 Q_ready = c # ts @ ws" "kstack s1 = []" "eflags s1 = eflags s"
      "slice_ticks (tasks s1 c) = slice_ticks (tasks s c) - 1"
      "\<forall>t \<in> set (a Q_sleep). sleep_ticks (tasks s1 t) = sleep_ticks (tasks s t) - 1 \<and>
        (if sleep_ticks (tasks s t) = 1 then t \<in> set ws else t \<in> set (a1 Q_sleep))" by blast
  have if1: "if_set s1" using Suc.prems(4) s1(4) by (simp add: if_set_def)
  have cur: "curr_task s1 = c" using sched_invD(2) [OF s1(1)] s1(2) by (simp add: a_next_def)
  have dis: "\<not> (t \<in> set (a1 Q_ready) \<and> t \<in> set (a1 Q_sleep))"
    using qrep_disjoint [OF sched_preD(2) [OF sched_invD(1) [OF s1(1)]], of Q_ready Q_sleep t] by auto
  have t1: "sleep_ticks (tasks s1 t) = int n - 1" "if n = 1 then t \<in> set ws else t \<in> set (a1 Q_sleep)"
    using s1(6) Suc.prems(5,6) by auto
  show ?case
  proof (cases "k = 0")
    case True
    have "if n = 1 then t \<in> set (a1 Q_ready) \<and> t \<notin> set (a1 Q_sleep) else t \<in> set (a1 Q_sleep) \<and> t \<notin> set (a1 Q_ready)"
      using t1(2) s1(2) dis by auto
    moreover have "(tick_runs buf lsr ^^ Suc k) s s1" using True 1 by auto
    moreover have n: "Suc k = n \<longleftrightarrow> n = 1" using True by auto
    ultimately show ?thesis
      unfolding n using s1(1,3) cur if1 by (intro exI [of _ s1] exI [of _ a1] conjI)
  next
    case False
    then have n: "n \<noteq> 1" "1 \<le> n" "k \<le> n - 1" using Suc.prems(9) by auto
    have "t \<in> set (a1 Q_sleep)" using t1(2) n(1) by simp
    note sleeping = this
    have "sleep_ticks (tasks s1 t) = int (n - 1)" "int (n - 1) < slice_ticks (tasks s1 c)" "0 < k"
      using t1(1) n(2) s1(5) Suc.prems(7) False by (simp_all add: of_nat_diff)
    from Suc.IH [OF s1(1,2,3) if1 sleeping this n(3)] obtain s' a' where
      "(tick_runs buf lsr ^^ k) s1 s'" and r: "sched_inv T s' a'" "curr_task s' = c" "kstack s' = []" "if_set s'"
        "if k = n - 1 then t \<in> set (a' Q_ready) \<and> t \<notin> set (a' Q_sleep) else t \<in> set (a' Q_sleep) \<and> t \<notin> set (a' Q_ready)" by blast
    then have "(tick_runs buf lsr ^^ Suc k) s s'" using relpowp_Suc_I2 [of "tick_runs buf lsr", OF 1] by blast
    moreover have k: "Suc k = n \<longleftrightarrow> k = n - 1" using n(3) False by auto
    ultimately show ?thesis unfolding k using r by (intro exI [of _ s'] exI [of _ a'] conjI)
  qed
qed simp

theorem sleeper_wakes_witness:
  "\<exists>s' a'. tick_runs id (\<lambda>_. 0x20) sample_state s' \<and> sched_inv sample_tasks s' a' \<and> curr_task s' = task1 \<and>
     task3 \<in> set (a' Q_ready) \<and> task3 \<notin> set (a' Q_sleep)"
proof -
  have on: "if_set sample_state" by (simp add: if_set_def sample_context)
  have "task3 \<in> set (sample_queues Q_sleep)" "sleep_ticks (tasks sample_state task3) = int 1"
    "int 1 < slice_ticks (tasks sample_state task1)" by (simp_all add: sample_task_fields)
  from sleeper_wakes [OF sample_inv sample_queues_simps(1) sample_context(1) on this, of 1 id "\<lambda>_. 0x20"]
  show ?thesis by auto
qed

section \<open>The end of a slice\<close>

text \<open>The tick that ends the slice.\<close>

lemma tick_ends_slice:
  assumes dev: "\<exists>k. lsr k AND 0x20 \<noteq> 0" and inv: "sched_inv T s a" and q: "a Q_ready = c # d # ts"
    and s: "if_set s" "slice_ticks (tasks s c) = 1" "log_ours s"
  shows "\<exists>s'. tick_runs buf lsr s s' \<and> sched_inv T s' (a(Q_ready := d # ts @ [c])) \<and> curr_task s' = d \<and>
    mutexes s' = mutexes s \<and> kstack s' = saved s d \<and> eflags s' = tss_eflags (tss (tasks s d)) \<and> slice_ticks (tasks s' c) = time_ticks (tasks s c) \<and>
    (\<exists>e. saved s' c = F_log_dispatch d # F_leave e # F_tick_sleep # F_iret (eflags s) # kstack s) \<and>
    (\<forall>t. sleep_ticks (tasks s' t) = sleep_ticks (tasks s t)) \<and> serial s' = serial s @ lines_of [slice_end_msg]"
proof -
  have cur: "curr_task s = c" using sched_invD(2) [OF inv] q by (simp add: a_next_def)
  have ni: "c \<noteq> idle_task s" using sched_preD(5) [OF sched_invD(1) [OF inv]] q by (auto simp: off_kind_run_iff)
  have cd: "c \<noteq> d" using qrep_distinct [OF sched_preD(2) [OF sched_invD(1) [OF inv]], of Q_ready] q by auto
  let ?s0 = "push_frame (F_log slice_end_msg) (push_frame (F_tick_slice c) (ticked s))"
  have 0: "timer_interrupt s = Some ?s0" using s(2) cur by (simp add: timer_interrupt_ticked)
  let ?x = "said slice_end_msg (ticked s)"
  have 1: "runs buf lsr ?s0 (said slice_end_msg (?s0\<lparr>kstack := F_tick_slice c # kstack (ticked s)\<rparr>))" (is "runs _ _ _ ?s1")
    by (rule run_message [OF dev]) (use s(3) in \<open>simp_all add: log_ours_def log_quiet_def\<close>)
  have 2: "run_frame buf lsr ?s1 = Some (task_time_tick_slice c ?x)"
    by (simp add: run_frame_def said_def push_frame_def del: ticked_frame)
  have "sched_inv T ?x a"
    using sched_pre_cong [OF sched_invD(1) [OF inv], of ?x] sched_invD(2) [OF inv] by (simp add: sched_inv_def)
  note x = this
  let ?y = "push_frame F_tick_sleep (task_set_ready c (task_set_block c (upd_task c (\<lambda>t. t\<lparr>slice_ticks := time_ticks t\<rparr>) ?x)))"
  let ?a = "a(Q_ready := d # ts @ [c])"
  have eq: "task_time_tick_slice c ?x = task_dispatch ?y" by (simp add: task_time_tick_slice_def Let_def)
  have "sched_pre T (upd_task c (\<lambda>t. t\<lparr>slice_ticks := time_ticks t\<rparr>) ?x) a"
    by (rule sched_pre_upd_task [OF sched_invD(1) [OF x]]) simp
  from requeue_pre [OF this, of c] have pre: "sched_pre T ?y ?a"
    using sched_preD(4) [OF sched_invD(1) [OF inv]] a_rotate_ready [where a = a, OF ni q] q cur by simp
  note P = sched_preD [OF pre]
  have new: "a_next (idle_task ?y) ?a = d" "d \<noteq> curr_task ?y" using cd cur by (simp_all add: a_next_def)
  note sw = task_dispatch_switch [OF P(1,2,8,9,3,4), unfolded new, OF new(2)]
  have "tick_runs buf lsr s (task_dispatch ?y)"
    unfolding tick_runs_def using s(1) 0 runs_trans [OF 1 runs_step [OF 2 runs_refl]] eq by metis
  moreover have "serial (task_dispatch ?y) = serial ?x" using serial_cong [of "task_dispatch ?y" ?x] by simp
  ultimately show ?thesis
    using task_dispatch_inv [OF pre] task_dispatch_curr [OF P(1,2)] new cd cur ni
    by (intro exI [of _ "task_dispatch ?y"]) (simp add: sw set_state_def)
qed

text \<open>
  C14: preemption by time slices.  While the running task computes in its own code and others are ready,
  every timer interrupt takes one tick off its slice and changes nothing else but the sleeping tasks;
  the interrupt that takes the last one announces the end of the slice, refills it, moves the task
  behind all ready ones and resumes the next task where it had been switched away.  That last tick does
  not count for sleeping tasks until the preempted task runs again, since the walk over the sleep list
  is left on its stack.
\<close>

theorem time_slice_preempts:
  assumes dev: "\<exists>k. lsr k AND 0x20 \<noteq> 0" and "sched_inv T s a" and "a Q_ready = c # d # ts"
    and "kstack s = []" and "if_set s" and "log_quiet s" and "slice_ticks (tasks s c) = int (Suc n)"
  shows "\<exists>s1 s2 a' ws. (tick_runs buf lsr ^^ n) s s1 \<and> curr_task s1 = c \<and> kstack s1 = [] \<and> slice_ticks (tasks s1 c) = 1 \<and>
    tick_runs buf lsr s1 s2 \<and> sched_inv T s2 a' \<and> curr_task s2 = d \<and> a' Q_ready = d # ts @ ws @ [c] \<and> set ws \<subseteq> set (a Q_sleep) \<and>
    slice_ticks (tasks s2 c) = time_ticks (tasks s c) \<and> kstack s2 = saved s d \<and> eflags s2 = tss_eflags (tss (tasks s d)) \<and>
    (\<exists>e. saved s2 c = [F_log_dispatch d, F_leave e, F_tick_sleep, F_iret (eflags s)]) \<and>
    (\<forall>t. sleep_ticks (tasks s2 t) = sleep_ticks (tasks s1 t)) \<and> serial s2 = serial s @ lines_of [slice_end_msg]"
  using assms(2-)
proof (induction n arbitrary: s a ts)
  case 0
  have "log_ours s" using 0(5) by (simp add: log_ours_def)
  from tick_ends_slice [where buf = buf, OF dev 0(1,2,4) _ this] 0(3,6) obtain s' where
    s': "tick_runs buf lsr s s'" "sched_inv T s' (a(Q_ready := d # ts @ [c]))" "curr_task s' = d" "kstack s' = saved s d"
      "eflags s' = tss_eflags (tss (tasks s d))" "slice_ticks (tasks s' c) = time_ticks (tasks s c)"
      "\<exists>e. saved s' c = [F_log_dispatch d, F_leave e, F_tick_sleep, F_iret (eflags s)]"
      "\<forall>t. sleep_ticks (tasks s' t) = sleep_ticks (tasks s t)" "serial s' = serial s @ lines_of [slice_end_msg]" by auto
  moreover have "curr_task s = c" using sched_invD(2) [OF 0(1)] 0(2) by (simp add: a_next_def)
  ultimately show ?case
    by - (rule exI [of _ s], rule exI [of _ s'], rule exI [of _ "a(Q_ready := d # ts @ [c])"], rule exI [of _ "[]"],
      use 0 in \<open>simp add: fun_upd_def\<close>)
next
  case (Suc n)
  then have "slice_ticks (tasks s c) \<noteq> 1" by simp
  from tick_within_slice [where buf = buf and lsr = lsr, OF Suc.prems(1,2,3,4) this] obtain s' a' ws where
    1: "tick_runs buf lsr s s'" and s': "sched_inv T s' a'" "a' Q_ready = c # d # ts @ ws" "set (a Q_sleep) = set ws \<union> set (a' Q_sleep)"
      "kstack s' = []" "eflags s' = eflags s" "mutexes s' = mutexes s" "saved s' = saved s" "serial s' = serial s"
      "slice_ticks (tasks s' c) = int (Suc n)" "time_ticks (tasks s' c) = time_ticks (tasks s c)" "tss (tasks s' d) = tss (tasks s d)"
    using Suc.prems(6) by auto
  have "if_set s'" "log_quiet s'" using Suc.prems(4,5) s'(5,6) log_quiet_cong [of s' s] by (simp_all add: if_set_def)
  from Suc.IH [OF s'(1,2,4) this s'(9)] obtain s1 s2 a2 us where
    "(tick_runs buf lsr ^^ n) s' s1" "curr_task s1 = c" "kstack s1 = []" "slice_ticks (tasks s1 c) = 1" "tick_runs buf lsr s1 s2"
    "sched_inv T s2 a2" "curr_task s2 = d" "a2 Q_ready = d # (ts @ ws) @ us @ [c]" "set us \<subseteq> set (a' Q_sleep)"
    "slice_ticks (tasks s2 c) = time_ticks (tasks s' c)" "kstack s2 = saved s' d" "eflags s2 = tss_eflags (tss (tasks s' d))"
    "\<exists>e. saved s2 c = [F_log_dispatch d, F_leave e, F_tick_sleep, F_iret (eflags s')]"
    "\<forall>t. sleep_ticks (tasks s2 t) = sleep_ticks (tasks s1 t)" "serial s2 = serial s' @ lines_of [slice_end_msg]" by blast
  moreover have "(tick_runs buf lsr ^^ Suc n) s s1" using relpowp_Suc_I2 [of "tick_runs buf lsr", OF 1] calculation(1) by blast
  ultimately show ?case
    by - (rule exI [of _ s1], rule exI [of _ s2], rule exI [of _ a2], rule exI [of _ "ws @ us"], use s' in auto)
qed

theorem time_slice_preempts_witness:
  "\<exists>s1 s2. (tick_runs id (\<lambda>_. 0x20) ^^ 9) sample_state s1 \<and> curr_task s1 = task1 \<and>
     tick_runs id (\<lambda>_. 0x20) s1 s2 \<and> curr_task s2 = task2 \<and> serial s2 = serial sample_state @ lines_of [slice_end_msg]"
proof -
  have "log_quiet sample_state"
    by (simp add: log_quiet_def sample_state_def add_sem_waiter_def add_mutex_waiter_def Let_def sample_ready_def
        sample_held_def empty_state_def list_count_def list_init_def split: prod.split)
  moreover have "if_set sample_state" by (simp add: if_set_def sample_context)
  moreover have "slice_ticks (tasks sample_state task1) = int (Suc 9)" by (simp add: sample_task_fields)
  ultimately show ?thesis
    using time_slice_preempts [OF _ sample_inv sample_queues_simps(1) sample_context(1), of "\<lambda>_. 0x20" 9 id] by auto
qed

text \<open>
  C15: the end of a slice tears a message.  When the slice ends while the running task is writing a message,
  the report of the slice's end appears in the middle of that message: the task owns the log's mutex
  already, so the interrupt handler, which runs as the same task, does not wait for it.  The task is
  then switched away with the rest \<open>cs\<close> of its message still to write and the mutex still its own.
\<close>

theorem slice_end_tears_message:
  assumes "\<exists>k. lsr k AND 0x20 \<noteq> 0" and "sched_inv T s a" and "a Q_ready = c # d # ts" and "if_set s"
    and "slice_ticks (tasks s c) = 1" and "kstack s = F_log_body cs # fs"
    and "mowner (mutexes s log_mutex) = c" and "0 < locked_count (mutexes s log_mutex)"
  shows "\<exists>s' a' e. tick_runs buf lsr s s' \<and> sched_inv T s' a' \<and> serial s' = serial s @ lines_of [slice_end_msg] \<and> curr_task s' = d \<and>
    saved s' c = [F_log_dispatch d, F_leave e, F_tick_sleep, F_iret (eflags s), F_log_body cs] @ fs \<and>
    mowner (mutexes s' log_mutex) = c \<and> locked_count (mutexes s' log_mutex) = locked_count (mutexes s log_mutex)"
proof -
  have "curr_task s = c" using sched_invD(2) [OF assms(2)] assms(3) by (simp add: a_next_def)
  then have "log_ours s" using assms(7,8) by (simp add: log_ours_def)
  from tick_ends_slice [where buf = buf, OF assms(1-5) this] assms(6,7) show ?thesis by fastforce
qed

definition sample_writing :: kst where
  "sample_writing = upd_task task1 (\<lambda>t. t\<lparr>slice_ticks := 1\<rparr>)
    (upd_mutex log_mutex (\<lambda>x. x\<lparr>locked_count := 1, mowner := task1\<rparr>) (push_frame (F_log_body [72, 105, 13, 10]) sample_state))"

lemma sample_writing_inv: "sched_inv sample_tasks sample_writing sample_queues"
proof -
  let ?s = "push_frame (F_log_body [72, 105, 13, 10]) sample_state"
  have "sched_inv sample_tasks ?s sample_queues"
    using sched_pre_cong [OF sched_invD(1) [OF sample_inv], of ?s] sched_invD(2) [OF sample_inv] by (simp add: sched_inv_def)
  then have "sched_inv sample_tasks (upd_mutex log_mutex (\<lambda>x. x\<lparr>locked_count := 1, mowner := task1\<rparr>)
      ?s) sample_queues" by (rule sched_inv_upd_mutex) simp
  then show ?thesis
    unfolding sample_writing_def using sched_pre_upd_task [of sample_tasks _ sample_queues "\<lambda>t. t\<lparr>slice_ticks := 1\<rparr>" task1]
    by (simp add: sched_inv_def)
qed

theorem slice_end_tears_message_witness:
  "\<exists>s' e. tick_runs id (\<lambda>_. 0x20) sample_writing s' \<and> serial s' = serial sample_writing @ lines_of [slice_end_msg] \<and>
     saved s' task1 = [F_log_dispatch task2, F_leave e, F_tick_sleep, F_iret (eflags sample_writing), F_log_body [72, 105, 13, 10]] \<and>
     mowner (mutexes s' log_mutex) = task1"
proof -
  have "if_set sample_writing" "slice_ticks (tasks sample_writing task1) = 1" "kstack sample_writing = F_log_body [72, 105, 13, 10] # []"
    "mowner (mutexes sample_writing log_mutex) = task1" "0 < locked_count (mutexes sample_writing log_mutex)"
    by (simp_all add: sample_writing_def if_set_def sample_context upd_mutex_def)
  from slice_end_tears_message [OF _ sample_writing_inv sample_queues_simps(1) this, of "\<lambda>_. 0x20" id] show ?thesis by auto
qed

end
