(* ===== verification/First_Task.thy ===== *)
theory First_Task
  imports Boot Exceptions Ticks
begin

text \<open>
  The tasks' own code: \<open>first_task_main\<close> (\<open>init/first_task.c\<close>), \<open>init_task_entry\<close> (\<open>init/init.c\<close>) and
  \<open>idle_task_entry\<close> (\<open>core/task.c\<close>), and what they do when tasks run them.  Nothing in the sources starts
  the first two.
\<close>

section \<open>Operations\<close>

definition hello_fmt :: "uint8_t list" where
  "hello_fmt = map of_char ''Hello, world!'' @ [10]"

text \<open>The two statements in the loop of \<open>first_task_main\<close>; the result tells which one is next.\<close>

datatype main_pc = at_print | at_sleep

fun first_task_main :: "main_pc \<Rightarrow> kst \<Rightarrow> main_pc \<times> kst" where
  "first_task_main at_print s = (at_sleep, push_frame (F_printf hello_fmt []) s)"
| "first_task_main at_sleep s = (at_print, sys_sleep 1000 s)"

text \<open>
  \<open>idle_task_entry\<close> executes \<open>hlt\<close> again and again: nothing happens until an interrupt arrives, and
  with interrupts disabled nothing ever does.
\<close>

definition idle_task_entry :: "kst \<Rightarrow> kst option" where
  "idle_task_entry s = hlt timer_interrupt s"

text \<open>
  Two tasks: \<open>t\<close> runs \<open>first_task_main\<close>, and the idle task runs its code.  Which task it is, and that it
  gets there, is not settled here.
\<close>

definition two_tasks :: "addr \<Rightarrow> main_pc \<Rightarrow> kst \<Rightarrow> (main_pc \<times> kst) option" where
  "two_tasks t pc s =
    (if curr_task s = t then Some (first_task_main pc s)
     else if curr_task s = idle_task s then map_option (Pair pc) (idle_task_entry s)
     else None)"

text \<open>
  The loop of \<open>init_task_entry\<close>, with the value of \<open>count\<close>; incrementing the largest integer is undefined.
\<close>

definition init_fmt :: "uint8_t list" where
  "init_fmt = map of_char ''init task:%d''"

definition init_task_entry :: "int \<Rightarrow> kst \<Rightarrow> (int \<times> kst) option" where
  "init_task_entry count s =
    (if count = 2 ^ 31 - 1 then None else Some (count + 1, push_frame (F_printf init_fmt [VInt count]) s))"

section \<open>Runs of tasks\<close>

text \<open>
  Pending kernel code comes first; then the running task continues with its own code.  The addresses in a
  state are physical ones, and the segments of the tasks have the page directory zero: the step is
  defined only while paging is off.
\<close>

definition flat :: "kst \<Rightarrow> bool" where
  "flat s \<longleftrightarrow> \<not> bit (cr0 s) 31"

fun task_step :: "('c \<Rightarrow> kst \<Rightarrow> ('c \<times> kst) option) \<Rightarrow> (addr \<Rightarrow> addr) \<Rightarrow> (nat \<Rightarrow> uint8_t) \<Rightarrow> 'c \<times> kst \<Rightarrow> ('c \<times> kst) option" where
  "task_step code buf lsr (c, s) =
    (if \<not> flat s then None
     else if kstack s \<noteq> [] then map_option (Pair c) (run_frame buf lsr s) else code c s)"

declare task_step.simps [simp del]

definition task_runs :: "('c \<Rightarrow> kst \<Rightarrow> ('c \<times> kst) option) \<Rightarrow> (addr \<Rightarrow> addr) \<Rightarrow> (nat \<Rightarrow> uint8_t) \<Rightarrow> 'c \<times> kst \<Rightarrow> 'c \<times> kst \<Rightarrow> bool" where
  "task_runs code buf lsr = rtranclp (\<lambda>x y. task_step code buf lsr x = Some y)"

abbreviation "two_runs t \<equiv> task_runs (two_tasks t)"

lemma task_runs_refl [simp]: "task_runs code buf lsr x x"
  by (simp add: task_runs_def)

lemma task_runs_step: "task_step code buf lsr x = Some y \<Longrightarrow> task_runs code buf lsr y z \<Longrightarrow> task_runs code buf lsr x z"
  unfolding task_runs_def by (rule converse_rtranclp_into_rtranclp)

lemma task_runs_trans: "task_runs code buf lsr x y \<Longrightarrow> task_runs code buf lsr y z \<Longrightarrow> task_runs code buf lsr x z"
  unfolding task_runs_def by (rule rtranclp_trans)

lemma cr0_said [simp]: "cr0 (said msg s) = cr0 s"
  by (simp add: said_def)

lemma flat_cong: "cr0 s' = cr0 s \<Longrightarrow> flat s' = flat s"
  by (simp add: flat_def)

lemma runs_task: "runs buf lsr s s' \<Longrightarrow> flat s \<Longrightarrow> task_runs code buf lsr (c, s) (c, s')"
  unfolding runs_def
proof (induction rule: converse_rtranclp_induct)
  case (step s t)
  then have "flat t" using run_frame_cr0 [OF step.hyps(1)] flat_cong by blast
  then show ?case
    using run_frame_pending [OF step.hyps(1)] step by (intro task_runs_step [OF _ step.IH]) (simp_all add: task_step.simps)
qed simp

lemma two_tasks_cr0: "two_tasks t pc s = Some (pc', s') \<Longrightarrow> cr0 s' = cr0 s"
  by (cases pc) (auto simp: two_tasks_def sys_sleep_def idle_task_entry_def Let_def dest: cr0_timer split: if_splits)

lemma two_runs_flat: "two_runs t buf lsr x y \<Longrightarrow> flat (snd x) \<Longrightarrow> flat (snd y)"
  unfolding task_runs_def
proof (induction rule: rtranclp_induct)
  case (step y z)
  then have "cr0 (snd z) = cr0 (snd y)"
    by (cases y; cases z) (auto simp: task_step.simps dest: run_frame_cr0 two_tasks_cr0 split: if_splits)
  with step show ?case using flat_cong by blast
qed

section \<open>Counting\<close>

definition count_line :: "int \<Rightarrow> uint8_t list" where
  "count_line n = tx ''init task:'' @ itoa_text n 10"

lemma count_printable:
  assumes "\<bar>n\<bar> \<le> 2 ^ 31"
  shows "printable m b init_fmt [VInt n] (count_line n)"
proof (rule printableI [of _ "[SInt n]"])
  show "length (count_line n) < 128" using length_itoa_text(1) [OF assms] by (simp add: count_line_def tx_def)
  show "0 \<notin> set (count_line n)" using itoa_text_no_zero [of 10 n] by (auto simp: count_line_def tx_def)
qed (simp_all add: init_fmt_def count_line_def tx_def conv_text.simps)

text \<open>
  \<open>init_task_entry\<close>, left alone at the log, counts: its \<open>n\<close>-th message ends with the number \<open>n\<close>, up to the
  largest integer.
\<close>

theorem init_task_counts:
  assumes dev: "\<exists>k. lsr k AND 0x20 \<noteq> 0" and "log_quiet s" and "buffer_ok (buf (curr_task s))" and "kstack s = []"
    and "n < 2 ^ 31" and "flat s"
  shows "\<exists>s'. task_runs init_task_entry buf lsr (0, s) (int n, s') \<and> log_quiet s' \<and> curr_task s' = curr_task s \<and>
    kstack s' = [] \<and> flat s' \<and> serial s' = serial s @ lines_of (map (\<lambda>k. count_line (int k)) [0..<n])"
  using assms(5)
proof (induction n)
  case 0
  then show ?case using assms(2,4,6) by (intro exI [of _ s]) (simp add: lines_of_def)
next
  case (Suc n)
  then obtain s1 where s1: "task_runs init_task_entry buf lsr (0, s) (int n, s1)" "log_quiet s1"
    "curr_task s1 = curr_task s" "kstack s1 = []" "flat s1" "serial s1 = serial s @ lines_of (map (\<lambda>k. count_line (int k)) [0..<n])" by auto
  let ?s2 = "push_frame (F_printf init_fmt [VInt (int n)]) s1"
  have "int n \<noteq> 2 ^ 31 - 1" "\<bar>int n\<bar> \<le> 2 ^ 31" using Suc.prems by simp_all
  then have 2: "task_step init_task_entry buf lsr (int n, s1) = Some (int (Suc n), ?s2)"
    and p: "printable (kmem ?s2) (buf (curr_task ?s2)) init_fmt [VInt (int n)] (count_line (int n))"
    using s1(4,5) count_printable by (simp_all add: task_step.simps init_task_entry_def)
  from run_printf [where buf = buf, OF dev _ _ p] s1 assms(3) log_quiet_cong [of ?s2 s1] obtain m where
    3: "runs buf lsr ?s2 (said (count_line (int n)) (?s2\<lparr>kstack := [], kmem := m\<rparr>))" (is "runs _ _ _ ?s3") by auto
  have "task_runs init_task_entry buf lsr (0, s) (int (Suc n), ?s3)"
    using task_runs_trans [OF s1(1) task_runs_step [OF 2 runs_task [OF 3]]] s1(5) flat_cong [of ?s2 s1] by simp
  then show ?case using s1 log_quiet_cong [of ?s3 s1] flat_cong [of ?s3 s1] by (intro exI [of _ ?s3]) simp
qed

section \<open>The two tasks\<close>

text \<open>The names of the tasks, stored outside the message buffers on the tasks' stacks.\<close>

definition buffers :: "(addr \<Rightarrow> addr) \<Rightarrow> addr \<Rightarrow> addr \<Rightarrow> addr set" where
  "buffers buf i f = span (buf i) 128 \<union> span (buf f) 128"

definition named :: "(addr \<Rightarrow> addr) \<Rightarrow> addr \<Rightarrow> addr \<Rightarrow> mem \<Rightarrow> bool" where
  "named buf i f m \<longleftrightarrow> buffer_ok (buf i) \<and> buffer_ok (buf f) \<and>
    arg_is m (buffers buf i f) (VPtr (i + off_name)) (SStr (tx ''idle task'')) \<and>
    arg_is m (buffers buf i f) (VPtr (f + off_name)) (SStr (tx ''first task''))"

lemma named_change:
  assumes "named buf i f m" and "\<And>a. a \<notin> span (buf t) 128 \<Longrightarrow> m' a = m a" and "t = i \<or> t = f"
  shows "named buf i f m'"
proof -
  have "m' a = m a" if "a \<notin> buffers buf i f" for a using that assms(2,3) by (auto simp: buffers_def)
  with assms(1) arg_is_change [of m "buffers buf i f" _ _ m' "buffers buf i f"] show ?thesis
    by (simp add: named_def del: arg_is.simps)
qed

definition task_title :: "addr \<Rightarrow> addr \<Rightarrow> uint8_t list" where
  "task_title i t = (if t = i then tx ''idle task'' else tx ''first task'')"

definition dispatch_line :: "uint8_t list \<Rightarrow> uint8_t list" where
  "dispatch_line name = tx ''Dispatching task: '' @ name"

lemma dispatch_printable:
  assumes "named buf i f m" and "t = i \<or> t = f" and "u = i \<or> u = f"
  shows "printable m (buf u) dispatch_fmt [VPtr (t + off_name)] (dispatch_line (task_title i t))"
proof (rule printableI [of _ "[SStr (task_title i t)]"])
  have "arg_is m (buffers buf i f) (VPtr (t + off_name)) (SStr (task_title i t))"
    using assms(1,2) by (auto simp: named_def task_title_def simp del: arg_is.simps)
  moreover have "span (buf u) 128 \<subseteq> buffers buf i f" using assms(3) by (auto simp: buffers_def)
  ultimately show "list_all2 (arg_is m (span (buf u) 128)) [VPtr (t + off_name)] [SStr (task_title i t)]"
    using arg_is_change [of m "buffers buf i f" _ _ m] by (simp del: arg_is.simps)
  show "fmt_text NORMAL dispatch_fmt [SStr (task_title i t)] = Some (dispatch_line (task_title i t))"
    by (simp add: dispatch_fmt_def dispatch_line_def tx_def conv_text.simps)
qed (auto simp: dispatch_line_def task_title_def tx_def)

text \<open>A task that was switched away in \<open>task_dispatch\<close> first says whom it had handed over to.\<close>

lemma resume:
  assumes dev: "\<exists>k. lsr k AND 0x20 \<noteq> 0" and "log_quiet s" and names: "named buf i f (kmem s)"
    and "kstack s = F_log_dispatch t # F_leave e # fs" and "t = i \<or> t = f" and u: "curr_task s = i \<or> curr_task s = f"
  shows "\<exists>m. runs buf lsr s ((said (dispatch_line (task_title i t)) (s\<lparr>kstack := fs, kmem := m\<rparr>))\<lparr>eflags := e\<rparr>) \<and>
    named buf i f m"
proof -
  have top: "run_frame buf lsr s =
      log_printf (buf (curr_task s)) dispatch_fmt [VPtr (t + off_name)] (s\<lparr>kstack := F_leave e # fs\<rparr>)"
    using assms(4) by (simp add: run_frame_def)
  have "buffer_ok (buf (curr_task s))" using names u by (auto simp: named_def)
  from run_log_call [where buf = buf, OF dev top assms(2) dispatch_printable [OF names assms(5) u] this] obtain m where
    1: "runs buf lsr s (said (dispatch_line (task_title i t)) (s\<lparr>kstack := F_leave e # fs, kmem := m\<rparr>))" (is "runs _ _ _ ?s1")
    and m: "\<forall>a. a \<notin> span (buf (curr_task s)) 128 \<longrightarrow> m a = kmem s a" by blast
  have "run_frame buf lsr ?s1 = Some ((said (dispatch_line (task_title i t)) (s\<lparr>kstack := fs, kmem := m\<rparr>))\<lparr>eflags := e\<rparr>)"
    by (simp add: run_frame_def said_def)
  then have "runs buf lsr s ((said (dispatch_line (task_title i t)) (s\<lparr>kstack := fs, kmem := m\<rparr>))\<lparr>eflags := e\<rparr>)"
    using 1 runs_trans runs_step runs_refl by blast
  moreover have "named buf i f m" using named_change [OF names _ u] m by blast
  ultimately show ?thesis by blast
qed

section \<open>A tick while the idle task runs\<close>

text \<open>
  Up to the walk over the sleep list: when its slice ends, the idle task says so, gets a new slice and
  stays.
\<close>

lemma idle_tick:
  assumes dev: "\<exists>k. lsr k AND 0x20 \<noteq> 0" and inv: "sched_inv T s a" and cur: "curr_task s = idle_task s" and "log_quiet s"
    and "kstack s = []"
  defines "t \<equiv> tasks s (idle_task s)"
  shows "\<exists>s1. sched_inv T s1 a \<and> idle_task s1 = idle_task s \<and> first_task s1 = first_task s \<and> mutexes s1 = mutexes s \<and>
    saved s1 = saved s \<and> kmem s1 = kmem s \<and> kstack s1 = [F_iret (eflags s)] \<and>
    tasks s1 = (tasks s)(idle_task s := t\<lparr>slice_ticks := (if slice_ticks t = 1 then time_ticks t else slice_ticks t - 1)\<rparr>) \<and>
    serial s1 = serial s @ lines_of (if slice_ticks t = 1 then [slice_end_msg] else []) \<and>
    (\<forall>r. task_time_tick_sleep s1 = Some r \<longrightarrow> (\<exists>s0. timer_interrupt s = Some s0 \<and> runs buf lsr s0 r))"
proof (cases "slice_ticks t = 1")
  case False
  then have "timer_interrupt s = task_time_tick_sleep (ticked s)" using cur by (simp add: timer_interrupt_ticked t_def)
  then show ?thesis using False inv assms(5) cur by (intro exI [of _ "ticked s"]) (auto simp: t_def lines_of_def)
next
  case True
  let ?i = "idle_task s" and ?s0 = "push_frame (F_log slice_end_msg) (push_frame (F_tick_slice (idle_task s)) (ticked s))"
  have 0: "timer_interrupt s = Some ?s0" using True cur by (simp add: timer_interrupt_ticked t_def)
  let ?s1 = "said slice_end_msg (?s0\<lparr>kstack := F_tick_slice ?i # kstack (ticked s)\<rparr>)"
  have 1: "runs buf lsr ?s0 ?s1"
    by (rule run_message [OF dev]) (use \<open>log_quiet s\<close> in \<open>simp_all add: log_ours_def log_quiet_def\<close>)
  let ?s2 = "upd_task ?i (\<lambda>t. t\<lparr>slice_ticks := time_ticks t\<rparr>) (said slice_end_msg (ticked s))"
  have s2: "sched_inv T ?s2 a"
    using sched_pre_cong [OF sched_invD(1) [OF inv], of ?s2] sched_invD(2) [OF inv] by (simp add: sched_inv_def said_def)
  have run: "task_next_run ?s2 = ?i"
    using task_next_run_rep [OF sched_preD(1,2) [OF sched_invD(1) [OF s2]]] sched_invD(2) [OF s2] cur by (simp add: said_def)
  have "task_dispatch (push_frame F_tick_sleep ?s2) = push_frame F_tick_sleep ?s2"
    by (rule task_dispatch_stay) (use run cur in \<open>simp add: said_def\<close>)
  then have 2: "run_frame buf lsr ?s1 = Some (push_frame F_tick_sleep ?s2)"
    by (simp add: run_frame_def said_def task_time_tick_slice_def Let_def task_set_block_def task_set_ready_def
        push_frame_def upd_task_def)
  have 3: "run_frame buf lsr (push_frame F_tick_sleep ?s2) = task_time_tick_sleep ?s2" by simp
  have "\<exists>s0. timer_interrupt s = Some s0 \<and> runs buf lsr s0 r" if "task_time_tick_sleep ?s2 = Some r" for r
    using runs_trans [OF 1 runs_step [OF 2 runs_step [OF _ runs_refl]]] 0 3 that by simp
  then show ?thesis
    using True s2 assms(5) cur by (intro exI [of _ ?s2]) (simp add: t_def)
qed

section \<open>The phases of the first task\<close>

definition steady :: "(addr \<Rightarrow> addr) \<Rightarrow> addr \<Rightarrow> addr \<Rightarrow> addr set \<Rightarrow> kst \<Rightarrow> queues \<Rightarrow> bool" where
  "steady buf i f T s a \<longleftrightarrow> sched_inv T s a \<and> idle_task s = i \<and> flat s \<and> log_quiet s \<and> named buf i f (kmem s) \<and>
    time_ticks (tasks s i) = TASK_TIME_SLICE_DEFAULT"

text \<open>The first task sleeps for \<open>n\<close> more ticks, and the idle task has \<open>j\<close> ticks of its slice left.\<close>

definition dozing :: "(addr \<Rightarrow> addr) \<Rightarrow> addr \<Rightarrow> addr \<Rightarrow> addr set \<Rightarrow> int \<Rightarrow> int \<Rightarrow> kst \<Rightarrow> bool" where
  "dozing buf i f T n j s \<longleftrightarrow> (\<exists>a e0 e1. steady buf i f T s a \<and> a Q_ready = [] \<and> a Q_sleep = [f] \<and> kstack s = [] \<and> if_set s \<and>
    saved s f = [F_log_dispatch i, F_leave e1, F_leave e0] \<and> sleep_ticks (tasks s f) = n \<and> slice_ticks (tasks s i) = j)"

text \<open>
  The first task runs its own code.  The idle task has not run yet, or it was switched away at the end
  of the tick that woke the first task.
\<close>

definition idle_context :: "addr \<Rightarrow> addr \<Rightarrow> bool \<Rightarrow> kst \<Rightarrow> bool" where
  "idle_context i f new s \<longleftrightarrow>
    (if new then saved s i = [] \<and> bit (tss_eflags (tss (tasks s i))) 9
     else (\<exists>e fl. saved s i = [F_log_dispatch f, F_leave e, F_iret fl] \<and> bit fl 9))"

definition awake :: "(addr \<Rightarrow> addr) \<Rightarrow> addr \<Rightarrow> addr \<Rightarrow> addr set \<Rightarrow> bool \<Rightarrow> kst \<Rightarrow> bool" where
  "awake buf i f T new s \<longleftrightarrow> (\<exists>a. steady buf i f T s a \<and> a Q_ready = [f] \<and> a Q_sleep = [] \<and> kstack s = [] \<and>
    slice_ticks (tasks s i) = TASK_TIME_SLICE_DEFAULT \<and> idle_context i f new s)"

lemma steady_not_idle:
  assumes "steady buf i f T s a" and "f \<in> set (a Q_ready) \<union> set (a Q_sleep)"
  shows "f \<noteq> i"
  using assms sched_preD(5) [OF sched_invD(1), of T s a] by (auto simp: steady_def off_kind_run_iff)

lemma steadyD:
  assumes "steady buf i f T s a"
  shows "sched_inv T s a" "idle_task s = i" "flat s" "log_quiet s" "named buf i f (kmem s)"
    "time_ticks (tasks s i) = TASK_TIME_SLICE_DEFAULT" "curr_task s = hdq (a Q_ready) i"
  using assms sched_invD(2) [of T s a] by (auto simp: steady_def a_next_def)

lemma idle_entry_step:
  assumes "kstack s = []" and "curr_task s = idle_task s" and "f \<noteq> idle_task s" and "if_set s" and "flat s"
    and "timer_interrupt s = Some s0" and "runs buf lsr s0 r"
  shows "two_runs f buf lsr (pc, s) (pc, r)"
proof -
  have "flat s0" using assms(5,6) flat_cong cr0_timer by blast
  with assms(7) have "two_runs f buf lsr (pc, s0) (pc, r)" by (rule runs_task)
  moreover have "task_step (two_tasks f) buf lsr (pc, s) = Some (pc, s0)"
    using assms(1-6) by (auto simp: task_step.simps two_tasks_def idle_task_entry_def)
  ultimately show ?thesis by (metis task_runs_step)
qed

text \<open>One tick in the idle task, up to the last dispatch of \<open>task_time_tick\<close>.\<close>

definition next_slice :: "int \<Rightarrow> int" where
  "next_slice j = (if j = 1 then TASK_TIME_SLICE_DEFAULT else j - 1)"

definition slice_lines :: "int \<Rightarrow> uint8_t list list" where
  "slice_lines j = (if j = 1 then [slice_end_msg] else [])"

lemma doze_walk:
  assumes dev: "\<exists>k. lsr k AND 0x20 \<noteq> 0" and st: "steady buf i f T s a" and q: "a Q_ready = []" "a Q_sleep = [f]"
    and s: "kstack s = []" "if_set s"
  shows "\<exists>s2. two_runs f buf lsr (pc, s) (pc, task_dispatch s2) \<and> f \<noteq> i \<and>
    sched_pre T s2 (if sleep_ticks (tasks s f) = 1 then a(Q_ready := [f], Q_sleep := []) else a) \<and>
    idle_task s2 = i \<and> curr_task s2 = i \<and> log_quiet s2 \<and> saved s2 = saved s \<and> named buf i f (kmem s2) \<and>
    kstack s2 = [F_iret (eflags s)] \<and> serial s2 = serial s @ lines_of (slice_lines (slice_ticks (tasks s i))) \<and>
    tasks s2 = (tasks s)(i := (tasks s i)\<lparr>slice_ticks := next_slice (slice_ticks (tasks s i))\<rparr>, f := tick_task (tasks s f))"
proof -
  note D = steadyD [OF st]
  have cur: "curr_task s = idle_task s" and ne: "f \<noteq> i" using D(2,7) q steady_not_idle [OF st] by auto
  from idle_tick [where buf = buf, OF dev D(1) cur D(4) s(1)] obtain s1 where
    s1: "sched_inv T s1 a" "idle_task s1 = i" "mutexes s1 = mutexes s" "saved s1 = saved s"
      "kmem s1 = kmem s" "kstack s1 = [F_iret (eflags s)]"
      "tasks s1 = (tasks s)(i := (tasks s i)\<lparr>slice_ticks := next_slice (slice_ticks (tasks s i))\<rparr>)"
      "serial s1 = serial s @ lines_of (slice_lines (slice_ticks (tasks s i)))"
    and run: "\<And>r. task_time_tick_sleep s1 = Some r \<Longrightarrow> \<exists>s0. timer_interrupt s = Some s0 \<and> runs buf lsr s0 r"
    unfolding next_slice_def slice_lines_def using D(2,6) by auto
  from task_time_tick_sleep_spec [OF sched_invD(1) [OF s1(1)]] obtain s2 where
    s2: "task_time_tick_sleep s1 = Some (task_dispatch s2)" "sched_pre T s2 (a_tick s1 [] (a Q_sleep) a)" "same_context s1 s2"
      "tasks s2 = (\<lambda>t. if t \<in> set (a Q_sleep) then tick_task (tasks s1 t) else tasks s1 t)" by blast
  have "a_tick s1 [] (a Q_sleep) a = (if sleep_ticks (tasks s f) = 1 then a(Q_ready := [f], Q_sleep := []) else a)"
    using q ne by (auto simp: a_tick_def fun_eq_iff due_def s1(7))
  moreover from run [OF s2(1)] idle_entry_step [OF s(1) cur _ s(2) D(3)] D(2) ne
  have "two_runs f buf lsr (pc, s) (pc, task_dispatch s2)" by metis
  moreover have "tasks s2 = (tasks s1)(f := tick_task (tasks s f))" using q ne by (auto simp: s2(4) s1(7) fun_eq_iff)
  moreover have "serial s2 = serial s1" "curr_task s2 = i" "log_quiet s2"
    using s2(3) serial_cong [of s2 s1] sched_invD(2) [OF s1(1)] q s1(2,3) log_quiet_cong [of s2 s] D(4)
    by (simp_all add: same_context_def a_next_def)
  ultimately show ?thesis
    using s1 s2(2,3) ne D(5) by (intro exI [of _ s2]) (simp add: same_context_def)
qed

lemma doze_tick:
  assumes dev: "\<exists>k. lsr k AND 0x20 \<noteq> 0" and "dozing buf i f T n j s" and "n \<noteq> 1"
  shows "\<exists>s'. two_runs f buf lsr (pc, s) (pc, s') \<and> dozing buf i f T (n - 1) (next_slice j) s' \<and>
    serial s' = serial s @ lines_of (slice_lines j)"
proof -
  from assms(2) obtain a e0 e1 where st: "steady buf i f T s a" and q: "a Q_ready = []" "a Q_sleep = [f]"
    and s: "kstack s = []" "if_set s" "saved s f = [F_log_dispatch i, F_leave e1, F_leave e0]"
      "sleep_ticks (tasks s f) = n" "slice_ticks (tasks s i) = j" unfolding dozing_def by blast
  from doze_walk [where buf = buf and pc = pc, OF dev st q s(1,2)] assms(3) s(4,5) obtain s2 where
    run: "two_runs f buf lsr (pc, s) (pc, task_dispatch s2)" and ne: "f \<noteq> i" and pre: "sched_pre T s2 a"
    and c2: "idle_task s2 = i" "curr_task s2 = i" "log_quiet s2" "saved s2 = saved s" "named buf i f (kmem s2)"
      "kstack s2 = [F_iret (eflags s)]" "serial s2 = serial s @ lines_of (slice_lines j)"
      "tasks s2 = (tasks s)(i := (tasks s i)\<lparr>slice_ticks := next_slice j\<rparr>, f := tick_task (tasks s f))" by auto
  have "task_next_run s2 = curr_task s2"
    using task_next_run_rep [OF sched_preD(1,2) [OF pre]] q c2 by (simp add: a_next_def)
  then have "task_dispatch s2 = s2" by (rule task_dispatch_stay)
  with run task_runs_trans [OF _ runs_task [OF iret_step [OF c2(6)]]] two_runs_flat [OF run] steadyD(3) [OF st]
  have run3: "two_runs f buf lsr (pc, s) (pc, s2\<lparr>kstack := [], eflags := eflags s\<rparr>)" (is "two_runs _ _ _ _ (pc, ?s3)") by simp
  then have "flat ?s3" using two_runs_flat steadyD(3) [OF st] by fastforce
  then have "steady buf i f T ?s3 a"
    using pre q c2 ne steadyD(6) [OF st] log_quiet_cong [of ?s3 s2] by (simp add: steady_def sched_inv_def a_next_def)
  then have "dozing buf i f T (n - 1) (next_slice j) ?s3"
    unfolding dozing_def using q c2 s ne assms(3)
    by (intro exI [of _ a] exI [of _ e0] exI [of _ e1]) (simp add: if_set_def tick_task_def)
  then show ?thesis using run3 c2(7) by auto
qed

text \<open>The tick that wakes the first task.\<close>

lemma doze_wake:
  assumes dev: "\<exists>k. lsr k AND 0x20 \<noteq> 0" and "dozing buf i f T 1 1 s"
  shows "\<exists>s'. two_runs f buf lsr (pc, s) (pc, s') \<and> awake buf i f T False s' \<and>
    serial s' = serial s @ lines_of [slice_end_msg, dispatch_line (tx ''idle task'')]"
proof -
  from assms(2) obtain a e0 e1 where st: "steady buf i f T s a" and q: "a Q_ready = []" "a Q_sleep = [f]"
    and s: "kstack s = []" "if_set s" "saved s f = [F_log_dispatch i, F_leave e1, F_leave e0]"
      "sleep_ticks (tasks s f) = 1" "slice_ticks (tasks s i) = 1" unfolding dozing_def by blast
  let ?a = "a(Q_ready := [f], Q_sleep := [])"
  from doze_walk [where buf = buf and pc = pc, OF dev st q s(1,2)] s(4,5) obtain s2 where
    run: "two_runs f buf lsr (pc, s) (pc, task_dispatch s2)" and ne: "f \<noteq> i" and pre: "sched_pre T s2 ?a"
    and c2: "idle_task s2 = i" "curr_task s2 = i" "log_quiet s2" "saved s2 = saved s" "named buf i f (kmem s2)"
      "kstack s2 = [F_iret (eflags s)]" "serial s2 = serial s @ lines_of (slice_lines 1)"
      "tasks s2 = (tasks s)(i := (tasks s i)\<lparr>slice_ticks := next_slice 1\<rparr>, f := tick_task (tasks s f))" by auto
  let ?s3 = "task_dispatch s2"
  have new: "a_next (idle_task s2) ?a = f" "f \<noteq> curr_task s2" using ne c2(2) by (simp_all add: a_next_def)
  note P = sched_preD [OF pre]
  note sw = task_dispatch_switch [OF P(1,2,8,9,3,4), unfolded new, OF new(2)]
  have inv3: "sched_inv T ?s3 ?a" by (rule task_dispatch_inv [OF pre])
  have k3: "kstack ?s3 = F_log_dispatch i # F_leave e1 # [F_leave e0]" using sw(1) c2(4) s(3) by simp
  have "log_quiet ?s3" "named buf i f (kmem ?s3)" "curr_task ?s3 = f"
    using c2 log_quiet_cong [of ?s3 s2] task_dispatch_curr [OF P(1,2)] new by simp_all
  from resume [where buf = buf, OF dev this(1,2) k3, of] this(3) obtain m where
    r3: "runs buf lsr ?s3 ((said (dispatch_line (task_title i i)) (?s3\<lparr>kstack := [F_leave e0], kmem := m\<rparr>))\<lparr>eflags := e1\<rparr>)"
      (is "runs _ _ _ ?s4") and m: "named buf i f m" by blast
  let ?s5 = "?s4\<lparr>kstack := [], eflags := e0\<rparr>"
  have "run_frame buf lsr ?s4 = Some ?s5" by (simp add: run_frame_def)
  then have "runs buf lsr ?s3 ?s5" using r3 by (meson runs_step runs_refl runs_trans)
  moreover have "flat ?s3" using two_runs_flat [OF run] steadyD(3) [OF st] by simp
  ultimately have run5: "two_runs f buf lsr (pc, s) (pc, ?s5)" and "flat ?s5"
    using task_runs_trans [OF run runs_task] runs_cr0 flat_cong by blast+
  then have "steady buf i f T ?s5 ?a"
    using sched_pre_cong [OF sched_invD(1) [OF inv3], of ?s5] sched_invD(2) [OF inv3] c2 m ne steadyD(6) [OF st]
      log_quiet_cong [of ?s5 s2] by (simp add: steady_def sched_inv_def sw(4) set_state_def)
  then have "awake buf i f T False ?s5"
    unfolding awake_def using c2 ne s(2)
    by (intro exI [of _ ?a]) (simp add: sw set_state_def idle_context_def if_set_def next_slice_def)
  moreover have "serial ?s5 = serial s @ lines_of [slice_end_msg, dispatch_line (tx ''idle task'')]"
    using c2(7) by (simp add: slice_lines_def task_title_def lines_of_def)
  ultimately show ?thesis using run5 by blast
qed

lemma first_sleeps:
  assumes st: "steady buf i f T s a" and q: "a Q_ready = [f]" "a Q_sleep = []" and "kstack s = []"
  shows "sched_inv T (sys_sleep 1000 s) (a(Q_ready := [], Q_sleep := [f])) \<and> curr_task (sys_sleep 1000 s) = i \<and>
    log_quiet (sys_sleep 1000 s) \<and> kmem (sys_sleep 1000 s) = kmem s \<and> idle_task (sys_sleep 1000 s) = i \<and>
    cr0 (sys_sleep 1000 s) = cr0 s \<and> serial (sys_sleep 1000 s) = serial s \<and>
    kstack (sys_sleep 1000 s) = saved s i \<and> eflags (sys_sleep 1000 s) = tss_eflags (tss (tasks s i)) \<and>
    saved (sys_sleep 1000 s) f = [F_log_dispatch i, F_leave (eflags s AND NOT EFLAGS_IF), F_leave (eflags s)] \<and>
    sleep_ticks (tasks (sys_sleep 1000 s) f) = 100 \<and> slice_ticks (tasks (sys_sleep 1000 s) i) = slice_ticks (tasks s i) \<and>
    time_ticks (tasks (sys_sleep 1000 s) i) = time_ticks (tasks s i)"
proof -
  note D = steadyD [OF st]
  have ne: "f \<noteq> i" and cur: "curr_task s = f" using D(7) q steady_not_idle [OF st] by auto
  have nz: "sleep_ticks_of 1000 = 100" by (simp add: sleep_ticks_of_def OS_TICKS_MS_def)
  let ?s3 = "push_frame (F_leave (eflags s)) (task_set_sleep f 100 (task_set_block f (cli s)))"
  let ?a = "a(Q_ready := [], Q_sleep := [f])"
  have pre: "sched_pre T ?s3 ?a" and eq: "sys_sleep 1000 s = task_dispatch ?s3"
    using sys_sleep_pre [OF D(1), of 1000] D(2) ne cur nz q by simp_all
  note P = sched_preD [OF pre]
  have new: "a_next (idle_task ?s3) ?a = i" "i \<noteq> curr_task ?s3" using ne cur D(2) by (simp_all add: a_next_def)
  note sw = task_dispatch_switch [OF P(1,2,8,9,3,4), unfolded new, OF new(2)]
  have inv: "sched_inv T (task_dispatch ?s3) ?a" by (rule task_dispatch_inv [OF pre])
  have out: "serial ?s3 = serial s" by (rule serial_cong) simp
  show ?thesis
    unfolding eq using inv sched_invD(2) [OF inv] new D(2,4) ne cur assms(4) out log_quiet_cong [of "task_dispatch ?s3" s]
    by (simp add: sw tasks_set_sleep set_state_def eflags_cli)
qed

lemma say_hello:
  assumes dev: "\<exists>k. lsr k AND 0x20 \<noteq> 0" and "awake buf i f T new s"
  shows "\<exists>s' a. two_runs f buf lsr (at_print, s) (at_sleep, s') \<and> steady buf i f T s' a \<and> a Q_ready = [f] \<and> a Q_sleep = [] \<and>
    kstack s' = [] \<and> tasks s' = tasks s \<and> saved s' = saved s \<and> serial s' = serial s @ lines_of [hello_fmt]"
proof -
  from assms(2) obtain a where st: "steady buf i f T s a" and q: "a Q_ready = [f]" "a Q_sleep = []" "kstack s = []"
    unfolding awake_def by blast
  note D = steadyD [OF st]
  have cur: "curr_task s = f" using D(7) q by simp
  let ?s1 = "push_frame (F_printf hello_fmt []) s"
  have 1: "task_step (two_tasks f) buf lsr (at_print, s) = Some (at_sleep, ?s1)" using q(3) cur D(3) by (simp add: task_step.simps two_tasks_def)
  have "printable (kmem ?s1) (buf (curr_task ?s1)) hello_fmt [] hello_fmt"
    by (rule printableI [of _ "[]"]) (auto simp: hello_fmt_def)
  moreover have "kstack ?s1 = [F_printf hello_fmt []]" "log_quiet ?s1" "buffer_ok (buf (curr_task ?s1))"
    using q(3) D(4,5) cur by (simp_all add: log_quiet_def named_def)
  ultimately obtain m where r: "runs buf lsr ?s1 (said hello_fmt (?s1\<lparr>kstack := [], kmem := m\<rparr>))" (is "runs _ _ _ ?s2")
    and m: "\<forall>a. a \<notin> span (buf f) 128 \<longrightarrow> m a = kmem s a"
    using run_printf [where buf = buf, OF dev] cur by fastforce
  have "named buf i f m" using named_change [OF D(5)] m by blast
  moreover have "sched_inv T ?s2 a"
    using sched_pre_cong [OF sched_invD(1) [OF D(1)], of ?s2] sched_invD(2) [OF D(1)] by (simp add: sched_inv_def)
  ultimately have "steady buf i f T ?s2 a" using D log_quiet_cong [of ?s2 s] flat_cong [of ?s2 s] by (simp add: steady_def)
  moreover have "two_runs f buf lsr (at_print, s) (at_sleep, ?s2)"
    using task_runs_step [OF 1 runs_task [OF r]] D(3) flat_cong [of ?s1 s] by simp
  ultimately show ?thesis using q by (intro exI [of _ ?s2] exI [of _ a]) simp
qed

definition hello_lines :: "bool \<Rightarrow> uint8_t list list" where
  "hello_lines new = hello_fmt # (if new then [] else [dispatch_line (tx ''first task'')])"

text \<open>Once the idle task runs undisturbed with the first task on the sleep queue, the first task dozes.\<close>

lemma asleep_dozing:
  assumes st: "steady buf i f T s a" and q: "a Q_ready = [f]" "a Q_sleep = []" "kstack s = []"
    and slice: "slice_ticks (tasks s i) = TASK_TIME_SLICE_DEFAULT"
    and s': "sched_pre T s' (a(Q_ready := [], Q_sleep := [f]))" "idle_task s' = i" "flat s'" "curr_task s' = i"
      "mutexes s' = mutexes (sys_sleep 1000 s)" "named buf i f (kmem s')" "tasks s' = tasks (sys_sleep 1000 s)"
      "kstack s' = []" "saved s' = saved (sys_sleep 1000 s)" "if_set s'"
  shows "dozing buf i f T 100 TASK_TIME_SLICE_DEFAULT s'"
  unfolding dozing_def steady_def
  using s' first_sleeps [OF st q] slice steadyD(6) [OF st] log_quiet_cong [of s' "sys_sleep 1000 s"]
  by (intro exI [of _ "a(Q_ready := [], Q_sleep := [f])"] exI [of _ "eflags s"] exI [of _ "eflags s AND NOT EFLAGS_IF"])
    (simp add: sched_inv_def a_next_def)

lemma hello_sleeps:
  assumes dev: "\<exists>k. lsr k AND 0x20 \<noteq> 0" and aw: "awake buf i f T new s"
  shows "\<exists>s'. two_runs f buf lsr (at_print, s) (at_print, s') \<and> dozing buf i f T 100 TASK_TIME_SLICE_DEFAULT s' \<and>
    serial s' = serial s @ lines_of (hello_lines new)"
proof -
  from say_hello [OF assms] obtain s1 a where
    1: "two_runs f buf lsr (at_print, s) (at_sleep, s1)" and st: "steady buf i f T s1 a"
    and q: "a Q_ready = [f]" "a Q_sleep = []" "kstack s1 = []"
    and s1: "tasks s1 = tasks s" "saved s1 = saved s" "serial s1 = serial s @ lines_of [hello_fmt]" by blast
  note D = steadyD [OF st]
  have ne: "f \<noteq> i" and cur: "curr_task s1 = f" using D(7) q steady_not_idle [OF st] by auto
  let ?s2 = "sys_sleep 1000 s1" and ?a = "a(Q_ready := [], Q_sleep := [f])"
  have 2: "task_step (two_tasks f) buf lsr (at_sleep, s1) = Some (at_print, ?s2)" using q(3) cur D(3) by (simp add: task_step.simps two_tasks_def)
  note S = first_sleeps [OF st q]
  have slice: "slice_ticks (tasks s1 i) = TASK_TIME_SLICE_DEFAULT" and ctx: "idle_context i f new s1"
    using aw s1 by (auto simp: awake_def idle_context_def)
  note doze = asleep_dozing [OF st q slice]
  have run2: "two_runs f buf lsr (at_print, s) (at_print, ?s2)"
    using task_runs_trans [OF 1 task_runs_step [OF 2 task_runs_refl]] .
  show ?thesis
  proof (cases new)
    case True
    with ctx S sched_invD(1) D(3,5) flat_cong [of ?s2 s1] have "dozing buf i f T 100 TASK_TIME_SLICE_DEFAULT ?s2"
      by (intro doze) (auto simp: idle_context_def if_set_def)
    then show ?thesis using run2 S s1(3) True by (intro exI [of _ ?s2]) (simp add: hello_lines_def)
  next
    case False
    with ctx obtain e fl where ifl: "saved s1 i = [F_log_dispatch f, F_leave e, F_iret fl]" "bit fl 9"
      by (auto simp: idle_context_def)
    have k2: "kstack ?s2 = F_log_dispatch f # F_leave e # [F_iret fl]" "log_quiet ?s2" "named buf i f (kmem ?s2)"
      using S ifl(1) D(5) by simp_all
    from resume [where buf = buf, OF dev k2(2,3,1)] S obtain m where
      3: "runs buf lsr ?s2 ((said (dispatch_line (task_title i f)) (?s2\<lparr>kstack := [F_iret fl], kmem := m\<rparr>))\<lparr>eflags := e\<rparr>)"
        (is "runs _ _ _ ?s3") and m: "named buf i f m" by blast
    let ?s4 = "?s3\<lparr>kstack := [], eflags := fl\<rparr>"
    have "runs buf lsr ?s3 ?s4" by (rule iret_step) simp
    with 3 have r4: "runs buf lsr ?s2 ?s4" by (rule runs_trans)
    have "flat ?s2" using S D(3) flat_cong [of ?s2 s1] by simp
    with r4 have "two_runs f buf lsr (at_print, s) (at_print, ?s4)" and flat: "flat ?s4"
      using task_runs_trans [OF run2 runs_task] runs_cr0 flat_cong by blast+
    note run4 = this(1)
    have "sched_pre T ?s4 ?a"
      using sched_pre_cong [of T ?s2 ?a ?s4] sched_invD(1) S by simp
    then have "dozing buf i f T 100 TASK_TIME_SLICE_DEFAULT ?s4"
      by (intro doze) (use S m ifl(2) flat in \<open>simp_all add: if_set_def\<close>)
    moreover have "serial ?s4 = serial s @ lines_of (hello_lines new)"
      using S s1(3) ne False by (simp add: hello_lines_def task_title_def lines_of_def)
    ultimately show ?thesis using run4 by blast
  qed
qed

section \<open>Rounds\<close>

lemma doze_ticks:
  assumes dev: "\<exists>k. lsr k AND 0x20 \<noteq> 0" and "dozing buf i f T n j s" and "int k < n"
  shows "\<exists>s'. two_runs f buf lsr (pc, s) (pc, s') \<and> dozing buf i f T (n - int k) ((next_slice ^^ k) j) s' \<and>
    serial s' = serial s @ lines_of (concat (map (\<lambda>m. slice_lines ((next_slice ^^ m) j)) [0..<k]))"
  using assms(3)
proof (induction k)
  case 0
  then show ?case using assms(2) by (intro exI [of _ s]) (simp add: lines_of_def)
next
  case (Suc k)
  then obtain s1 where s1: "two_runs f buf lsr (pc, s) (pc, s1)" "dozing buf i f T (n - int k) ((next_slice ^^ k) j) s1"
    "serial s1 = serial s @ lines_of (concat (map (\<lambda>m. slice_lines ((next_slice ^^ m) j)) [0..<k]))" by auto
  have "n - int k \<noteq> 1" using Suc.prems by simp
  from doze_tick [OF dev s1(2) this, of pc] obtain s2 where
    "two_runs f buf lsr (pc, s1) (pc, s2)" "dozing buf i f T (n - int k - 1) (next_slice ((next_slice ^^ k) j)) s2"
    "serial s2 = serial s1 @ lines_of (slice_lines ((next_slice ^^ k) j))" by blast
  with s1 task_runs_trans [OF s1(1)] show ?case by (intro exI [of _ s2]) (simp add: algebra_simps)
qed

text \<open>Slices of ten ticks, counted from a full one.\<close>

lemma slices: "(next_slice ^^ m) TASK_TIME_SLICE_DEFAULT = 10 - int (m mod 10)"
proof (induction m)
  case (Suc m)
  have "m mod 10 < 10" by simp
  with Suc show ?case by (auto simp: next_slice_def TASK_TIME_SLICE_DEFAULT_def mod_Suc)
qed (simp add: TASK_TIME_SLICE_DEFAULT_def)

lemma slice_lines_count:
  "concat (map (\<lambda>m. slice_lines ((next_slice ^^ m) TASK_TIME_SLICE_DEFAULT)) [0..<k]) = replicate (k div 10) slice_end_msg"
proof (induction k)
  case (Suc k)
  have "slice_lines ((next_slice ^^ k) TASK_TIME_SLICE_DEFAULT) = (if Suc (k mod 10) = 10 then [slice_end_msg] else [])"
    unfolding slices slice_lines_def by auto
  with Suc show ?case by (simp add: div_Suc mod_Suc replicate_append_same)
qed simp

text \<open>What appears on the serial line while the first task goes round its loop once.\<close>

definition round_lines :: "bool \<Rightarrow> uint8_t list list" where
  "round_lines new = hello_lines new @ replicate 10 slice_end_msg @ [dispatch_line (tx ''idle task'')]"

lemma first_round:
  assumes dev: "\<exists>k. lsr k AND 0x20 \<noteq> 0" and "awake buf i f T new s"
  shows "\<exists>s'. two_runs f buf lsr (at_print, s) (at_print, s') \<and> awake buf i f T False s' \<and>
    serial s' = serial s @ lines_of (round_lines new)"
proof -
  from hello_sleeps [OF assms] obtain s1 where
    1: "two_runs f buf lsr (at_print, s) (at_print, s1)" "dozing buf i f T 100 TASK_TIME_SLICE_DEFAULT s1"
      "serial s1 = serial s @ lines_of (hello_lines new)" by blast
  from doze_ticks [where k = 99 and pc = at_print, OF dev 1(2)] obtain s2 where
    2: "two_runs f buf lsr (at_print, s1) (at_print, s2)" "dozing buf i f T 1 1 s2"
      "serial s2 = serial s1 @ lines_of (replicate 9 slice_end_msg)" unfolding slice_lines_count unfolding slices by auto
  from doze_wake [where pc = at_print, OF dev 2(2)] obtain s3 where
    3: "two_runs f buf lsr (at_print, s2) (at_print, s3)" "awake buf i f T False s3"
      "serial s3 = serial s2 @ lines_of [slice_end_msg, dispatch_line (tx ''idle task'')]" by blast
  have "replicate 10 slice_end_msg = replicate 9 slice_end_msg @ [slice_end_msg]" by (simp add: replicate_append_same numeral_eq_Suc)
  then have "serial s3 = serial s @ lines_of (round_lines new)"
    using 1(3) 2(3) 3(3) by (simp add: round_lines_def flip: lines_of_append)
  with task_runs_trans [OF 1(1) task_runs_trans [OF 2(1) 3(1)]] 3(2) show ?thesis by blast
qed

lemma rounds:
  assumes dev: "\<exists>k. lsr k AND 0x20 \<noteq> 0" and "awake buf i f T new s"
  shows "\<exists>s'. two_runs f buf lsr (at_print, s) (at_print, s') \<and> awake buf i f T (new \<and> n = 0) s' \<and>
    serial s' = serial s @ lines_of (concat (map (\<lambda>k. round_lines (new \<and> k = 0)) [0..<n]))"
proof (induction n)
  case 0
  then show ?case using assms(2) by (intro exI [of _ s]) (simp add: lines_of_def)
next
  case (Suc n)
  then obtain s1 where s1: "two_runs f buf lsr (at_print, s) (at_print, s1)" "awake buf i f T (new \<and> n = 0) s1"
    "serial s1 = serial s @ lines_of (concat (map (\<lambda>k. round_lines (new \<and> k = 0)) [0..<n]))" by blast
  from first_round [OF dev s1(2)] obtain s2 where
    "two_runs f buf lsr (at_print, s1) (at_print, s2)" "awake buf i f T False s2"
    "serial s2 = serial s1 @ lines_of (round_lines (new \<and> n = 0))" by blast
  with s1 task_runs_trans [OF s1(1)] show ?case by (intro exI [of _ s2]) simp
qed

text \<open>
  C4: what \<open>first_task_main\<close> does when a task runs it.  Take a kernel with paging off, in which the task \<open>f\<close>
  is at the beginning of that loop, is the only ready task besides the idle one and no task sleeps, the
  log is free and the serial port becomes ready, and let the timer interrupt only the idle task's \<open>hlt\<close>.
  Then, for every \<open>n\<close>, the loop goes round \<open>n\<close> times and is back at its beginning in such a state; a round
  sends the greeting, on resumption the scheduler's line about the switch that the idle task had asked
  for, ten ends of a time slice of the idle task, while \<open>f\<close> sleeps for a hundred ticks, and the line about
  the switch to the idle task; and nothing else is sent.  Nothing in the sources makes a task run
  \<open>first_task_main\<close>: \<open>task_first_init\<close> gives the first task the entry 0.
\<close>

theorem first_task_main_rounds:
  assumes "\<exists>k. lsr k AND 0x20 \<noteq> 0" and "awake buf i f T new s"
  shows "\<exists>s'. two_runs f buf lsr (at_print, s) (at_print, s') \<and> awake buf i f T (new \<and> n = 0) s' \<and>
    serial s' = serial s @ lines_of (concat (map (\<lambda>k. round_lines (new \<and> k = 0)) [0..<n]))"
  using assms by (rule rounds)

section \<open>A concrete kernel\<close>

text \<open>
  Where things are: the name of the idle task, the literal with that of the first task and the place it
  is copied to lie outside the message buffers, and the copy overwrites neither of the other two.
\<close>

definition name_place :: "kst \<Rightarrow> addr set" where
  "name_place s = span (first_task s + off_name) 32"

definition layout :: "(addr \<Rightarrow> addr) \<Rightarrow> image \<Rightarrow> kst \<Rightarrow> bool" where
  "layout buf im s \<longleftrightarrow>
    buffer_ok (buf NULL) \<and> buffer_ok (buf (idle_task s)) \<and> buffer_ok (buf (first_task s)) \<and>
    arg_is (kmem s) (span (buf NULL) 128) (VPtr (version_str im)) (SStr (tx ''1.0.0'')) \<and>
    arg_is (kmem s) (span (buf NULL) 128) (VPtr (author_str im)) (SStr (tx ''shabi'')) \<and>
    arg_is (kmem s) (span (buf NULL) 128 \<union> name_place s) (VPtr (first_name im)) (SStr (tx ''first task'')) \<and>
    arg_is (kmem s) (span (buf NULL) 128 \<union> buffers buf (idle_task s) (first_task s) \<union> name_place s)
      (VPtr (idle_task s + off_name)) (SStr (tx ''idle task'')) \<and>
    first_task s + off_name \<noteq> NULL \<and>
    name_place s \<inter> (span (buf NULL) 128 \<union> buffers buf (idle_task s) (first_task s)) = {}"

lemma names_placed:
  assumes L: "layout buf im s" and m: "\<forall>a. a \<notin> span (buf NULL) 128 \<longrightarrow> m a = kmem s a"
    and copy: "kernel_strncpy (first_task s + off_name) (first_name im) TASK_NAME_SIZE m = Some m'"
    and k: "\<forall>a. a \<notin> span (buf NULL) 128 \<longrightarrow> mk a = m' a"
  shows "named buf (idle_task s) (first_task s) mk"
proof -
  let ?f = "first_task s + off_name" and ?n = "tx ''first task''" and ?B = "span (buf NULL) 128"
  let ?R = "buffers buf (idle_task s) (first_task s)"
  note D = L [unfolded layout_def]
  have len: "length ?n = 10" by (simp add: tx_def)
  have sub: "span ?f (Suc (length ?n)) \<subseteq> name_place s" unfolding name_place_def by (rule span_mono) (simp add: len)
  have "arg_is m (?B \<union> name_place s) (VPtr (first_name im)) (SStr ?n)"
    by (rule arg_is_change [of "kmem s" "?B \<union> name_place s"]) (use D m in blast)+
  then have lit: "cstring m (first_name im) ?n" "first_name im \<noteq> NULL" "span (first_name im) (Suc (length ?n)) \<inter> name_place s = {}"
    by (auto simp del: span.simps)
  have "span ?f (length ?n) \<subseteq> name_place s" unfolding name_place_def by (rule span_mono) (simp add: len)
  then have dis: "span ?f (length ?n) \<inter> span (first_name im) (Suc (length ?n)) = {}" using lit(3) by blast
  have "?f \<noteq> NULL" and small: "int (length ?n) + 1 < TASK_NAME_SIZE" "length ?n < 2 ^ 32"
    using D by (simp_all add: len TASK_NAME_SIZE_def)
  from kernel_strncpy_copies [OF lit(1) small(1) this(1) lit(2) dis small(2)] copy
  have str: "cstring m' ?f ?n" and other: "\<forall>a. a \<notin> span ?f (Suc (length ?n)) \<longrightarrow> m' a = m a" by simp_all
  have "arg_is m' ?B (VPtr ?f) (SStr ?n)" using str D sub by (auto simp del: span.simps)
  then have "cstring mk ?f ?n" using arg_is_change [of m' ?B "VPtr ?f" "SStr ?n" mk ?B] k by simp
  moreover have "span ?f (Suc (length ?n)) \<inter> ?R = {}" using D sub by blast
  moreover have "mk a = kmem s a" if "a \<notin> ?B \<union> ?R \<union> name_place s" for a
  proof -
    have "a \<notin> ?B" "a \<notin> span ?f (Suc (length ?n))" using that sub by blast+
    then show ?thesis using m k other by simp
  qed
  then have "arg_is mk ?R (VPtr (idle_task s + off_name)) (SStr (tx ''idle task''))"
    by (rule arg_is_change [of "kmem s" "?B \<union> ?R \<union> name_place s", rotated]) (use D in blast)+
  ultimately show ?thesis using D by (simp add: named_def del: span.simps)
qed

lemma handed_over_awake:
  assumes "prepared s" and "handed_over s k" and "named buf (idle_task s) (first_task s) (kmem k)" and "flat s"
  shows "awake buf (idle_task s) (first_task s) {idle_task s, first_task s} True k"
  using assms kernel_invD(1) [of "{idle_task s, first_task s}" k]
  unfolding awake_def handed_over_def prepared_def steady_def idle_context_def flat_def
  by (intro exI [of _ "(\<lambda>_. [])(Q_ready := [first_task s], Q_all := [idle_task s, first_task s])"]) simp

definition sample_buf :: "addr \<Rightarrow> addr" where
  "sample_buf t = (if t = idle0 then 0x8100 else if t = task1 then 0x8200 else 0x8000)"

lemma span_apart: "unat p + n \<le> unat q \<Longrightarrow> unat q + m \<le> 2 ^ 32 \<Longrightarrow> span p n \<inter> span q m = {}"
  using span_of_nat_disjoint [of "unat p" n "unat q" m] by (simp del: span.simps)

lemma sample_layout: "layout sample_buf boot_image sample_prepared"
proof -
  have f: "idle_task sample_prepared = idle0" "first_task sample_prepared = task1" "kmem sample_prepared = sample_strings"
    using cold_state_facts by (simp_all add: sample_prepared_def split: prod.split)
  have b: "sample_buf NULL = 0x8000" "sample_buf idle0 = 0x8100" "sample_buf task1 = 0x8200"
    by (simp_all add: sample_buf_def)
  have len: "Suc (length (tx ''1.0.0'')) = 6" "Suc (length (tx ''shabi'')) = 6" "Suc (length (tx ''first task'')) = 11"
    "Suc (length (tx ''idle task'')) = 10" by (simp_all add: tx_def)
  have im: "version_str boot_image = 0x9000" "author_str boot_image = 0x9010" "first_name boot_image = 0x9020"
    "idle0 + off_name = 0x1010" "task1 + off_name = 0x2010" by (simp_all add: boot_image_def off_name_def)
  have bufs: "span 0x9000 6 \<inter> span 0x8000 128 = {}" "span 0x9010 6 \<inter> span 0x8000 128 = {}" "span 0x9020 11 \<inter> span 0x8000 128 = {}"
    "span 0x9020 11 \<inter> span 0x2010 32 = {}"
    using span_apart [of "0x8000" 128 "0x9000" 6] span_apart [of "0x8000" 128 "0x9010" 6]
      span_apart [of "0x8000" 128 "0x9020" 11] span_apart [of "0x2010" 32 "0x9020" 11]
    by (simp_all add: Int_commute del: span.simps)
  have names: "span 0x1010 10 \<inter> span 0x8000 128 = {}" "span 0x1010 10 \<inter> span 0x8100 128 = {}" "span 0x1010 10 \<inter> span 0x8200 128 = {}"
    "span 0x1010 10 \<inter> span 0x2010 32 = {}" "span 0x2010 32 \<inter> span 0x8000 128 = {}" "span 0x2010 32 \<inter> span 0x8100 128 = {}"
    "span 0x2010 32 \<inter> span 0x8200 128 = {}" by (intro span_apart; simp)+
  show ?thesis
    unfolding layout_def name_place_def buffers_def f b im arg_is.simps len buffer_ok_def Int_Un_distrib
    using bufs names sample_cstrings by (simp del: span.simps)
qed

text \<open>The kernel behind \<open>init_main\<close>, with paging off and the loop as the code of the first task.\<close>

lemma sample_awake: "\<exists>s. awake sample_buf idle0 task1 {idle0, task1} True s"
proof -
  let ?s = sample_prepared
  have f: "idle_task ?s = idle0" "first_task ?s = task1" and flat: "flat ?s"
    using cold_state_facts by (simp_all add: sample_prepared_def flat_def cold_state_def empty_state_def split: prod.split)
  note D = sample_layout [unfolded layout_def]
  have "\<exists>k. (\<lambda>_ :: nat. 0x20 :: uint8_t) k AND 0x20 \<noteq> 0" by simp
  from init_main_effect [where buf = sample_buf and im = boot_image, OF sample_prepared_ok _ _ this] D two_space obtain k m m' where
    k: "handed_over ?s k" "\<forall>a. a \<notin> span (sample_buf NULL) 128 \<longrightarrow> m a = kmem ?s a"
      "kernel_strncpy (first_task ?s + off_name) (first_name boot_image) TASK_NAME_SIZE m = Some m'"
      "\<forall>a. a \<notin> span (sample_buf NULL) 128 \<longrightarrow> kmem k a = m' a" unfolding f by auto
  from handed_over_awake [OF sample_prepared_ok k(1) names_placed [OF sample_layout k(2-4)] flat] show ?thesis
    unfolding f by blast
qed

theorem first_task_main_rounds_witness:
  "\<exists>s s'. awake sample_buf idle0 task1 {idle0, task1} True s \<and>
     two_runs task1 sample_buf (\<lambda>_. 0x20) (at_print, s) (at_print, s') \<and>
     serial s' = serial s @ lines_of (round_lines True @ round_lines False)"
proof -
  from sample_awake obtain s where s: "awake sample_buf idle0 task1 {idle0, task1} True s" by blast
  have "concat (map (\<lambda>k. round_lines (True \<and> k = 0)) [0..<2]) = round_lines True @ round_lines False"
    by (simp add: numeral_2_eq_2)
  with first_task_main_rounds [OF _ s, of "\<lambda>_. 0x20" 2] s show ?thesis by (fastforce simp del: append_Cons)
qed

end
