(* ===== verification/Kernel_Table.thy ===== *)
theory Kernel_Table
  imports Memory Klib_Props
begin

text \<open>
  The kernel's page table, \<open>create_kernel_table\<close> of \<open>src/source/kernel/core/memory.c\<close>: which pages its rows
  map, and what the layout of the linker script has to guarantee.
\<close>

section \<open>Pages of a row\<close>

definition row_first :: "memory_map_t \<Rightarrow> nat" where
  "row_first mp = unat (map_vstart mp) div 4096"

definition row_end :: "memory_map_t \<Rightarrow> nat" where
  "row_end mp = (unat (map_vend mp) + 4095) div 4096"

definition row_ok :: "memory_map_t \<Rightarrow> bool" where
  "row_ok mp \<longleftrightarrow> unat (map_vstart mp) \<le> unat (map_vend mp) \<and> unat (map_vend mp) < 2 ^ 30"

definition row_base :: "memory_map_t \<Rightarrow> uint32_t" where
  "row_base mp = down2 (map_vstart mp) MEM_PAGE_SIZE"

lemma page_round:
  assumes "unat x < 2 ^ 30"
  shows "unat (down2 x MEM_PAGE_SIZE) = unat x div 4096 * 4096" "unat (up2 x MEM_PAGE_SIZE) = (unat x + 4095) div 4096 * 4096"
  using align_rounds [of 12 x] assms by (simp_all add: MEM_PAGE_SIZE_def)

lemma row_le: "row_ok mp \<Longrightarrow> row_first mp \<le> row_end mp"
  unfolding row_ok_def row_first_def row_end_def by (auto intro: div_le_mono)

lemma row_base_page: "row_ok mp \<Longrightarrow> unat (row_base mp) = row_first mp * 4096"
  using page_round(1) [of "map_vstart mp"] by (simp add: row_ok_def row_base_def row_first_def)

lemma row_count:
  assumes "row_ok mp"
  shows "map_page_count mp = int (row_end mp - row_first mp)"
proof -
  have b: "unat (map_vstart mp) < 2 ^ 30" "unat (map_vend mp) < 2 ^ 30" using assms by (simp_all add: row_ok_def)
  have "sint (down2 (map_vstart mp) MEM_PAGE_SIZE) = int (row_first mp * 4096)"
    using page_round(1) [OF b(1)] b(1) by (intro sint_of_unat) (simp_all add: row_first_def)
  moreover have "sint (up2 (map_vend mp) MEM_PAGE_SIZE) = int (row_end mp * 4096)"
    using page_round(2) [OF b(2)] b(2) by (intro sint_of_unat) (simp_all add: row_end_def)
  ultimately have "map_page_count mp = (int (row_end mp * 4096) - int (row_first mp * 4096)) sdiv 4096"
    by (simp add: map_page_count_def)
  also have "int (row_end mp * 4096) - int (row_first mp * 4096) = int (row_end mp - row_first mp) * 4096"
    using row_le [OF assms] by (simp add: of_nat_diff)
  also have "\<dots> sdiv 4096 = int (row_end mp - row_first mp)" by (auto simp: signed_divide_int_def sgn_mult)
  finally show ?thesis .
qed

lemma row_fits:
  assumes "row_ok mp"
  shows "unat (row_base mp) + (row_end mp - row_first mp) * 4096 \<le> 2 ^ 32"
proof -
  have "unat (map_vend mp) + 4095 < 2 ^ 32" using assms by (simp add: row_ok_def)
  then have "row_end mp * 4096 < 2 ^ 32"
    using div_times_less_eq_dividend [of "unat (map_vend mp) + 4095" 4096] unfolding row_end_def by linarith
  with row_le [OF assms] row_base_page [OF assms] show ?thesis by (simp add: diff_mult_distrib)
qed

definition row_page :: "memory_map_t \<Rightarrow> nat \<Rightarrow> uint32_t" where
  "row_page mp i = page_at (row_base mp) i"

lemma row_page_number:
  "row_ok mp \<Longrightarrow> i < row_end mp - row_first mp \<Longrightarrow> unat (row_page mp i) = (row_first mp + i) * 4096"
  using unat_page_at [OF row_fits, of mp i] row_base_page [of mp] by (simp add: row_page_def algebra_simps)

section \<open>Rows one after the other\<close>

definition row_mapped :: "(uint32_t \<Rightarrow> addr) \<Rightarrow> mem \<Rightarrow> memory_map_t \<Rightarrow> bool" where
  "row_mapped slot m mp \<longleftrightarrow> (\<forall>i < row_end mp - row_first mp.
    load32 m (slot (row_page mp i)) = page_at (map_pstart mp) i OR map_perm mp OR PTE_P)"

definition row_before :: "memory_map_t \<Rightarrow> memory_map_t \<Rightarrow> bool" where
  "row_before x y \<longleftrightarrow> row_end x \<le> row_first y"

definition row_free :: "(uint32_t \<Rightarrow> addr) \<Rightarrow> mem \<Rightarrow> memory_map_t \<Rightarrow> bool" where
  "row_free slot m mp \<longleftrightarrow> (\<forall>i < row_end mp - row_first mp. \<not> entry_present (load32 m (slot (row_page mp i))))"

lemma row_spec:
  assumes "find_pte_ok find_pte dir slot" and "row_ok mp" and "row_free slot (ram s) mp"
  shows "\<exists>s'. memory_create_map find_pte dir (row_base mp) (map_pstart mp) (map_page_count mp) (map_perm mp) s = Done (0, s') \<and>
    row_mapped slot (ram s') mp \<and>
    (\<forall>w. (\<forall>i < row_end mp - row_first mp. unat w div 4096 \<noteq> row_first mp + i) \<longrightarrow> load32 (ram s') (slot w) = load32 (ram s) (slot w))"
  using map_pages_spec [OF assms(1) row_fits [OF assms(2)], of s "map_pstart mp" "map_perm mp"] assms(3)
  by (simp add: memory_create_map_def row_count [OF assms(2)] row_mapped_def row_free_def row_page_def row_base_page [OF assms(2)])

text \<open>A row that lies apart from another keeps what that one has mapped, or left free.\<close>

lemma row_keeps:
  assumes "row_ok x" and "row_ok y" and "row_before x y \<or> row_before y x"
    and "\<forall>w. (\<forall>i < row_end x - row_first x. unat w div 4096 \<noteq> row_first x + i) \<longrightarrow> load32 m' (slot w) = load32 m (slot w)"
    and "i < row_end y - row_first y"
  shows "load32 m' (slot (row_page y i)) = load32 m (slot (row_page y i))"
proof -
  have "unat (row_page y i) div 4096 = row_first y + i" using row_page_number [OF assms(2,5)] by simp
  moreover have "row_first y + i \<noteq> row_first x + j" if "j < row_end x - row_first x" for j
    using assms(3,5) that by (auto simp: row_before_def)
  ultimately show ?thesis using assms(4) by simp
qed

lemma map_entries_spec:
  assumes "find_pte_ok find_pte dir slot" and "\<forall>mp \<in> set maps. row_ok mp \<and> row_free slot (ram s) mp" and "sorted_wrt row_before maps"
  shows "\<exists>s'. map_entries find_pte dir maps s = Done s' \<and> (\<forall>mp \<in> set maps. row_mapped slot (ram s') mp) \<and>
    (\<forall>y. row_ok y \<and> (\<forall>x \<in> set maps. row_before x y \<or> row_before y x) \<longrightarrow>
      (\<forall>i < row_end y - row_first y. load32 (ram s') (slot (row_page y i)) = load32 (ram s) (slot (row_page y i))))"
  using assms(2,3)
proof (induction maps arbitrary: s)
  case (Cons mp maps)
  have ok: "row_ok mp" "row_free slot (ram s) mp" using Cons.prems(1) by simp_all
  from row_spec [OF assms(1) ok] obtain s1 where
    s1: "memory_create_map find_pte dir (row_base mp) (map_pstart mp) (map_page_count mp) (map_perm mp) s = Done (0, s1)"
      "row_mapped slot (ram s1) mp"
      "\<forall>w. (\<forall>i < row_end mp - row_first mp. unat w div 4096 \<noteq> row_first mp + i) \<longrightarrow> load32 (ram s1) (slot w) = load32 (ram s) (slot w)"
    by blast
  note keep = row_keeps [OF ok(1) _ _ s1(3)]
  have before: "row_before mp y" if "y \<in> set maps" for y using Cons.prems(2) that by simp
  have "\<forall>y \<in> set maps. row_ok y \<and> row_free slot (ram s1) y"
    using Cons.prems(1) keep before by (simp add: row_free_def)
  with Cons.IH [of s1] Cons.prems(2) obtain s' where
    s': "map_entries find_pte dir maps s1 = Done s'" "\<forall>y \<in> set maps. row_mapped slot (ram s') y"
      "\<forall>y. row_ok y \<and> (\<forall>x \<in> set maps. row_before x y \<or> row_before y x) \<longrightarrow>
        (\<forall>i < row_end y - row_first y. load32 (ram s') (slot (row_page y i)) = load32 (ram s1) (slot (row_page y i)))" by auto
  have "row_mapped slot (ram s') mp" using s1(2) s'(3) ok(1) before by (simp add: row_mapped_def)
  moreover have "load32 (ram s') (slot (row_page y i)) = load32 (ram s) (slot (row_page y i))"
    if "row_ok y" "\<forall>x \<in> set (mp # maps). row_before x y \<or> row_before y x" "i < row_end y - row_first y" for y i
    using that s'(3) keep [of y i] by simp
  ultimately show ?case using s1(1) s' by (simp add: row_base_def)
qed (simp add: row_mapped_def)

section \<open>The rows of the kernel\<close>

text \<open>The sections of the kernel, in the order of the linker script, start and end on page boundaries.\<close>

definition sections_ok :: "uint32_t \<Rightarrow> uint32_t \<Rightarrow> uint32_t \<Rightarrow> uint32_t \<Rightarrow> uint32_t \<Rightarrow> uint32_t \<Rightarrow> bool" where
  "sections_ok kernel_base s_text e_text s_data disp_addr disp_end \<longleftrightarrow>
    kernel_base \<le> s_text \<and> s_text \<le> e_text \<and> e_text \<le> s_data \<and> s_data < MEM_EBDA_START \<and>
    MEM_EBDA_START \<le> disp_addr \<and> disp_addr < disp_end \<and> disp_end \<le> MEM_EXT_START \<and>
    4096 dvd unat s_text \<and> 4096 dvd unat e_text \<and> 4096 dvd unat disp_end"

lemma kernel_rows:
  assumes "sections_ok kernel_base s_text e_text s_data disp_addr disp_end"
  shows "\<forall>mp \<in> set (kernel_map kernel_base s_text e_text s_data disp_addr disp_end video_base). row_ok mp"
    and "sorted_wrt row_before (kernel_map kernel_base s_text e_text s_data disp_addr disp_end video_base)"
proof -
  note D = assms(1) [unfolded sections_ok_def mem_consts word_le_nat_alt word_less_nat_alt]
  have sub: "unat (disp_end - 1) = unat disp_end - 1" using D by (subst unat_sub) (auto simp: word_le_nat_alt)
  have up: "(n + 4095) div 4096 = n div 4096" if "4096 dvd n" for n :: nat using that by (auto elim!: dvdE)
  have last: "(unat disp_end - 1 + 4095) div 4096 = unat disp_end div 4096"
  proof -
    from D obtain k where "unat disp_end = 4096 * k" "0 < k" by (auto elim!: dvdE)
    then show ?thesis by (cases k) auto
  qed
  have mono: "unat s_text div 4096 \<le> unat e_text div 4096" "unat e_text div 4096 \<le> unat s_data div 4096"
    "unat s_data div 4096 \<le> 0x80" "0x80 \<le> unat disp_addr div 4096" "unat disp_addr div 4096 \<le> unat disp_end div 4096"
    "unat disp_end div 4096 \<le> 0x100"
    using D div_le_mono [of "unat s_data" "0x80000" 4096] div_le_mono [of "0x80000" "unat disp_addr" 4096]
      div_le_mono [of "unat disp_end" "0x100000" 4096] by (auto intro: div_le_mono)
  show "\<forall>mp \<in> set (kernel_map kernel_base s_text e_text s_data disp_addr disp_end video_base). row_ok mp"
    using D sub by (auto simp: kernel_map_def row_ok_def mem_consts)
  show "sorted_wrt row_before (kernel_map kernel_base s_text e_text s_data disp_addr disp_end video_base)"
    using D sub up last mono by (simp add: kernel_map_def row_before_def row_end_def row_first_def mem_consts)
qed

lemma cleared:
  assumes "kernel_page_dir \<noteq> NULL"
  shows "create_kernel_table find_pte kernel_page_dir maps s =
    Some (map_entries find_pte kernel_page_dir maps (set_ram (write_bytes kernel_page_dir (replicate (4 * PDE_CNT) 0) (ram s)) s))"
  using kernel_memset_eq [OF assms, of 0 "4 * PDE_CNT" "ram s"] by (simp add: create_kernel_table_def mult.commute)

text \<open>
  \<open>create_kernel_table\<close> maps the kernel.  With sections on page boundaries in the order of the linker
  script, and tables without entries once the directory is cleared, it runs through all five rows: every
  page of the kernel's stack, code and data, of the screen and of the extended memory gets the entry of
  its physical page with the permissions of its row and the present bit.
\<close>

theorem create_kernel_table_maps:
  assumes "find_pte_ok find_pte kernel_page_dir slot" and "kernel_page_dir \<noteq> NULL"
    and "sections_ok kernel_base s_text e_text s_data disp_addr disp_end"
    and "\<forall>v. \<not> entry_present (load32 (write_bytes kernel_page_dir (replicate (4 * PDE_CNT) 0) (ram s)) (slot v))"
  shows "\<exists>s'. create_kernel_table find_pte kernel_page_dir
      (kernel_map kernel_base s_text e_text s_data disp_addr disp_end video_base) s = Some (Done s') \<and>
    (\<forall>mp \<in> set (kernel_map kernel_base s_text e_text s_data disp_addr disp_end video_base).
      \<forall>i < row_end mp - row_first mp.
        load32 (ram s') (slot (row_page mp i)) = page_at (map_pstart mp) i OR map_perm mp OR PTE_P)"
proof -
  note rows = kernel_rows [OF assms(3), of video_base]
  let ?s = "set_ram (write_bytes kernel_page_dir (replicate (4 * PDE_CNT) 0) (ram s)) s"
  have "\<forall>mp \<in> set (kernel_map kernel_base s_text e_text s_data disp_addr disp_end video_base). row_ok mp \<and> row_free slot (ram ?s) mp"
    using rows(1) assms(4) by (simp add: row_free_def)
  from map_entries_spec [OF assms(1) this rows(2)] show ?thesis
    unfolding cleared [OF assms(2)] row_mapped_def by blast
qed

definition sample_dir :: mst where
  "sample_dir = set_ram (\<lambda>_. 0) sample_mst"

lemma sample_dir_clear: "\<not> entry_present (load32 (write_bytes 0x200000 (replicate (4 * PDE_CNT) 0) (ram sample_dir)) p)"
proof -
  have "(\<lambda>_. 0)(q := 0) = (\<lambda>_. 0 :: uint8_t)" for q :: addr by auto
  then have "write_bytes q (replicate n 0) (\<lambda>_. 0) = (\<lambda>_. 0)" for q n by (induction n arbitrary: q) simp_all
  then show ?thesis by (simp add: sample_dir_def load32_def entry_present_bit)
qed

theorem create_kernel_table_maps_witness:
  "\<exists>s'. create_kernel_table linear_find_pte 0x200000 (kernel_map 0 0x10000 0x14000 0x15000 0xB8000 0xC0000 0xB8000) sample_dir =
       Some (Done s') \<and>
     load32 (ram s') (linear_slot (row_page \<lparr>map_vstart = 0x10000, map_vend = 0x14000, map_pstart = 0x10000, map_perm = 0\<rparr> 3)) = 0x13001"
proof -
  let ?mp = "\<lparr>map_vstart = 0x10000, map_vend = 0x14000, map_pstart = 0x10000, map_perm = 0\<rparr>"
  have "sections_ok 0 0x10000 0x14000 0x15000 0xB8000 0xC0000" by (simp add: sections_ok_def mem_consts)
  then obtain s' where
    s': "create_kernel_table linear_find_pte 0x200000 (kernel_map 0 0x10000 0x14000 0x15000 0xB8000 0xC0000 0xB8000) sample_dir =
       Some (Done s')"
    and rows: "\<forall>mp \<in> set (kernel_map 0 0x10000 0x14000 0x15000 0xB8000 0xC0000 0xB8000). \<forall>i < row_end mp - row_first mp.
      load32 (ram s') (linear_slot (row_page mp i)) = page_at (map_pstart mp) i OR map_perm mp OR PTE_P"
    using create_kernel_table_maps [OF linear_find_pte_ok, of "0x200000" 0 "0x10000" "0x14000" "0x15000" "0xB8000" "0xC0000" sample_dir "0xB8000"]
      sample_dir_clear by auto
  have "?mp \<in> set (kernel_map 0 0x10000 0x14000 0x15000 0xB8000 0xC0000 0xB8000)" by (simp add: kernel_map_def)
  moreover have "3 < row_end ?mp - row_first ?mp" by (simp add: row_end_def row_first_def)
  ultimately have "load32 (ram s') (linear_slot (row_page ?mp 3)) = page_at (map_pstart ?mp) 3 OR map_perm ?mp OR PTE_P"
    using rows by blast
  with s' show ?thesis by (auto simp: page_at_def MEM_PAGE_SIZE_def PTE_P_def)
qed

lemma round_up_inside:
  assumes "0 < n mod (4096 :: nat)"
  shows "(n + 4095) div 4096 = Suc (n div 4096)"
proof -
  have "n + 4095 = (n mod 4096 - 1) + Suc (n div 4096) * 4096" using div_mult_mod_eq [of n 4096] assms by simp
  also have "((n mod 4096 - 1) + Suc (n div 4096) * 4096) div 4096 = Suc (n div 4096) + (n mod 4096 - 1) div 4096"
    by (rule div_mult_self1) simp
  also have "(n mod 4096 - 1) div 4096 = 0" by (rule div_less) (simp add: less_imp_diff_less)
  finally show ?thesis by simp
qed

text \<open>
  The linker script places the data right behind the code, with no alignment in between.  When that
  boundary is inside a page, the page belongs to the row of the code and to the row of the data, and
  the assertion of \<open>memory_create_map\<close> fails.
\<close>

theorem create_kernel_table_shared_page:
  assumes "find_pte_ok find_pte kernel_page_dir slot" and "kernel_page_dir \<noteq> NULL"
    and "kernel_base \<le> s_text" "s_text < e_text" "e_text < MEM_EBDA_START" "4096 dvd unat s_text" "\<not> 4096 dvd unat e_text"
    and "\<forall>v. \<not> entry_present (load32 (write_bytes kernel_page_dir (replicate (4 * PDE_CNT) 0) (ram s)) (slot v))"
  shows "create_kernel_table find_pte kernel_page_dir
    (kernel_map kernel_base s_text e_text e_text disp_addr disp_end video_base) s = Some Panic"
proof -
  let ?s = "set_ram (write_bytes kernel_page_dir (replicate (4 * PDE_CNT) 0) (ram s)) s"
  let ?stack = "\<lparr>map_vstart = kernel_base, map_vend = s_text, map_pstart = 0, map_perm = PTE_W\<rparr>"
  let ?code = "\<lparr>map_vstart = s_text, map_vend = e_text, map_pstart = s_text, map_perm = 0\<rparr>"
  let ?data = "\<lparr>map_vstart = e_text, map_vend = MEM_EBDA_START - 1, map_pstart = e_text, map_perm = PTE_W\<rparr>"
  let ?k = "unat e_text div 4096 - unat s_text div 4096"
  have D: "unat kernel_base \<le> unat s_text" "unat s_text < unat e_text" "unat e_text < 0x80000"
    using assms(3-5) by (simp_all add: word_le_nat_alt word_less_nat_alt mem_consts)
  have ok: "row_ok ?stack" "row_ok ?code" "row_ok ?data" using D by (simp_all add: row_ok_def mem_consts)
  have top: "(unat e_text + 4095) div 4096 = Suc (unat e_text div 4096)" "unat s_text div 4096 \<le> unat e_text div 4096"
    using round_up_inside [of "unat e_text"] assms(7) D by (simp_all add: dvd_eq_mod_eq_0 div_le_mono)
  have "row_before ?stack ?code" using assms(6) by (auto simp: row_before_def row_end_def row_first_def elim!: dvdE)
  moreover have "row_free slot (ram ?s) mp" for mp using assms(8) by (simp add: row_free_def)
  ultimately obtain s1 where s1: "map_entries find_pte kernel_page_dir [?stack, ?code] ?s = Done s1" "row_mapped slot (ram s1) ?code"
    using map_entries_spec [OF assms(1), of "[?stack, ?code]" ?s] ok by auto
  have k: "?k < row_end ?code - row_first ?code" "0 < row_end ?data - row_first ?data"
    using top D by (simp_all add: row_end_def row_first_def mem_consts less_diff_conv)
  have "unat (row_page ?code ?k) = unat (row_page ?data 0)"
    using row_page_number [OF ok(2) k(1)] row_page_number [OF ok(3) k(2)] top(2) by (simp add: row_first_def)
  then have "row_page ?code ?k = row_base ?data" by (simp add: row_page_def word_unat_eq_iff)
  moreover have "entry_present (x OR y OR PTE_P)" for x y by (simp add: entry_present_bit PTE_P_def bit_or_iff)
  ultimately have "entry_present (load32 (ram s1) (slot (page_at (row_base ?data) 0)))"
    using s1(2) k(1) unfolding row_mapped_def by (metis page_at_simps(1))
  from map_pages_panics [OF assms(1) row_fits [OF ok(3)] k(2) this] have
    "memory_create_map find_pte kernel_page_dir (row_base ?data) e_text (map_page_count ?data) PTE_W s1 = Panic"
    by (simp add: memory_create_map_def row_count [OF ok(3)])
  then have "map_entries find_pte kernel_page_dir (?data # rest) s1 = Panic" for rest by (simp add: row_base_def)
  moreover have "map_entries find_pte kernel_page_dir (xs @ ys) s = Panic"
    if "map_entries find_pte kernel_page_dir xs s = Done s'" "map_entries find_pte kernel_page_dir ys s' = Panic" for xs ys s s'
    using that by (induction xs arbitrary: s) (auto split: checked.splits)
  note append = this [OF s1(1)]
  ultimately show ?thesis
    unfolding cleared [OF assms(2)] kernel_map_def using append [of "?data # _"] by simp
qed

theorem create_kernel_table_shared_page_witness:
  "create_kernel_table linear_find_pte 0x200000 (kernel_map 0 0x10000 0x14010 0x14010 0xB8000 0xC0000 0xB8000) sample_dir = Some Panic"
proof -
  have "\<not> 4096 dvd (0x14010 :: nat)" by (simp add: dvd_eq_mod_eq_0)
  then show ?thesis
    using create_kernel_table_shared_page [OF linear_find_pte_ok, of "0x200000" 0 "0x10000" "0x14010" sample_dir "0xB8000" "0xC0000" "0xB8000"]
      sample_dir_clear by (simp add: mem_consts)
qed

end
