(* ===== verification/Loader.thy ===== *)
theory Loader
  imports Mmu Klib Boot_Info
begin

text \<open>
  The second-stage loader: \<open>src/source/loader/loader_16.c\<close>, which asks the BIOS for the memory map and
  enters protected mode, and \<open>src/source/loader/loader_32.c\<close>, which reads the kernel from the disk,
  places the segments of its ELF image (\<open>src/source/comm/elf.h\<close>), turns paging on and calls it.

  The BIOS and the disk are devices.  \<open>e820 i contID\<close> is what the \<open>i\<close>-th call of the memory-map service
  with this continuation value leaves in the registers and in the entry; \<open>status\<close> and \<open>data\<close> give the values
  of successive reads of the disk's status and data ports.
\<close>

section \<open>State\<close>

record SMAP_entry_t =
  BaseL :: uint32_t
  BaseH :: uint32_t
  LengthL :: uint32_t
  LengthH :: uint32_t
  SType :: uint32_t
  ACPI :: uint32_t

record ldr = machine +
  lmem :: mem
  boot_info :: boot_info_t
  screen :: "uint8_t list"

section \<open>The boot sector\<close>

text \<open>\<open>src/source/boot/boot.c\<close> calls the loader at the address to which \<open>start.S\<close> has read it from the disk.\<close>

definition LOADER_START_ADDR :: uint32_t where "LOADER_START_ADDR = 0x8000"

definition boot_entry :: uint32_t where "boot_entry = LOADER_START_ADDR"

section \<open>Real mode\<close>

text \<open>The bytes of a string go to the screen one by one, through the teletype service of the BIOS.\<close>

definition show_msg :: "uint8_t list \<Rightarrow> ldr \<Rightarrow> ldr" where
  "show_msg msg s = s\<lparr>screen := screen s @ msg\<rparr>"

definition msg_bytes :: "string \<Rightarrow> uint8_t list" where
  "msg_bytes = map of_char"

definition digit_char :: "int \<Rightarrow> uint8_t" where
  "digit_char i = (if i > 9 then word_of_int (i - 10) + of_char CHR ''a'' else word_of_int i + of_char CHR ''0'')"

partial_function (option) str_digits :: "int \<Rightarrow> int \<Rightarrow> addr \<Rightarrow> mem \<Rightarrow> (addr \<times> mem) option" where
  "str_digits num base p m =
    (let m1 = m(p := digit_char (num smod base));
         num1 = num sdiv base
     in if num1 \<noteq> 0 then str_digits num1 base (p + 1) m1 else Some (p + 1, m1))"

text \<open>The reversal swaps the ends of the string as \<open>kernel_itoa\<close> does, but from the sign on.\<close>

definition int_to_str :: "int \<Rightarrow> addr \<Rightarrow> int \<Rightarrow> mem \<Rightarrow> mem option" where
  "int_to_str num buffer base m =
    (let (num1, p, m1) =
       (if num < 0 then (- num, buffer + 1, m(buffer := of_char CHR ''-'')) else (num, buffer, m))
     in Option.bind (str_digits num1 base p m1)
          (\<lambda>(p2, m2). reverse_loop buffer (p2 - 1) (m2(p2 := 0))))"

type_synonym bios = "nat \<Rightarrow> uint32_t \<Rightarrow> uint32_t \<times> uint32_t \<times> uint32_t \<times> SMAP_entry_t"

definition SMAP_SIGNATURE :: uint32_t where "SMAP_SIGNATURE = 0x534D4150"

definition record_region :: "SMAP_entry_t \<Rightarrow> boot_info_t \<Rightarrow> boot_info_t" where
  "record_region entry b =
    b\<lparr>ram_region_cfg := (ram_region_cfg b)[nat (ram_region_count b) := (BaseL entry, LengthL entry)],
      ram_region_count := ram_region_count b + 1\<rparr>"

text \<open>
  The loop of \<open>detect_memory\<close>; \<open>n\<close> is the number of rounds left.  Its message shows the number of the
  round, formatted in \<open>buffer\<close>.  The statement under the test of the extended attributes is commented
  out in the source: both branches go on alike.
\<close>

fun detect_loop :: "bios \<Rightarrow> addr \<Rightarrow> nat \<Rightarrow> int \<Rightarrow> uint32_t \<Rightarrow> ldr \<Rightarrow> ldr option" where
  "detect_loop e820 buffer 0 i contID s = Some (show_msg (msg_bytes ''memory detect done'' @ [13, 10]) s)"
| "detect_loop e820 buffer (Suc n) i contID s =
    Option.bind (int_to_str i buffer 10 (lmem s))
      (\<lambda>m. Option.bind (read_cstring buffer m)
        (\<lambda>str.
          let s1 = show_msg (msg_bytes ''BOOT_RAM_REGION_MAX size = '' @ str @ [13, 10]) (s\<lparr>lmem := m\<rparr>);
              (signature, bytes, contID', entry) = e820 (nat i) contID
          in if signature \<noteq> SMAP_SIGNATURE then
               Some (show_msg (msg_bytes ''SMAP signature error'' @ [13, 10]) s1)
             else
               let s1' = (if bytes > 20 \<and> ACPI entry AND 0x0001 = 0 then s1 else s1);
                   s2 = (if SType entry = 1 then s1'\<lparr>boot_info := record_region entry (boot_info s1')\<rparr> else s1')
               in if contID' = 0 then Some (show_msg (msg_bytes ''memory detect done'' @ [13, 10]) s2)
                  else detect_loop e820 buffer n (i + 1) contID' s2))"

definition detect_memory :: "bios \<Rightarrow> addr \<Rightarrow> ldr \<Rightarrow> ldr option" where
  "detect_memory e820 buffer s =
    (let s1 = show_msg (msg_bytes ''try todetect memory:'') s;
         s2 = s1\<lparr>boot_info := (boot_info s1)\<lparr>ram_region_count := 0\<rparr>\<rparr>
     in detect_loop e820 buffer (nat BOOT_RAM_REGION_MAX) 0 0 s2)"

text \<open>Where the processor goes on: selector and offset of the far jump.\<close>

definition enter_protected_mode :: "uint32_t \<Rightarrow> uint32_t \<Rightarrow> ldr \<Rightarrow> (uint16_t \<times> uint32_t) \<times> ldr" where
  "enter_protected_mode gdt_table protected_mode_entry s =
    (let s1 = cli s;
         v = inb 0x92 s1;
         s2 = outb 0x92 (v OR 0x2) s1;
         s3 = lgdt gdt_table 24 s2;
         cr = (ucast (read_cr0 s3) :: uint32_t) OR 0x1;
         s4 = write_cr0 cr s3
     in (far_jump 8 protected_mode_entry, s4))"

definition loader_gdt :: "uint16_t list list" where
  "loader_gdt = [[0, 0, 0, 0], [0xFFFF, 0x0000, 0x9A00, 0x00CF], [0xFFFF, 0x0000, 0x9200, 0x00CF]]"

definition loader_entry :: "bios \<Rightarrow> addr \<Rightarrow> uint32_t \<Rightarrow> uint32_t \<Rightarrow> ldr \<Rightarrow> ((uint16_t \<times> uint32_t) \<times> ldr) option" where
  "loader_entry e820 buffer gdt_table protected_mode_entry s =
    map_option (enter_protected_mode gdt_table protected_mode_entry)
      (detect_memory e820 buffer (show_msg (msg_bytes ''.....lodaDING......'' @ [10, 13]) s))"

section \<open>Numbers\<close>

definition digit_text :: "int \<Rightarrow> int \<Rightarrow> uint8_t list" where
  "digit_text num base = map (\<lambda>d. digit_char (int d)) (rdigits (nat base) (nat \<bar>num\<bar>))"

lemma str_digits_eq:
  assumes "1 < base" and "0 \<le> num"
  shows "str_digits num base p m =
    Some (p + of_nat (length (digit_text num base)), write_bytes p (digit_text num base) m)"
  using assms(2)
proof (induction "nat num" arbitrary: num p m rule: less_induct)
  case less
  have sd: "num smod base = num mod base" "num sdiv base = num div base"
    using assms(1) less.prems
    by (simp_all add: signed_divide_int_def signed_modulo_int_def minus_div_mult_eq_mod sgn_if)
  show ?case
  proof (cases "num < base")
    case True
    then have "rdigits (nat base) (nat \<bar>num\<bar>) = [nat num]"
      using less.prems by (simp add: rdigits.simps)
    with True less.prems show ?thesis
      by (simp add: str_digits.simps [of num] sd digit_text_def fun_upd_def)
  next
    case False
    have pos: "0 < num div base" using False assms(1) by (simp add: pos_imp_zdiv_pos_iff)
    have "num div base < num" using False assms(1) by (intro int_div_less_self) auto
    then have lt: "nat (num div base) < nat num" using less.prems pos by simp
    have "\<not> nat num < nat base" and "\<not> nat base < 2" using False assms(1) by auto
    then have "rdigits (nat base) (nat num) = (nat num mod nat base) # rdigits (nat base) (nat num div nat base)"
      by (simp add: rdigits.simps [of "nat base" "nat num"])
    then have dt: "digit_text num base = digit_char (num mod base) # digit_text (num div base) base"
      using assms(1) less.prems pos
      by (simp add: digit_text_def nat_div_distrib zmod_int)
    have nz: "num div base \<noteq> 0" using pos by simp
    have step: "str_digits num base p m = str_digits (num div base) base (p + 1) (m(p := digit_char (num mod base)))"
      using nz by (subst str_digits.simps) (simp only: Let_def sd if_True simp_thms not_False_eq_True)
    have "0 \<le> num div base" using pos by simp
    from less.hyps [OF lt this] step dt show ?thesis by (simp add: algebra_simps)
  qed
qed

lemma int_to_str_eq:
  assumes "1 < base" and "unat buffer + Suc (length (digit_text num base)) < 2 ^ 32"
  shows "int_to_str num buffer base m =
    Some (write_bytes buffer (rev (digit_text num base) @ (if num < 0 then [of_char CHR ''-''] else []) @ [0]) m)"
proof -
  let ?t = "digit_text num base"
  let ?ds = "(if num < 0 then [of_char CHR ''-''] else []) @ ?t"
  have neg: "digit_text (- num) base = ?t" by (simp add: digit_text_def)
  have ne: "?ds \<noteq> []" by (simp add: digit_text_def rdigits_nonempty)
  have "unat buffer + length ?ds < 2 ^ 32" using assms(2) by simp
  note rv = reverse_terminated [OF this ne, of m]
  show ?thesis
  proof (cases "num < 0")
    case True
    then have "int_to_str num buffer base m =
        reverse_loop buffer (buffer + of_nat (length ?ds) - 1) ((write_bytes buffer ?ds m)(buffer + of_nat (length ?ds) := 0))"
      using str_digits_eq [OF assms(1), of "- num"] neg by (simp add: int_to_str_def fun_upd_def algebra_simps)
    with rv True show ?thesis by simp
  next
    case False
    then show ?thesis using str_digits_eq [OF assms(1), of num] rv by (simp add: int_to_str_def)
  qed
qed

text \<open>
  \<open>int_to_str\<close> puts the sign of a negative number behind its digits: the reversal starts at the sign
  and not behind it.  For \<open>num < 0\<close> the buffer ends up with the digits of the absolute value followed by
  a minus sign, whereas for other numbers it holds the digits.
\<close>

theorem int_to_str_sign_last:
  assumes "base = 10 \<or> base = 16" and "unat buffer + Suc (length (digit_text num base)) < 2 ^ 32"
  shows "\<exists>m'. int_to_str num buffer base m = Some m' \<and>
    cstring m' buffer (rev (digit_text num base) @ (if num < 0 then [of_char CHR ''-''] else []))"
proof -
  let ?t = "rev (digit_text num base) @ (if num < 0 then [of_char CHR ''-''] else [])"
  have "digit_char (int d) \<noteq> 0" if "d \<in> set (rdigits (nat base) (nat \<bar>num\<bar>))" for d
  proof -
    have "d < 16" using rdigits_bound [OF _ that] assms(1) by auto
    then show ?thesis by (drule_tac less_16_cases) (auto simp: digit_char_def)
  qed
  then have "0 \<notin> set ?t" by (auto simp: digit_text_def)
  moreover have "bytes_at (write_bytes buffer (?t @ [0]) m) buffer (?t @ [0])"
    using assms(2) by (intro bytes_at_write) simp
  ultimately show ?thesis
    using int_to_str_eq [of base buffer num m] assms by (auto simp: cstring_def)
qed

theorem int_to_str_sign_last_witness:
  "\<exists>m'. int_to_str (- 12) 0x100 10 (\<lambda>_. 0) = Some m' \<and> cstring m' 0x100 (map of_char ''12-'')"
proof -
  have "rdigits 10 12 = [2, 1]" by (simp add: rdigits.simps)
  then have "digit_text (- 12) 10 = [50, 49]" by (simp add: digit_text_def digit_char_def)
  with int_to_str_sign_last [of 10 "0x100" "- 12" "\<lambda>_. 0"] show ?thesis by simp
qed

section \<open>The memory map\<close>

text \<open>The entries that the BIOS reports in at most \<open>n\<close> calls, and the usable ones among them.\<close>

fun reported :: "bios \<Rightarrow> nat \<Rightarrow> nat \<Rightarrow> uint32_t \<Rightarrow> SMAP_entry_t list" where
  "reported e820 0 i contID = []"
| "reported e820 (Suc n) i contID =
    (let (signature, bytes, contID', entry) = e820 i contID
     in if signature \<noteq> SMAP_SIGNATURE then []
        else entry # (if contID' = 0 then [] else reported e820 n (Suc i) contID'))"

definition usable :: "SMAP_entry_t list \<Rightarrow> (uint32_t \<times> uint32_t) list" where
  "usable es = map (\<lambda>e. (BaseL e, LengthL e)) (filter (\<lambda>e. SType e = 1) es)"

definition room :: "nat \<Rightarrow> boot_info_t \<Rightarrow> bool" where
  "room n b \<longleftrightarrow> length (ram_region_cfg b) = nat BOOT_RAM_REGION_MAX \<and> 0 \<le> ram_region_count b \<and>
    ram_region_count b + int n \<le> BOOT_RAM_REGION_MAX"

lemma record_region_room:
  assumes "room (Suc n) b"
  shows "room n (record_region e b) \<and>
    valid_regions (record_region e b) = valid_regions b @ [(BaseL e, LengthL e)]"
proof -
  have lt: "nat (ram_region_count b) < length (ram_region_cfg b)"
    using assms by (simp add: room_def boot_consts nat_less_iff)
  have "nat (ram_region_count b + 1) = Suc (nat (ram_region_count b))" using assms by (auto simp: room_def)
  with lt assms show ?thesis
    by (simp add: room_def record_region_def valid_regions_def take_Suc_conv_app_nth take_update_cancel)
qed

lemma room_less: "room (Suc n) b \<Longrightarrow> room n b"
  by (simp add: room_def)

lemma round_text:
  assumes "0 \<le> i" and "i < 10" and "unat buffer + 3 \<le> 2 ^ 32"
  shows "\<exists>m'. int_to_str i buffer 10 m = Some m' \<and> read_cstring buffer m' = Some [digit_char i] \<and>
    (\<forall>a. a \<notin> span buffer 2 \<longrightarrow> m' a = m a)"
proof -
  have dt: "digit_text i 10 = [digit_char i]" using assms by (simp add: digit_text_def rdigits.simps)
  let ?m = "write_bytes buffer ([digit_char i] @ [0]) m"
  have eq: "int_to_str i buffer 10 m = Some ?m"
    using int_to_str_eq [of 10 buffer i m] assms dt by simp
  have "digit_char i \<noteq> 0"
  proof -
    have "nat i < 16" using assms by simp
    then show ?thesis using assms by (drule_tac less_16_cases) (auto simp: digit_char_def nat_eq_iff)
  qed
  moreover have "bytes_at ?m buffer ([digit_char i] @ [0])" by (rule bytes_at_write) simp
  ultimately have "cstring ?m buffer [digit_char i]" by (simp add: cstring_def)
  moreover have "?m a = m a" if "a \<notin> span buffer 2" for a
    using that by (intro write_bytes_other) (simp add: numeral_2_eq_2)
  ultimately show ?thesis using eq read_cstring_eq by blast
qed

text \<open>One round: the state after its message, and after the region has been recorded.\<close>

lemma detect_round:
  assumes room: "room (Suc n) (boot_info s)" and i: "0 \<le> i" "i < 10" and buffer: "unat buffer + 3 \<le> 2 ^ 32"
    and bios: "e820 (nat i) contID = (signature, bytes, contID', entry)"
  shows "\<exists>s1 s2. detect_loop e820 buffer (Suc n) i contID s =
      (if signature \<noteq> SMAP_SIGNATURE then Some (show_msg (msg_bytes ''SMAP signature error'' @ [13, 10]) s1)
       else if contID' = 0 then Some (show_msg (msg_bytes ''memory detect done'' @ [13, 10]) s2)
       else detect_loop e820 buffer n (i + 1) contID' s2) \<and>
    boot_info s1 = boot_info s \<and> room n (boot_info s2) \<and>
    valid_regions (boot_info s2) = valid_regions (boot_info s) @ usable [entry] \<and>
    (\<forall>a. a \<notin> span buffer 2 \<longrightarrow> lmem s1 a = lmem s a \<and> lmem s2 a = lmem s a)"
proof -
  obtain m str where m: "int_to_str i buffer 10 (lmem s) = Some m" "read_cstring buffer m = Some str"
      "\<forall>a. a \<notin> span buffer 2 \<longrightarrow> m a = lmem s a"
    using round_text [of i buffer "lmem s"] i buffer by auto
  let ?s1 = "show_msg (msg_bytes ''BOOT_RAM_REGION_MAX size = '' @ str @ [13, 10]) (s\<lparr>lmem := m\<rparr>)"
  let ?s2 = "if SType entry = 1 then ?s1\<lparr>boot_info := record_region entry (boot_info ?s1)\<rparr> else ?s1"
  have info: "boot_info ?s1 = boot_info s" "lmem ?s1 = m" "lmem ?s2 = m" by (simp_all add: show_msg_def)
  have "room n (boot_info ?s2)" "valid_regions (boot_info ?s2) = valid_regions (boot_info s) @ usable [entry]"
    using record_region_room [OF room, of entry] room_less [OF room] info by (simp_all add: usable_def)
  moreover have "detect_loop e820 buffer (Suc n) i contID s =
      (if signature \<noteq> SMAP_SIGNATURE then Some (show_msg (msg_bytes ''SMAP signature error'' @ [13, 10]) ?s1)
       else if contID' = 0 then Some (show_msg (msg_bytes ''memory detect done'' @ [13, 10]) ?s2)
       else detect_loop e820 buffer n (i + 1) contID' ?s2)"
    using m bios by (simp only: detect_loop.simps bind.bind_lunit Let_def prod.case if_cancel)
  ultimately show ?thesis using m(3) info by (intro exI [of _ ?s1] exI [of _ ?s2]) (simp del: span.simps)
qed

lemma detect_loop_spec:
  assumes "room n (boot_info s)" and "0 \<le> i" and "i + int n \<le> 10" and "unat buffer + 3 \<le> 2 ^ 32"
  shows "\<exists>s'. detect_loop e820 buffer n i contID s = Some s' \<and> room 0 (boot_info s') \<and>
    valid_regions (boot_info s') = valid_regions (boot_info s) @ usable (reported e820 n (nat i) contID) \<and>
    (\<forall>a. a \<notin> span buffer 2 \<longrightarrow> lmem s' a = lmem s a)"
  using assms(1-3)
proof (induction n arbitrary: i contID s)
  case 0
  then show ?case by (simp add: show_msg_def usable_def)
next
  case (Suc n)
  obtain signature bytes contID' entry where bios: "e820 (nat i) contID = (signature, bytes, contID', entry)"
    by (cases "e820 (nat i) contID") auto
  have "i < 10" using Suc.prems(3) by simp
  from detect_round [where n = n and s = s and ?e820.0 = e820, OF Suc.prems(1,2) this assms(4) bios] obtain s1 s2 where
    loop: "detect_loop e820 buffer (Suc n) i contID s =
      (if signature \<noteq> SMAP_SIGNATURE then Some (show_msg (msg_bytes ''SMAP signature error'' @ [13, 10]) s1)
       else if contID' = 0 then Some (show_msg (msg_bytes ''memory detect done'' @ [13, 10]) s2)
       else detect_loop e820 buffer n (i + 1) contID' s2)"
    and s: "boot_info s1 = boot_info s" "room n (boot_info s2)"
      "valid_regions (boot_info s2) = valid_regions (boot_info s) @ usable [entry]"
      "\<forall>a. a \<notin> span buffer 2 \<longrightarrow> lmem s1 a = lmem s a \<and> lmem s2 a = lmem s a" by blast
  have zero: "room 0 b" if "room k b" for k b using that by (simp add: room_def)
  have msg: "boot_info (show_msg x t) = boot_info t" "lmem (show_msg x t) = lmem t" for x t by (simp_all add: show_msg_def)
  have next_round: "nat (i + 1) = Suc (nat i)" using Suc.prems(2) by simp
  from Suc.IH [OF s(2), of "i + 1" contID'] Suc.prems(2,3) obtain s' where
    s': "detect_loop e820 buffer n (i + 1) contID' s2 = Some s'" "room 0 (boot_info s')"
      "valid_regions (boot_info s') = valid_regions (boot_info s2) @ usable (reported e820 n (Suc (nat i)) contID')"
      "\<forall>a. a \<notin> span buffer 2 \<longrightarrow> lmem s' a = lmem s2 a" by (auto simp: next_round)
  have reg: "usable (reported e820 (Suc n) (nat i) contID) =
      (if signature \<noteq> SMAP_SIGNATURE then [] else usable [entry] @
       (if contID' = 0 then [] else usable (reported e820 n (Suc (nat i)) contID')))"
    by (simp add: bios usable_def)
  show ?case unfolding loop reg using s s' zero [OF Suc.prems(1)] zero [OF s(2)] by (simp add: msg del: span.simps)
qed

lemma detect_memory_effect:
  assumes "length (ram_region_cfg (boot_info s)) = nat BOOT_RAM_REGION_MAX" and "unat buffer + 3 \<le> 2 ^ 32"
  shows "\<exists>s'. detect_memory e820 buffer s = Some s' \<and>
    length (ram_region_cfg (boot_info s')) = nat BOOT_RAM_REGION_MAX \<and>
    0 \<le> ram_region_count (boot_info s') \<and> ram_region_count (boot_info s') \<le> BOOT_RAM_REGION_MAX \<and>
    valid_regions (boot_info s') = usable (reported e820 10 0 0) \<and>
    (\<forall>a. a \<notin> span buffer 2 \<longrightarrow> lmem s' a = lmem s a)"
proof -
  let ?s1 = "show_msg (msg_bytes ''try todetect memory:'') s"
  let ?s2 = "?s1\<lparr>boot_info := (boot_info ?s1)\<lparr>ram_region_count := 0\<rparr>\<rparr>"
  have "room 10 (boot_info ?s2)" using assms(1) by (simp add: room_def show_msg_def boot_consts)
  from detect_loop_spec [OF this, of 0 buffer e820 0] assms(2) obtain s' where
    "detect_loop e820 buffer 10 0 0 ?s2 = Some s'" "room 0 (boot_info s')"
    "valid_regions (boot_info s') = valid_regions (boot_info ?s2) @ usable (reported e820 10 0 0)"
    "\<forall>a. a \<notin> span buffer 2 \<longrightarrow> lmem s' a = lmem ?s2 a" by auto
  then show ?thesis
    by (simp add: detect_memory_def Let_def BOOT_RAM_REGION_MAX_def room_def valid_regions_def)
      (simp add: show_msg_def)
qed

text \<open>
  C39: \<open>detect_memory\<close> terminates for every BIOS, writes no more than its ten entries, and records exactly
  the entries of type 1 among those the BIOS reports, in order, up to the end of the map, the first
  error or the tenth call.  The extended attributes play no part: an entry of type 1 is recorded also
  when its lowest attribute bit is clear, although \<open>loader.h\<close> says that such an entry is to be ignored.
\<close>

theorem detect_memory_regions:
  assumes "length (ram_region_cfg (boot_info s)) = nat BOOT_RAM_REGION_MAX" and "unat buffer + 3 \<le> 2 ^ 32"
  shows "\<exists>s'. detect_memory e820 buffer s = Some s' \<and>
    length (ram_region_cfg (boot_info s')) = nat BOOT_RAM_REGION_MAX \<and>
    0 \<le> ram_region_count (boot_info s') \<and> ram_region_count (boot_info s') \<le> BOOT_RAM_REGION_MAX \<and>
    valid_regions (boot_info s') = usable (reported e820 10 0 0) \<and>
    (\<forall>a. a \<notin> span buffer 2 \<longrightarrow> lmem s' a = lmem s a)"
  using detect_memory_effect [OF assms, of e820] .

definition sample_bios :: bios where
  "sample_bios i contID =
    (if i = 0 then (SMAP_SIGNATURE, 24, 1, \<lparr>BaseL = 0, BaseH = 0, LengthL = 0x9f000, LengthH = 0, SType = 1, ACPI = 0\<rparr>)
     else if i = 1 then (SMAP_SIGNATURE, 20, 2, \<lparr>BaseL = 0xf0000, BaseH = 0, LengthL = 0x10000, LengthH = 0, SType = 2, ACPI = 1\<rparr>)
     else (SMAP_SIGNATURE, 20, 0, \<lparr>BaseL = 0x100000, BaseH = 0, LengthL = 0x7ee0000, LengthH = 0, SType = 1, ACPI = 1\<rparr>))"

definition sample_ldr :: ldr where
  "sample_ldr =
    \<lparr>eflags = 0x202, tr = 0, cr0 = 0x60000010, cr3 = 0, cr4 = 0, gdtr = make_dtr 0 0, idtr = make_dtr 0 0,
     ports = (\<lambda>_. 0), outs = [], lmem = (\<lambda>_. 0),
     boot_info = \<lparr>ram_region_cfg = replicate 10 (0, 0), ram_region_count = 0\<rparr>, screen = []\<rparr>"

theorem detect_memory_regions_witness:
  "\<exists>s'. detect_memory sample_bios 0x500 sample_ldr = Some s' \<and>
     valid_regions (boot_info s') = [(0, 0x9f000), (0x100000, 0x7ee0000)]"
proof -
  \<comment> \<open>The first of the two is reported with 24 bytes and a clear attribute bit.\<close>
  have "reported sample_bios 10 0 0 = map (\<lambda>i. snd (snd (snd (sample_bios i 0)))) [0, 1, 2]"
    by (simp add: eval_nat_numeral sample_bios_def)
  then have "usable (reported sample_bios 10 0 0) = [(0, 0x9f000), (0x100000, 0x7ee0000)]"
    by (simp add: usable_def sample_bios_def)
  with detect_memory_regions [of sample_ldr "0x500" sample_bios] show ?thesis
    by (auto simp: sample_ldr_def boot_consts)
qed

end
