(* ===== verification/Loader_Elf.thy ===== *)
theory Loader_Elf
  imports Loader Interfaces
begin

text \<open>
  The protected-mode half of the loader, \<open>src/source/loader/loader_32.c\<close>: reading sectors, placing the
  segments of the kernel, turning paging on, and the jump into the kernel.
\<close>

section \<open>The disk\<close>

partial_function (option) wait_disk :: "(nat \<Rightarrow> uint8_t) \<Rightarrow> nat \<Rightarrow> nat option" where
  "wait_disk status n = (if status n AND 0x88 \<noteq> 0x8 then wait_disk status (n + 1) else Some (n + 1))"

definition half_bytes :: "uint16_t \<Rightarrow> uint8_t list" where
  "half_bytes v = [ucast v, ucast (drop_bit 8 v)]"

fun read_words :: "(nat \<Rightarrow> uint16_t) \<Rightarrow> nat \<Rightarrow> nat \<Rightarrow> addr \<Rightarrow> mem \<Rightarrow> nat \<times> addr \<times> mem" where
  "read_words data 0 k data_buf m = (k, data_buf, m)"
| "read_words data (Suc i) k data_buf m =
    (let (w, k') = inw data k
     in read_words data i k' (data_buf + 2) (write_bytes data_buf (half_bytes w) m))"

declare inw_def [simp]

text \<open>The loop over the sectors: \<open>n\<close> and \<open>k\<close> count the reads of the status and the data port.\<close>

fun read_sectors ::
    "(nat \<Rightarrow> uint8_t) \<Rightarrow> (nat \<Rightarrow> uint16_t) \<Rightarrow> nat \<Rightarrow> nat \<Rightarrow> nat \<Rightarrow> addr \<Rightarrow> mem \<Rightarrow> mem option" where
  "read_sectors status data 0 n k data_buf m = Some m"
| "read_sectors status data (Suc c) n k data_buf m =
    Option.bind (wait_disk status n)
      (\<lambda>n'. let (k', p, m') = read_words data (SECTOR_SIZE div 2) k data_buf m
            in read_sectors status data c n' k' p m')"

definition disk_command :: "uint32_t \<Rightarrow> uint32_t \<Rightarrow> 'a machine_scheme \<Rightarrow> 'a machine_scheme" where
  "disk_command sector sector_count s0 =
    (let s1 = outb 0x1f6 0xE0 s0;
         s2 = outb 0x1f2 (ucast (drop_bit 8 sector_count)) s1;
         s3 = outb 0x1f3 (ucast (drop_bit 24 sector)) s2;
         s4 = outb 0x1f4 0 s3;
         s5 = outb 0x1f5 0 s4;
         s6 = outb 0x1f2 (ucast sector_count) s5;
         s7 = outb 0x1f3 (ucast sector) s6;
         s8 = outb 0x1f4 (ucast (drop_bit 8 sector)) s7;
         s9 = outb 0x1f5 (ucast (drop_bit 16 sector)) s8
     in outb 0x1f7 0x24 s9)"

definition read_disk ::
    "(nat \<Rightarrow> uint8_t) \<Rightarrow> (nat \<Rightarrow> uint16_t) \<Rightarrow> uint32_t \<Rightarrow> uint32_t \<Rightarrow> addr \<Rightarrow> ldr \<Rightarrow> ldr option" where
  "read_disk status data sector sector_count buffer s =
    (let s1 = disk_command sector sector_count s
     in map_option (\<lambda>m. s1\<lparr>lmem := m\<rparr>)
          (read_sectors status data (unat sector_count) 0 0 buffer (lmem s1)))"

section \<open>The ELF image\<close>

definition ELF_MAGIC :: uint8_t where "ELF_MAGIC = 0x7F"
definition PT_LOAD :: uint32_t where "PT_LOAD = 1"

definition load16 :: "mem \<Rightarrow> addr \<Rightarrow> uint16_t" where
  "load16 m p = ucast (m p) OR push_bit 8 (ucast (m (p + 1)))"

text \<open>Members of the packed structures \<open>Elf32_Ehdr\<close> and \<open>Elf32_Phdr\<close>.\<close>

definition e_entry :: "mem \<Rightarrow> addr \<Rightarrow> uint32_t" where "e_entry m elf_hdr = load32 m (elf_hdr + 24)"
definition e_phoff :: "mem \<Rightarrow> addr \<Rightarrow> uint32_t" where "e_phoff m elf_hdr = load32 m (elf_hdr + 28)"
definition e_phnum :: "mem \<Rightarrow> addr \<Rightarrow> uint16_t" where "e_phnum m elf_hdr = load16 m (elf_hdr + 44)"
definition sizeof_phdr :: addr where "sizeof_phdr = 32"
definition p_type :: "mem \<Rightarrow> addr \<Rightarrow> uint32_t" where "p_type m phdr = load32 m phdr"
definition p_offset :: "mem \<Rightarrow> addr \<Rightarrow> uint32_t" where "p_offset m phdr = load32 m (phdr + 4)"
definition p_paddr :: "mem \<Rightarrow> addr \<Rightarrow> uint32_t" where "p_paddr m phdr = load32 m (phdr + 12)"
definition p_filesz :: "mem \<Rightarrow> addr \<Rightarrow> uint32_t" where "p_filesz m phdr = load32 m (phdr + 16)"
definition p_memsz :: "mem \<Rightarrow> addr \<Rightarrow> uint32_t" where "p_memsz m phdr = load32 m (phdr + 20)"

lemmas elf_members = e_entry_def e_phoff_def e_phnum_def p_type_def p_offset_def p_paddr_def
  p_filesz_def p_memsz_def

text \<open>
  The two inner loops.  Their bounds are read from memory in every round, as in the source: the copied
  bytes may overwrite the headers.
\<close>

function copy_loop :: "addr \<Rightarrow> nat \<Rightarrow> addr \<Rightarrow> addr \<Rightarrow> mem \<Rightarrow> mem" where
  "copy_loop phdr j src dest m =
    (if j < unat (p_filesz m phdr) then copy_loop phdr (j + 1) (src + 1) (dest + 1) (m(dest := m src))
     else m)"
  by pat_completeness auto
termination
proof (relation "measure (\<lambda>(phdr, j, src, dest, m). 2 ^ 32 - j)")
  fix phdr j and src dest :: addr and m
  assume "j < unat (p_filesz m phdr)"
  moreover have "unat (p_filesz m phdr) < 2 ^ LENGTH(32)" by (rule unsigned_less)
  ultimately show "((phdr, j + 1, src + 1, dest + 1, m(dest := m src)), phdr, j, src, dest, m)
      \<in> measure (\<lambda>(phdr, j, src, dest, m). 2 ^ 32 - j)" by simp
qed simp

function zero_loop :: "addr \<Rightarrow> nat \<Rightarrow> addr \<Rightarrow> mem \<Rightarrow> mem" where
  "zero_loop phdr j dest m =
    (if j < unat (p_memsz m phdr - p_filesz m phdr) then zero_loop phdr (j + 1) (dest + 1) (m(dest := 0))
     else m)"
  by pat_completeness auto
termination
proof (relation "measure (\<lambda>(phdr, j, dest, m). 2 ^ 32 - j)")
  fix phdr j and dest :: addr and m
  assume "j < unat (p_memsz m phdr - p_filesz m phdr)"
  moreover have "unat (p_memsz m phdr - p_filesz m phdr) < 2 ^ LENGTH(32)" by (rule unsigned_less)
  ultimately show "((phdr, j + 1, dest + 1, m(dest := 0)), phdr, j, dest, m)
      \<in> measure (\<lambda>(phdr, j, dest, m). 2 ^ 32 - j)" by simp
qed simp

declare copy_loop.simps [simp del] zero_loop.simps [simp del]

definition load_segment :: "addr \<Rightarrow> addr \<Rightarrow> mem \<Rightarrow> mem" where
  "load_segment file_buffer phdr m =
    (if p_type m phdr \<noteq> PT_LOAD then m
     else
       let m1 = copy_loop phdr 0 (file_buffer + p_offset m phdr) (p_paddr m phdr) m
       in zero_loop phdr 0 (p_paddr m1 phdr + p_filesz m1 phdr) m1)"

function segment_loop :: "addr \<Rightarrow> nat \<Rightarrow> mem \<Rightarrow> mem" where
  "segment_loop file_buffer i m =
    (if i < unat (e_phnum m file_buffer)
     then segment_loop file_buffer (i + 1)
       (load_segment file_buffer (file_buffer + e_phoff m file_buffer + sizeof_phdr * of_nat i) m)
     else m)"
  by pat_completeness auto
termination
proof (relation "measure (\<lambda>(file_buffer, i, m). 2 ^ 16 - i)")
  fix file_buffer i m
  assume "i < unat (e_phnum m file_buffer)"
  moreover have "unat (e_phnum m file_buffer) < 2 ^ LENGTH(16)" by (rule unsigned_less)
  ultimately show "((file_buffer, i + 1,
      load_segment file_buffer (file_buffer + e_phoff m file_buffer + sizeof_phdr * of_nat i) m), file_buffer, i, m)
      \<in> measure (\<lambda>(file_buffer, i, m). 2 ^ 16 - i)" by simp
qed simp

declare segment_loop.simps [simp del]

definition is_elf :: "mem \<Rightarrow> addr \<Rightarrow> bool" where
  "is_elf m elf_hdr \<longleftrightarrow> \<not> (m elf_hdr \<noteq> ELF_MAGIC \<or> m (elf_hdr + 1) \<noteq> of_char CHR ''E'' \<or>
     m (elf_hdr + 2) \<noteq> of_char CHR ''L'' \<or> m (elf_hdr + 3) \<noteq> of_char CHR ''F'')"

definition reload_elf_file :: "addr \<Rightarrow> mem \<Rightarrow> uint32_t \<times> mem" where
  "reload_elf_file file_buffer m =
    (if \<not> is_elf m file_buffer then (0, m)
     else let m' = segment_loop file_buffer 0 m in (e_entry m' file_buffer, m'))"

section \<open>Paging and the jump\<close>

definition PDE_W :: uint32_t where "PDE_W = push_bit 1 1"
definition PDE_PS :: uint32_t where "PDE_PS = push_bit 7 1"
definition CR4_PSE :: uint32_t where "CR4_PSE = push_bit 4 1"
definition CR0_PG :: uint32_t where "CR0_PG = push_bit 31 1"

text \<open>The static page directory: one entry for the first 4 MiB, at the address \<open>page_dir\<close>.\<close>

definition page_dir_entry :: "nat \<Rightarrow> uint32_t" where
  "page_dir_entry i = (if i = 0 then PDE_P OR PDE_W OR PDE_PS OR 0 else 0)"

definition enable_page_mode :: "uint32_t \<Rightarrow> 'a machine_scheme \<Rightarrow> 'a machine_scheme" where
  "enable_page_mode page_dir s =
    (let cr4v = read_cr4 s;
         s1 = write_cr4 (ucast cr4v OR CR4_PSE) s;
         s2 = write_cr3 page_dir s1
     in write_cr0 (ucast (read_cr0 s2) OR CR0_PG) s2)"

text \<open>How \<open>load_kernel\<close> ends: it hangs, or the kernel is entered with the address of the boot information.\<close>

datatype load_result = Load_hang | Enter_kernel uint32_t

definition load_kernel ::
    "(nat \<Rightarrow> uint8_t) \<Rightarrow> (nat \<Rightarrow> uint16_t) \<Rightarrow> uint32_t \<Rightarrow> ldr \<Rightarrow> (load_result \<times> ldr) option" where
  "load_kernel status data page_dir s =
    map_option
      (\<lambda>s1. let (kernel_entry, m) = reload_elf_file SYS_KERNEL_ADDR (lmem s1);
                s2 = s1\<lparr>lmem := m\<rparr>
            in if kernel_entry = 0 then (Load_hang, s2)
               else (Enter_kernel kernel_entry, enable_page_mode page_dir s2))
      (read_disk status data 100 500 SYS_KERNEL_ADDR s)"

section \<open>Reading sectors\<close>

definition disk_bytes :: "(nat \<Rightarrow> uint16_t) \<Rightarrow> nat \<Rightarrow> nat \<Rightarrow> uint8_t list" where
  "disk_bytes data k n = concat (map (\<lambda>j. half_bytes (data j)) [k..<k + n])"

lemma length_disk_bytes [simp]: "length (disk_bytes data k n) = 2 * n"
  by (induction n) (simp_all add: disk_bytes_def half_bytes_def)

lemma disk_bytes_add: "disk_bytes data k (a + b) = disk_bytes data k a @ disk_bytes data (k + a) b"
proof -
  have "[k..<k + (a + b)] = [k..<k + a] @ [k + a..<k + a + b]" by (metis add.assoc le_add1 upt_add_eq_append)
  then show ?thesis by (simp only: disk_bytes_def map_append concat_append)
qed

lemma read_words_eq:
  "read_words data i k p m = (k + i, p + 2 * of_nat i, write_bytes p (disk_bytes data k i) m)"
proof (induction i arbitrary: k p m)
  case (Suc i)
  have "disk_bytes data k (Suc i) = half_bytes (data k) @ disk_bytes data (k + 1) i"
    using disk_bytes_add [of data k 1 i] by (simp add: disk_bytes_def)
  then have "write_bytes (p + 2) (disk_bytes data (k + 1) i) (write_bytes p (half_bytes (data k)) m) =
      write_bytes p (disk_bytes data k (Suc i)) m"
    by (simp add: write_bytes_append half_bytes_def add.commute)
  with Suc show ?case by (simp add: algebra_simps)
qed (simp add: disk_bytes_def)

interpretation disk: polling "\<lambda>n. status n AND 0x88 = 0x8" "wait_disk status"
  for status
  by unfold_locales (subst wait_disk.simps, simp)

lemma read_sectors_eq:
  assumes "\<And>n. \<exists>k\<ge>n. status k AND 0x88 = 0x8"
  shows "read_sectors status data c n k p m = Some (write_bytes p (disk_bytes data k (256 * c)) m)"
proof (induction c arbitrary: n k p m)
  case 0
  then show ?case by (simp add: disk_bytes_def)
next
  case (Suc c)
  obtain n' where n': "wait_disk status n = Some n'" using disk.wait_ends_always [OF assms] by blast
  have "write_bytes (p + 512) (disk_bytes data (k + 256) (256 * c)) (write_bytes p (disk_bytes data k 256) m) =
      write_bytes p (disk_bytes data k (256 + 256 * c)) m"
    by (simp add: disk_bytes_add write_bytes_append)
  with n' Suc show ?case by (simp add: read_words_eq SECTOR_SIZE_def)
qed

text \<open>The block address and the number of sectors that a disk in 48-bit mode takes from the ten writes.\<close>

definition lba48 :: "uint8_t list \<Rightarrow> int" where
  "lba48 os = uint (os ! 6) + 2 ^ 8 * uint (os ! 7) + 2 ^ 16 * uint (os ! 8) + 2 ^ 24 * uint (os ! 2) +
     2 ^ 32 * uint (os ! 3) + 2 ^ 40 * uint (os ! 4)"

definition count48 :: "uint8_t list \<Rightarrow> int" where
  "count48 os = uint (os ! 5) + 2 ^ 8 * uint (os ! 1)"

lemma uint_byte: "uint (ucast (drop_bit k v) :: uint8_t) = uint (v :: uint32_t) div 2 ^ k mod 256"
proof -
  have "take_bit 32 (uint v) = uint v" using uint_lt2p [of v] by (simp add: take_bit_int_eq_self)
  then have "uint (drop_bit k v) = uint v div 2 ^ k"
    by (simp add: unsigned_drop_bit_eq drop_bit_eq_div [of _ "uint v"])
  then show ?thesis by (simp add: unsigned_ucast_eq take_bit_eq_mod)
qed

lemma uint_low_byte: "uint (ucast v :: uint8_t) = uint (v :: uint32_t) mod 256"
  using uint_byte [of 0 v] by simp

lemma decode48:
  "lba48 [x0, x1, x2, x3, x4, x5, x6, x7, x8, x9] =
     uint x6 + 256 * uint x7 + 65536 * uint x8 + 16777216 * uint x2 + 2 ^ 32 * uint x3 + 2 ^ 40 * uint x4"
  "count48 [x0, x1, x2, x3, x4, x5, x6, x7, x8, x9] = uint x5 + 256 * uint x1"
  by (simp_all add: lba48_def count48_def)

lemma bytes_sum:
  assumes "0 \<le> x" and "x < 2 ^ 32"
  shows "x mod 256 + 256 * (x div 2 ^ 8 mod 256) + 65536 * (x div 2 ^ 16 mod 256) +
    16777216 * (x div 2 ^ 24 mod 256) = (x :: int)"
proof -
  define y z w where "y = x div 256" and "z = y div 256" and "w = z div 256"
  have div: "x div 2 ^ 8 = y" "x div 2 ^ 16 = z" "x div 2 ^ 24 = w"
    by (simp_all add: y_def z_def w_def flip: zdiv_zmult2_eq)
  have split: "x = 256 * y + x mod 256" "y = 256 * z + y mod 256" "z = 256 * w + z mod 256"
    unfolding y_def z_def w_def by simp_all
  have "0 \<le> w" "w < 256" using assms unfolding div(3) [symmetric] by simp_all
  then have "w mod 256 = w" by simp
  with split show ?thesis unfolding div by linarith
qed

text \<open>
  With a disk that becomes ready again and again, \<open>read_disk\<close> returns: it has asked for \<open>sector_count\<close>
  sectors (modulo 65536) from \<open>sector\<close> on with the command 0x24, the words the disk delivered are in the
  buffer in order, and no other memory has changed.
\<close>

theorem read_disk_reads:
  assumes "\<And>n. \<exists>k\<ge>n. status k AND 0x88 = 0x8" and "512 * unat sector_count \<le> 2 ^ 32"
  shows "\<exists>s' os. read_disk status data sector sector_count buffer s = Some s' \<and>
    outs s' = outs s @ os \<and> length os = 10 \<and> os ! 9 = (0x1f7, 0x24) \<and>
    lba48 (map snd os) = uint sector \<and> count48 (map snd os) = uint sector_count mod 2 ^ 16 \<and>
    bytes_at (lmem s') buffer (disk_bytes data 0 (256 * unat sector_count)) \<and>
    (\<forall>a. a \<notin> span buffer (512 * unat sector_count) \<longrightarrow> lmem s' a = lmem s a)"
proof -
  let ?d = "disk_bytes data 0 (256 * unat sector_count)"
  let ?s1 = "disk_command sector sector_count s"
  let ?os = "[(0x1f6, 0xE0), (0x1f2, ucast (drop_bit 8 sector_count)), (0x1f3, ucast (drop_bit 24 sector)),
    (0x1f4, 0), (0x1f5, 0), (0x1f2, ucast sector_count), (0x1f3, ucast sector),
    (0x1f4, ucast (drop_bit 8 sector)), (0x1f5, ucast (drop_bit 16 sector)), (0x1f7 :: uint16_t, 0x24 :: uint8_t)]"
  have len: "length ?d \<le> 2 ^ 32" using assms(2) by simp
  have "read_disk status data sector sector_count buffer s = Some (?s1\<lparr>lmem := write_bytes buffer ?d (lmem s)\<rparr>)"
    using read_sectors_eq [OF assms(1)] by (simp add: read_disk_def disk_command_def outb_def Let_def)
  moreover have "outs ?s1 = outs s @ ?os" by (simp add: disk_command_def outb_def Let_def)
  moreover have "lba48 (map snd ?os) = uint sector"
  proof -
    have "0 \<le> uint sector" "uint sector < 2 ^ 32" using uint_lt2p [of sector] by simp_all
    from bytes_sum [OF this] show ?thesis
      unfolding list.map snd_conv decode48 uint_byte
      unfolding uint_low_byte unsigned_0 mult_zero_right add_0_right .
  qed
  moreover have "count48 (map snd ?os) = uint sector_count mod 2 ^ 16"
  proof -
    have "x mod 256 + 256 * (x div 2 ^ 8 mod 256) = x mod 2 ^ 16" for x :: int
      using zmod_zmult2_eq [of 256 x 256] by (simp add: add.commute)
    then show ?thesis unfolding list.map snd_conv decode48 uint_byte unfolding uint_low_byte .
  qed
  moreover have "write_bytes buffer ?d (lmem s) a = lmem s a" if "a \<notin> span buffer (512 * unat sector_count)" for a
    using that by (intro write_bytes_other) simp
  ultimately show ?thesis
    using bytes_at_write [OF len]
    by (intro exI [of _ "?s1\<lparr>lmem := write_bytes buffer ?d (lmem s)\<rparr>"] exI [of _ ?os]) simp
qed

theorem read_disk_reads_witness:
  "\<exists>s'. read_disk (\<lambda>_. 0x58) (\<lambda>k. of_nat k) 100 2 0x8000 sample_ldr = Some s' \<and>
     bytes_at (lmem s') 0x8000 (disk_bytes (\<lambda>k. of_nat k) 0 512)"
proof -
  have "\<exists>k\<ge>n. (0x58 :: uint8_t) AND 0x88 = 0x8" for n :: nat by auto
  from read_disk_reads [of "\<lambda>_. 0x58" 2 "\<lambda>k. of_nat k" 100 "0x8000" sample_ldr, OF this]
  show ?thesis by auto
qed

section \<open>Placing the segments\<close>

definition file_bytes :: "mem \<Rightarrow> addr \<Rightarrow> nat \<Rightarrow> uint8_t list" where
  "file_bytes m p n = map (\<lambda>k. m (p + of_nat k)) [0..<n]"

lemma length_file_bytes [simp]: "length (file_bytes m p n) = n"
  by (simp add: file_bytes_def)

lemma file_bytes_Suc: "file_bytes m p (Suc n) = m p # file_bytes m (p + 1) n"
  by (simp add: file_bytes_def upt_conv_Cons flip: map_Suc_upt del: upt_Suc) (simp add: algebra_simps)

lemma file_bytes_cong:
  "(\<And>a. a \<in> span p n \<Longrightarrow> m' a = m a) \<Longrightarrow> file_bytes m' p n = file_bytes m p n"
  unfolding file_bytes_def span_iff by (rule map_cong [OF refl]) auto

lemma phdr_members_cong:
  assumes "\<And>a. a \<in> span phdr 32 \<Longrightarrow> m' a = m a"
  shows "p_type m' phdr = p_type m phdr" "p_offset m' phdr = p_offset m phdr" "p_paddr m' phdr = p_paddr m phdr"
    "p_filesz m' phdr = p_filesz m phdr" "p_memsz m' phdr = p_memsz m phdr"
proof -
  have member: "load32 m' (phdr + 4 * of_nat i) = load32 m (phdr + 4 * of_nat i)" if "i < 8" for i
  proof (rule load32_cong, rule assms)
    fix a assume "a \<in> span (phdr + 4 * of_nat i) 4"
    then show "a \<in> span phdr 32" using span_sub [of "4 * i" 4 32 phdr] that by auto
  qed
  show "p_type m' phdr = p_type m phdr" "p_offset m' phdr = p_offset m phdr" "p_paddr m' phdr = p_paddr m phdr"
    "p_filesz m' phdr = p_filesz m phdr" "p_memsz m' phdr = p_memsz m phdr"
    using member [of 0] member [of 1] member [of 3] member [of 4] member [of 5]
    by (simp_all add: elf_members)
qed

lemma copy_loop_eq:
  assumes "unat (p_filesz m phdr) = j + n" and "span dest n \<inter> span phdr 32 = {}"
    and "span dest n \<inter> span src n = {}"
  shows "copy_loop phdr j src dest m = write_bytes dest (file_bytes m src n) m"
  using assms
proof (induction n arbitrary: j src dest m)
  case 0
  then show ?case by (simp add: copy_loop.simps file_bytes_def)
next
  case (Suc n)
  let ?m = "m(dest := m src)"
  have "p_filesz ?m phdr = p_filesz m phdr"
    using Suc.prems(2) by (intro phdr_members_cong) auto
  then have "copy_loop phdr (Suc j) (src + 1) (dest + 1) ?m = write_bytes (dest + 1) (file_bytes ?m (src + 1) n) ?m"
    using Suc.prems by (intro Suc.IH) (auto simp: fun_upd_def)
  moreover have "file_bytes ?m (src + 1) n = file_bytes m (src + 1) n"
    using Suc.prems(3) by (intro file_bytes_cong) auto
  ultimately show ?case
    using Suc.prems(1) by (simp add: copy_loop.simps [of phdr j] file_bytes_Suc)
qed

lemma zero_loop_eq:
  assumes "unat (p_memsz m phdr - p_filesz m phdr) = j + n" and "span dest n \<inter> span phdr 32 = {}"
  shows "zero_loop phdr j dest m = write_bytes dest (replicate n 0) m"
  using assms
proof (induction n arbitrary: j dest m)
  case 0
  then show ?case by (simp add: zero_loop.simps)
next
  case (Suc n)
  let ?m = "m(dest := 0)"
  have "p_memsz ?m phdr = p_memsz m phdr" "p_filesz ?m phdr = p_filesz m phdr"
    using Suc.prems(2) by (intro phdr_members_cong; auto)+
  then have "zero_loop phdr (Suc j) (dest + 1) ?m = write_bytes (dest + 1) (replicate n 0) ?m"
    using Suc.prems by (intro Suc.IH) (auto simp: fun_upd_def)
  then show ?case using Suc.prems(1) by (simp add: zero_loop.simps [of phdr j])
qed

text \<open>What a loadable segment becomes in memory: its bytes of the file, then zeros.\<close>

definition seg_bytes :: "mem \<Rightarrow> addr \<Rightarrow> addr \<Rightarrow> uint8_t list" where
  "seg_bytes m file_buffer phdr =
    file_bytes m (file_buffer + p_offset m phdr) (unat (p_filesz m phdr)) @
    replicate (unat (p_memsz m phdr) - unat (p_filesz m phdr)) 0"

definition seg_dest :: "mem \<Rightarrow> addr \<Rightarrow> addr set" where
  "seg_dest m phdr = (if p_type m phdr = PT_LOAD then span (p_paddr m phdr) (unat (p_memsz m phdr)) else {})"

lemma load_segment_eq:
  assumes "p_type m phdr = PT_LOAD" and "p_filesz m phdr \<le> p_memsz m phdr"
    and "span (p_paddr m phdr) (unat (p_memsz m phdr)) \<inter> span phdr 32 = {}"
    and "span (p_paddr m phdr) (unat (p_memsz m phdr)) \<inter>
      span (file_buffer + p_offset m phdr) (unat (p_filesz m phdr)) = {}"
  shows "load_segment file_buffer phdr m = write_bytes (p_paddr m phdr) (seg_bytes m file_buffer phdr) m"
proof -
  let ?p = "p_paddr m phdr" and ?f = "unat (p_filesz m phdr)" and ?n = "unat (p_memsz m phdr)"
  let ?src = "file_buffer + p_offset m phdr"
  have le: "?f \<le> ?n" using assms(2) by (simp add: word_le_nat_alt)
  have "span ?p ?f \<subseteq> span ?p ?n" using le by (rule span_mono)
  then have copy: "copy_loop phdr 0 ?src ?p m = write_bytes ?p (file_bytes m ?src ?f) m"
    using assms(3,4) by (intro copy_loop_eq) auto
  define m1 where "m1 = write_bytes ?p (file_bytes m ?src ?f) m"
  have same: "m1 a = m a" if "a \<in> span phdr 32" for a
    unfolding m1_def using that assms(3) \<open>span ?p ?f \<subseteq> span ?p ?n\<close> by (intro write_bytes_other) auto
  have mem: "p_paddr m1 phdr = ?p" "p_filesz m1 phdr = p_filesz m phdr" "p_memsz m1 phdr = p_memsz m phdr"
    using same by (intro phdr_members_cong; blast)+
  have zero: "zero_loop phdr 0 (?p + p_filesz m phdr) m1 = write_bytes (?p + p_filesz m phdr) (replicate (?n - ?f) 0) m1"
  proof (rule zero_loop_eq)
    show "unat (p_memsz m1 phdr - p_filesz m1 phdr) = 0 + (?n - ?f)"
      using assms(2) by (simp add: mem unat_sub)
    have "span ?p ?n = span ?p ?f \<union> span (?p + of_nat ?f) (?n - ?f)"
      using span_append [of ?p ?f "?n - ?f"] le by simp
    then show "span (?p + p_filesz m phdr) (?n - ?f) \<inter> span phdr 32 = {}" using assms(3) by auto
  qed
  have "load_segment file_buffer phdr m = zero_loop phdr 0 (p_paddr m1 phdr + p_filesz m1 phdr) m1"
    using assms(1) copy by (simp add: load_segment_def Let_def m1_def)
  also have "\<dots> = write_bytes (?p + p_filesz m phdr) (replicate (?n - ?f) 0) m1" unfolding mem by (rule zero)
  also have "\<dots> = write_bytes ?p (seg_bytes m file_buffer phdr) m"
    by (simp add: seg_bytes_def write_bytes_append m1_def)
  finally show ?thesis .
qed

lemma load_segment_skip: "p_type m phdr \<noteq> PT_LOAD \<Longrightarrow> load_segment file_buffer phdr m = m"
  by (simp add: load_segment_def)

section \<open>The whole image\<close>

definition phdr_at :: "mem \<Rightarrow> addr \<Rightarrow> nat \<Rightarrow> addr" where
  "phdr_at m file_buffer i = file_buffer + e_phoff m file_buffer + sizeof_phdr * of_nat i"

text \<open>
  An image that can be loaded: the headers and the segments' bytes lie inside the \<open>n\<close> bytes of the file
  buffer, no segment is shorter in memory than in the file, and the places of the segments overlap
  neither the file buffer nor each other.
\<close>

definition loadable :: "mem \<Rightarrow> addr \<Rightarrow> nat \<Rightarrow> bool" where
  "loadable m file_buffer n \<longleftrightarrow> is_elf m file_buffer \<and> 52 \<le> n \<and>
    (\<forall>i < unat (e_phnum m file_buffer). let ph = phdr_at m file_buffer i in
       span ph 32 \<subseteq> span file_buffer n \<and> seg_dest m ph \<inter> span file_buffer n = {} \<and>
       (p_type m ph = PT_LOAD \<longrightarrow> p_filesz m ph \<le> p_memsz m ph \<and>
          span (file_buffer + p_offset m ph) (unat (p_filesz m ph)) \<subseteq> span file_buffer n) \<and>
       (\<forall>j < i. seg_dest m ph \<inter> seg_dest m (phdr_at m file_buffer j) = {}))"

lemma header_members_cong:
  assumes "\<And>a. a \<in> span file_buffer n \<Longrightarrow> m' a = m a" and "52 \<le> n"
  shows "e_entry m' file_buffer = e_entry m file_buffer" "e_phoff m' file_buffer = e_phoff m file_buffer"
    "e_phnum m' file_buffer = e_phnum m file_buffer"
proof -
  have byte: "m' (file_buffer + of_nat k) = m (file_buffer + of_nat k)" if "k < 52" for k
  proof -
    have "k < n" using that assms(2) by simp
    then show ?thesis using assms(1) unfolding span_iff by blast
  qed
  show "e_entry m' file_buffer = e_entry m file_buffer" "e_phoff m' file_buffer = e_phoff m file_buffer"
    "e_phnum m' file_buffer = e_phnum m file_buffer"
    using byte [of 24] byte [of 25] byte [of 26] byte [of 27] byte [of 28] byte [of 29] byte [of 30]
      byte [of 31] byte [of 44] byte [of 45]
    by (simp_all add: elf_members load32_def load16_def add.assoc)
qed

text \<open>Whether an image can be loaded depends on its \<open>n\<close> bytes only.\<close>

lemma loadable_cong:
  assumes ld: "loadable m file_buffer n" and agree: "\<And>a. a \<in> span file_buffer n \<Longrightarrow> m' a = m a"
  shows "loadable m' file_buffer n"
proof -
  have n: "52 \<le> n" using ld by (simp add: loadable_def)
  have hdr: "e_phoff m' file_buffer = e_phoff m file_buffer" "e_phnum m' file_buffer = e_phnum m file_buffer"
    using agree n by (intro header_members_cong; blast)+
  have at: "phdr_at m' file_buffer i = phdr_at m file_buffer i" for i by (simp add: phdr_at_def hdr)
  have "m' (file_buffer + of_nat k) = m (file_buffer + of_nat k)" if "k < 4" for k
  proof -
    have "k < n" using that n by simp
    then show ?thesis using agree unfolding span_iff by blast
  qed
  from this [of 0] this [of 1] this [of 2] this [of 3] have elf: "is_elf m' file_buffer"
    using ld by (simp add: loadable_def is_elf_def)
  have mem: "p_type m' ph = p_type m ph" "p_offset m' ph = p_offset m ph" "p_paddr m' ph = p_paddr m ph"
    "p_filesz m' ph = p_filesz m ph" "p_memsz m' ph = p_memsz m ph" if "span ph 32 \<subseteq> span file_buffer n" for ph
    using agree that by (intro phdr_members_cong; blast)+
  have dest: "seg_dest m' ph = seg_dest m ph" if "span ph 32 \<subseteq> span file_buffer n" for ph
    by (simp add: seg_dest_def mem [OF that])
  have inside: "span (phdr_at m file_buffer i) 32 \<subseteq> span file_buffer n" if "i < unat (e_phnum m file_buffer)" for i
    using ld that unfolding loadable_def Let_def by blast
  show ?thesis
    using ld unfolding loadable_def Let_def hdr at
    by (intro conjI elf n) (simp add: mem dest inside del: span.simps)
qed

lemma segment_step:
  assumes ld: "loadable m file_buffer n" and i: "i < unat (e_phnum m file_buffer)"
    and agree: "\<And>a. a \<in> span file_buffer n \<Longrightarrow> mi a = m a"
  defines "ph \<equiv> phdr_at m file_buffer i"
  shows "segment_loop file_buffer i mi = segment_loop file_buffer (Suc i)
      (if p_type m ph = PT_LOAD then write_bytes (p_paddr m ph) (seg_bytes m file_buffer ph) mi else mi)"
proof -
  from ld i have L: "span ph 32 \<subseteq> span file_buffer n" "seg_dest m ph \<inter> span file_buffer n = {}" "52 \<le> n"
    "p_type m ph = PT_LOAD \<Longrightarrow> p_filesz m ph \<le> p_memsz m ph"
    "p_type m ph = PT_LOAD \<Longrightarrow> span (file_buffer + p_offset m ph) (unat (p_filesz m ph)) \<subseteq> span file_buffer n"
    unfolding loadable_def Let_def ph_def by blast+
  note hdr = header_members_cong [of file_buffer n mi m, OF agree L(3)]
  have mem: "p_type mi ph = p_type m ph" "p_offset mi ph = p_offset m ph" "p_paddr mi ph = p_paddr m ph"
    "p_filesz mi ph = p_filesz m ph" "p_memsz mi ph = p_memsz m ph"
    using agree L(1) by (intro phdr_members_cong; blast)+
  have step: "segment_loop file_buffer i mi = segment_loop file_buffer (Suc i) (load_segment file_buffer ph mi)"
    using i hdr by (simp add: segment_loop.simps [of file_buffer i] ph_def phdr_at_def)
  show ?thesis
  proof (cases "p_type m ph = PT_LOAD")
    case True
    have dest: "span (p_paddr m ph) (unat (p_memsz m ph)) \<inter> span file_buffer n = {}"
      using L(2) True by (simp add: seg_dest_def)
    have "seg_bytes mi file_buffer ph = seg_bytes m file_buffer ph"
      using agree L(5) [OF True] by (simp add: seg_bytes_def mem) (rule file_bytes_cong, blast)
    moreover have "load_segment file_buffer ph mi = write_bytes (p_paddr mi ph) (seg_bytes mi file_buffer ph) mi"
    proof (rule load_segment_eq, unfold mem)
      show "span (p_paddr m ph) (unat (p_memsz m ph)) \<inter> span ph 32 = {}" using dest L(1) by blast
      show "span (p_paddr m ph) (unat (p_memsz m ph)) \<inter>
          span (file_buffer + p_offset m ph) (unat (p_filesz m ph)) = {}" using dest L(5) [OF True] by blast
    qed (use True L(4) in simp_all)
    ultimately show ?thesis using step True mem by simp
  next
    case False
    then show ?thesis using step mem by (simp add: load_segment_skip)
  qed
qed

lemma length_seg_bytes:
  "p_filesz m ph \<le> p_memsz m ph \<Longrightarrow> length (seg_bytes m file_buffer ph) = unat (p_memsz m ph)"
  by (simp add: seg_bytes_def word_le_nat_alt)

lemma loadable_disjoint:
  assumes "loadable m file_buffer n" and "i < unat (e_phnum m file_buffer)" and "j < unat (e_phnum m file_buffer)"
    and "i \<noteq> j"
  shows "seg_dest m (phdr_at m file_buffer i) \<inter> seg_dest m (phdr_at m file_buffer j) = {}"
proof (cases "j < i")
  case True
  with assms(1,2) show ?thesis unfolding loadable_def Let_def by blast
next
  case False
  with assms(4) have "i < j" by simp
  with assms(1,3) have "seg_dest m (phdr_at m file_buffer j) \<inter> seg_dest m (phdr_at m file_buffer i) = {}"
    unfolding loadable_def Let_def by blast
  then show ?thesis by blast
qed

text \<open>A placed segment survives what leaves its destination alone.\<close>

lemma segment_placed:
  assumes "p_filesz m ph \<le> p_memsz m ph" and load: "p_type m ph = PT_LOAD"
    and kept: "\<And>a. a \<in> seg_dest m ph \<Longrightarrow> m2 a = write_bytes (p_paddr m ph) (seg_bytes m fb ph) m1 a"
  shows "bytes_at m2 (p_paddr m ph) (seg_bytes m fb ph)"
proof -
  let ?b = "seg_bytes m fb ph" and ?p = "p_paddr m ph"
  have len: "length ?b = unat (p_memsz m ph)" using assms(1) by (rule length_seg_bytes)
  have "unat (p_memsz m ph) < 2 ^ LENGTH(32)" by (rule unsigned_less)
  then have "bytes_at (write_bytes ?p ?b m1) ?p ?b" using len by (simp add: bytes_at_write)
  moreover have "m2 a = write_bytes ?p ?b m1 a" if "a \<in> span ?p (length ?b)" for a
    using kept [of a] that len load by (simp add: seg_dest_def)
  ultimately show ?thesis using bytes_at_cong by blast
qed

lemma segment_loop_spec:
  assumes ld: "loadable m fb n" and i: "i \<le> unat (e_phnum m fb)"
    and agree: "\<And>a. a \<in> span fb n \<Longrightarrow> mi a = m a"
  shows "(\<forall>j. i \<le> j \<and> j < unat (e_phnum m fb) \<and> p_type m (phdr_at m fb j) = PT_LOAD \<longrightarrow>
      bytes_at (segment_loop fb i mi) (p_paddr m (phdr_at m fb j)) (seg_bytes m fb (phdr_at m fb j))) \<and>
    (\<forall>a. (\<forall>j. i \<le> j \<and> j < unat (e_phnum m fb) \<longrightarrow> a \<notin> seg_dest m (phdr_at m fb j)) \<longrightarrow>
      segment_loop fb i mi a = mi a)"
  using i agree
proof (induction "unat (e_phnum m fb) - i" arbitrary: i mi)
  case 0
  then have "i = unat (e_phnum m fb)" by simp
  moreover have "e_phnum mi fb = e_phnum m fb"
    using header_members_cong [of fb n mi m] 0(3) ld by (auto simp: loadable_def)
  ultimately have "segment_loop fb i mi = mi" by (simp add: segment_loop.simps)
  with \<open>i = _\<close> show ?case by auto
next
  case (Suc d)
  then have i: "i < unat (e_phnum m fb)" by simp
  let ?ph = "phdr_at m fb i"
  define mi' where "mi' = (if p_type m ?ph = PT_LOAD then write_bytes (p_paddr m ?ph) (seg_bytes m fb ?ph) mi else mi)"
  have step: "segment_loop fb i mi = segment_loop fb (Suc i) mi'"
    unfolding mi'_def by (rule segment_step [OF ld i Suc.prems(2)])
  have le: "p_type m ?ph = PT_LOAD \<Longrightarrow> p_filesz m ?ph \<le> p_memsz m ?ph"
    and img: "seg_dest m ?ph \<inter> span fb n = {}" using ld i unfolding loadable_def Let_def by blast+
  have out: "mi' a = mi a" if "a \<notin> seg_dest m ?ph" for a
    using that le length_seg_bytes [of m ?ph fb]
    by (auto simp: mi'_def seg_dest_def write_bytes_other split: if_splits)
  have agree': "mi' a = m a" if "a \<in> span fb n" for a
    using out [of a] Suc.prems(2) [OF that] img that by auto
  have "d = unat (e_phnum m fb) - Suc i" using Suc.hyps(2) by simp
  note IH = Suc.hyps(1) [OF this, of mi', OF Suc_leI [OF i] agree']
  have "bytes_at (segment_loop fb i mi) (p_paddr m (phdr_at m fb j)) (seg_bytes m fb (phdr_at m fb j))"
    if j: "i \<le> j" "j < unat (e_phnum m fb)" "p_type m (phdr_at m fb j) = PT_LOAD" for j
  proof (cases "j = i")
    case True
    have "segment_loop fb (Suc i) mi' a = mi' a" if "a \<in> seg_dest m ?ph" for a
      using IH loadable_disjoint [OF ld i] that by (metis Suc_n_not_le_n disjoint_iff)
    with True j(3) le show ?thesis unfolding step by (intro segment_placed) (simp_all add: mi'_def)
  next
    case False
    with j have "Suc i \<le> j" by simp
    with j IH step show ?thesis by simp
  qed
  moreover have "segment_loop fb i mi a = mi a"
    if a: "\<And>j. i \<le> j \<Longrightarrow> j < unat (e_phnum m fb) \<Longrightarrow> a \<notin> seg_dest m (phdr_at m fb j)" for a
  proof -
    have "segment_loop fb (Suc i) mi' a = mi' a" using IH a by simp
    with out [of a] a [of i] i step show ?thesis by simp
  qed
  ultimately show ?case by blast
qed

lemma reload_elf_entry:
  assumes "loadable m file_buffer n"
  shows "reload_elf_file file_buffer m = (e_entry m file_buffer, segment_loop file_buffer 0 m)"
proof -
  let ?m = "segment_loop file_buffer 0 m"
  note spec = segment_loop_spec [OF assms le0 refl]
  have hdr: "52 \<le> n" and dis: "\<And>i. i < unat (e_phnum m file_buffer) \<Longrightarrow>
      seg_dest m (phdr_at m file_buffer i) \<inter> span file_buffer n = {}"
    using assms unfolding loadable_def Let_def by blast+
  have "?m a = m a" if "a \<in> span file_buffer n" for a
  proof -
    have "a \<notin> seg_dest m (phdr_at m file_buffer i)" if "i < unat (e_phnum m file_buffer)" for i
      using dis [OF that] \<open>a \<in> span file_buffer n\<close> by blast
    then show ?thesis using spec by simp
  qed
  then have "e_entry ?m file_buffer = e_entry m file_buffer"
    using header_members_cong(1) [of file_buffer n ?m m] hdr by blast
  then show ?thesis using assms by (simp add: reload_elf_file_def loadable_def)
qed

text \<open>
  C36: \<open>reload_elf_file\<close> loads a well-formed image: every loadable segment stands at its physical address,
  its bytes of the file followed by zeros up to its size in memory, nothing else in memory changes, and
  the entry point of the header is returned.
\<close>

theorem reload_elf_loads:
  assumes "loadable m file_buffer n"
  shows "\<exists>m'. reload_elf_file file_buffer m = (e_entry m file_buffer, m') \<and>
    (\<forall>i < unat (e_phnum m file_buffer). p_type m (phdr_at m file_buffer i) = PT_LOAD \<longrightarrow>
       bytes_at m' (p_paddr m (phdr_at m file_buffer i)) (seg_bytes m file_buffer (phdr_at m file_buffer i))) \<and>
    (\<forall>a. (\<forall>i < unat (e_phnum m file_buffer). a \<notin> seg_dest m (phdr_at m file_buffer i)) \<longrightarrow> m' a = m a)"
  using segment_loop_spec [OF assms le0 refl] reload_elf_entry [OF assms] by simp

lemma reload_elf_rejects: "\<not> is_elf m file_buffer \<Longrightarrow> reload_elf_file file_buffer m = (0, m)"
  by (simp add: reload_elf_file_def)

text \<open>A small image: one loadable segment of two bytes, four bytes long in memory.\<close>

definition sample_image :: "uint8_t list" where
  "sample_image =
    [0x7F, 0x45, 0x4C, 0x46] @ replicate 20 0 @ [0, 0, 1, 0] @ [52, 0, 0, 0] @ replicate 12 0 @ [1, 0] @
    replicate 6 0 @
    [1, 0, 0, 0] @ [84, 0, 0, 0] @ replicate 4 0 @ [0, 0, 1, 0] @ [2, 0, 0, 0] @ [4, 0, 0, 0] @ replicate 8 0 @
    [0xEB, 0xFE]"

definition sample_elf :: mem where
  "sample_elf a = (if 0x100000 \<le> a \<and> a < 0x100056 then sample_image ! unat (a - 0x100000) else 0)"

lemma sample_elf_members:
  "is_elf sample_elf 0x100000" "e_phnum sample_elf 0x100000 = 1" "e_phoff sample_elf 0x100000 = 52"
  "e_entry sample_elf 0x100000 = 0x10000" "phdr_at sample_elf 0x100000 0 = 0x100034"
  "p_type sample_elf 0x100034 = PT_LOAD" "p_offset sample_elf 0x100034 = 84"
  "p_paddr sample_elf 0x100034 = 0x10000" "p_filesz sample_elf 0x100034 = 2" "p_memsz sample_elf 0x100034 = 4"
  by (simp_all add: is_elf_def ELF_MAGIC_def PT_LOAD_def phdr_at_def elf_members load32_def load16_def
      sample_elf_def sample_image_def nth_append)

lemma sample_loadable: "loadable sample_elf 0x100000 86"
proof -
  have "span 0x10000 4 \<inter> span 0x100000 86 = {}"
    using span_of_nat_disjoint [of "0x10000" 4 "0x100000" 86] by simp
  moreover have "span 0x100034 32 \<subseteq> span 0x100000 86" "span 0x100054 2 \<subseteq> span 0x100000 86"
    using span_sub [of 52 32 86 "0x100000"] span_sub [of 84 2 86 "0x100000"] by simp_all
  ultimately show ?thesis
    by (simp add: loadable_def sample_elf_members seg_dest_def)
qed

theorem reload_elf_loads_witness:
  "\<exists>m'. reload_elf_file 0x100000 sample_elf = (0x10000, m') \<and> bytes_at m' 0x10000 [0xEB, 0xFE, 0, 0]"
proof -
  have "seg_bytes sample_elf 0x100000 0x100034 = [0xEB, 0xFE, 0, 0]"
  proof -
    have "replicate 2 (0 :: uint8_t) = [0, 0]" by (simp add: numeral_2_eq_2)
    moreover have "file_bytes sample_elf 0x100054 2 = [0xEB, 0xFE]"
      by (simp add: file_bytes_def upt_rec sample_elf_def sample_image_def nth_append)
    ultimately show ?thesis by (simp add: seg_bytes_def sample_elf_members)
  qed
  with reload_elf_loads [OF sample_loadable] show ?thesis
    by (auto simp: sample_elf_members)
qed

lemma bit_CR0_PG: "bit CR0_PG k \<longleftrightarrow> k = 31"
  unfolding CR0_PG_def by (subst bit_push_bit_iff) (auto simp: bit_1_iff)

lemma bit_CR4_PSE: "bit CR4_PSE k \<longleftrightarrow> k = 4"
  unfolding CR4_PSE_def by (subst bit_push_bit_iff) (auto simp: bit_1_iff)

lemmas bit_cr_consts = bit_CR0_PG bit_CR4_PSE

text \<open>
  \<open>enable_page_mode\<close> turns paging and 4 MiB pages on with the given directory, but the readers of the
  control registers return only 16 bits: bits 16 to 30 of \<open>cr0\<close> and bits 16 and up of \<open>cr4\<close> are cleared,
  whatever they were.
\<close>

theorem enable_page_mode_control:
  "(\<forall>k. bit (cr0 (enable_page_mode page_dir s)) k \<longleftrightarrow> k = 31 \<or> k < 16 \<and> bit (cr0 s) k) \<and>
   (\<forall>k. bit (cr4 (enable_page_mode page_dir s)) k \<longleftrightarrow> k = 4 \<or> k < 16 \<and> bit (cr4 s) k) \<and>
   cr3 (enable_page_mode page_dir s) = page_dir"
  by (auto simp: enable_page_mode_def Let_def write_cr0_def write_cr3_def write_cr4_def read_cr0_def
      read_cr4_def bit_cr_consts bit_simps)

lemma load_kernel_eq:
  assumes "\<And>n. \<exists>k\<ge>n. status k AND 0x88 = 0x8"
    and "m = write_bytes SYS_KERNEL_ADDR (disk_bytes data 0 128000) (lmem s)"
  defines "s2 \<equiv> (disk_command 100 500 s)\<lparr>lmem := snd (reload_elf_file SYS_KERNEL_ADDR m)\<rparr>"
    and "e \<equiv> fst (reload_elf_file SYS_KERNEL_ADDR m)"
  shows "load_kernel status data page_dir s =
    Some (if e = 0 then (Load_hang, s2) else (Enter_kernel e, enable_page_mode page_dir s2))"
proof -
  let ?s1 = "(disk_command 100 500 s)\<lparr>lmem := m\<rparr>"
  have "lmem (disk_command 100 500 s) = lmem s" by (simp add: disk_command_def outb_def Let_def)
  then have "read_disk status data 100 500 SYS_KERNEL_ADDR s = Some ?s1"
    using read_sectors_eq [OF assms(1), of data 500 0 0 SYS_KERNEL_ADDR "lmem s"] assms(2)
    by (simp add: read_disk_def Let_def)
  then show ?thesis by (simp add: load_kernel_def Let_def case_prod_beta s2_def e_def)
qed

lemma enable_page_mode_frame:
  "bit (cr0 (enable_page_mode page_dir s)) 31" "cr3 (enable_page_mode page_dir s) = page_dir"
  "lmem (enable_page_mode page_dir s) = lmem s" "boot_info (enable_page_mode page_dir s) = boot_info s"
  by (simp_all add: enable_page_mode_def Let_def write_cr0_def write_cr3_def write_cr4_def bit_cr_consts bit_or_iff)

lemma load_kernel_effect:
  assumes "\<And>n. \<exists>k\<ge>n. status k AND 0x88 = 0x8"
    and m: "m = write_bytes SYS_KERNEL_ADDR (disk_bytes data 0 128000) (lmem s)"
    and ld: "loadable m SYS_KERNEL_ADDR n" "e_entry m SYS_KERNEL_ADDR \<noteq> 0"
  shows "\<exists>s'. load_kernel status data page_dir s = Some (Enter_kernel (e_entry m SYS_KERNEL_ADDR), s') \<and>
    lmem s' = segment_loop SYS_KERNEL_ADDR 0 m \<and> boot_info s' = boot_info s \<and> bit (cr0 s') 31 \<and> cr3 s' = page_dir"
proof -
  have "reload_elf_file SYS_KERNEL_ADDR m = (e_entry m SYS_KERNEL_ADDR, segment_loop SYS_KERNEL_ADDR 0 m)"
    using ld(1) reload_elf_entry by blast
  then show ?thesis
    using load_kernel_eq [OF assms(1) m] ld(2)
    by (simp add: enable_page_mode_frame disk_command_def outb_def Let_def)
qed

text \<open>
  C37: \<open>load_kernel\<close> starts the kernel.  When the disk keeps delivering and what it delivers is a loadable
  image with an entry point, the segments are placed, paging is on, and control goes to the entry point;
  when it is no ELF image, the loader hangs.
\<close>

theorem load_kernel_enters:
  assumes "\<And>n. \<exists>k\<ge>n. status k AND 0x88 = 0x8"
    and "m = write_bytes SYS_KERNEL_ADDR (disk_bytes data 0 128000) (lmem s)"
  shows "\<exists>s' r. load_kernel status data page_dir s = Some (r, s') \<and>
    (\<not> is_elf m SYS_KERNEL_ADDR \<longrightarrow> r = Load_hang) \<and>
    (loadable m SYS_KERNEL_ADDR n \<and> e_entry m SYS_KERNEL_ADDR \<noteq> 0 \<longrightarrow>
       r = Enter_kernel (e_entry m SYS_KERNEL_ADDR) \<and> bit (cr0 s') 31 \<and> cr3 s' = page_dir \<and>
       (\<forall>i < unat (e_phnum m SYS_KERNEL_ADDR). p_type m (phdr_at m SYS_KERNEL_ADDR i) = PT_LOAD \<longrightarrow>
          bytes_at (lmem s') (p_paddr m (phdr_at m SYS_KERNEL_ADDR i))
            (seg_bytes m SYS_KERNEL_ADDR (phdr_at m SYS_KERNEL_ADDR i))))"
proof (cases "loadable m SYS_KERNEL_ADDR n \<and> e_entry m SYS_KERNEL_ADDR \<noteq> 0")
  case True
  from load_kernel_effect [OF assms(1,2), of n page_dir] True obtain s' where
    s': "load_kernel status data page_dir s = Some (Enter_kernel (e_entry m SYS_KERNEL_ADDR), s')"
      "lmem s' = segment_loop SYS_KERNEL_ADDR 0 m" "bit (cr0 s') 31" "cr3 s' = page_dir" by blast
  have "is_elf m SYS_KERNEL_ADDR" using True by (simp add: loadable_def)
  with s' True segment_loop_spec [OF conjunct1 [OF True] le0 refl] show ?thesis by simp
next
  case False
  then show ?thesis
    using load_kernel_eq [OF assms(1,2), of page_dir] reload_elf_rejects [of m SYS_KERNEL_ADDR]
    by (cases "is_elf m SYS_KERNEL_ADDR") auto
qed

lemma nth_disk_bytes: "i < 2 * n \<Longrightarrow> disk_bytes data k n ! i = half_bytes (data (k + i div 2)) ! (i mod 2)"
proof (induction n)
  case (Suc n)
  have "disk_bytes data k (Suc n) = disk_bytes data k n @ half_bytes (data (k + n))"
    using disk_bytes_add [of data k n 1] by (simp add: disk_bytes_def)
  moreover have "i div 2 = n" "i - 2 * n = i mod 2" if "\<not> i < 2 * n"
    using that Suc.prems by presburger+
  ultimately show ?case using Suc by (cases "i < 2 * n") (simp_all add: nth_append)
qed simp

definition sample_data :: "nat \<Rightarrow> uint16_t" where
  "sample_data k = (if k < 43 then ucast (sample_image ! (2 * k)) OR push_bit 8 (ucast (sample_image ! Suc (2 * k))) else 0)"

lemma half_bytes_word: "half_bytes (ucast (x :: uint8_t) OR push_bit 8 (ucast (y :: uint8_t))) = [x, y]"
  unfolding half_bytes_def by (simp, intro conjI; rule bit_word_eqI) (auto simp: bit_simps dest: bit_imp_le_length)

lemma sample_data_bytes: "half_bytes (sample_data (i div 2)) ! (i mod 2) = (if i < 86 then sample_image ! i else 0)"
proof (cases "i < 86")
  case True
  then have lt: "i div 2 < 43" by simp
  show ?thesis
  proof (cases "i mod 2 = 0")
    case True
    then have "2 * (i div 2) = i" by presburger
    with True lt \<open>i < 86\<close> show ?thesis by (simp add: sample_data_def half_bytes_word)
  next
    case False
    then have "Suc (2 * (i div 2)) = i" "i mod 2 = 1" by presburger+
    with lt \<open>i < 86\<close> show ?thesis by (simp add: sample_data_def half_bytes_word)
  qed
next
  case False
  then have "\<not> i div 2 < 43" by simp
  moreover have "half_bytes 0 = [0, 0]" by (simp add: half_bytes_def)
  moreover have "[0, 0] ! (i mod 2) = (0 :: uint8_t)" by (cases "i mod 2 = 0") simp_all
  ultimately show ?thesis using False by (simp add: sample_data_def)
qed

lemma sample_disk: "write_bytes 0x100000 (disk_bytes sample_data 0 128000) (\<lambda>_. 0) = sample_elf"
proof
  fix a
  show "write_bytes 0x100000 (disk_bytes sample_data 0 128000) (\<lambda>_. 0) a = sample_elf a"
  proof (cases "a \<in> span 0x100000 256000")
    case True
    then obtain i where i: "i < 256000" "a = 0x100000 + of_nat i" by (auto simp: span_iff)
    have "unat (0x100000 + of_nat i :: addr) = 0x100000 + i" using i(1) by (simp add: unat_word_ariths unat_of_nat)
    then have "0x100000 \<le> a \<and> a < 0x100056 \<longleftrightarrow> i < 86" "unat (a - 0x100000) = i"
      unfolding i(2) using i(1) by (simp_all add: word_le_nat_alt word_less_nat_alt unat_of_nat)
    then show ?thesis
      using write_bytes_at [of "disk_bytes sample_data 0 128000" i "0x100000" "\<lambda>_. 0"] i
        nth_disk_bytes [of i 128000 sample_data 0] sample_data_bytes [of i]
      by (simp add: sample_elf_def)
  next
    case False
    have "\<not> (0x100000 \<le> a \<and> a < 0x100056)"
    proof
      assume r: "0x100000 \<le> a \<and> a < 0x100056"
      then have "unat (a - 0x100000) < 86" by (auto simp: word_le_nat_alt word_less_nat_alt unat_sub)
      then have "a \<in> span 0x100000 256000"
        unfolding span_iff by (intro exI [of _ "unat (a - 0x100000)"]) simp
      with False show False by contradiction
    qed
    then have "sample_elf a = 0" unfolding sample_elf_def by (rule if_not_P)
    with False show ?thesis by (simp add: write_bytes_other)
  qed
qed

theorem load_kernel_enters_witness:
  "\<exists>s'. load_kernel (\<lambda>_. 0x58) sample_data 0x5000 sample_ldr = Some (Enter_kernel 0x10000, s') \<and> bit (cr0 s') 31"
proof -
  have "\<exists>k\<ge>n. (0x58 :: uint8_t) AND 0x88 = 0x8" for n :: nat by auto
  moreover have "sample_elf = write_bytes SYS_KERNEL_ADDR (disk_bytes sample_data 0 128000) (lmem sample_ldr)"
    by (simp add: sample_disk sample_ldr_def SYS_KERNEL_ADDR_def)
  ultimately show ?thesis
    using load_kernel_enters [of "\<lambda>_. 0x58" sample_elf sample_data sample_ldr "0x5000" 86] sample_loadable
    by (auto simp: SYS_KERNEL_ADDR_def sample_elf_members)
qed

end
