(* ===== verification/Translation.thy ===== *)
theory Translation
  imports Kernel_Table Loader_Elf
begin

text \<open>
  What the page tables mean: the translation that the processor does with them, and the views of
  memory that \<open>enable_page_mode\<close> (\<open>src/source/loader/loader_32.c\<close>) and \<open>memory_create_uvm\<close>
  (\<open>src/source/kernel/core/memory.c\<close>) set up, and what a failed \<open>create_kernel_table\<close> leaves.
\<close>

section \<open>Translation by the processor\<close>

definition dir_entry :: "mem \<Rightarrow> addr \<Rightarrow> uint32_t \<Rightarrow> uint32_t" where
  "dir_entry m dir v = load32 m (dir + 4 * pde_index v)"

definition table_entry :: "mem \<Rightarrow> uint32_t \<Rightarrow> uint32_t \<Rightarrow> uint32_t" where
  "table_entry m pde v = load32 m (pde_paddr pde + 4 * word_of_int (pte_index v))"

text \<open>
  The physical address of a virtual one, with the permission to write; no result is a page fault.
  Large pages need the bit of the entry and that of the control register.
\<close>

definition translate :: "'a machine_scheme \<Rightarrow> mem \<Rightarrow> uint32_t \<Rightarrow> (uint32_t \<times> bool) option" where
  "translate c m v =
    (if \<not> bit (cr0 c) 31 then Some (v, True)
     else
       let pde = dir_entry m (pde_paddr (cr3 c)) v
       in if \<not> entry_present pde then None
          else if bit (cr4 c) 4 \<and> bit pde 7 then Some (push_bit 22 (drop_bit 22 pde) OR take_bit 22 v, bit pde 1)
          else
            let pte = table_entry m pde v
            in if entry_present pte then Some (pte_paddr pte OR take_bit 12 v, bit pde 1 \<and> bit pte 1) else None)"

definition page_aligned :: "uint32_t \<Rightarrow> bool" where
  "page_aligned a \<longleftrightarrow> take_bit 12 a = 0"

lemma aligned_paddr [simp]: "page_aligned a \<Longrightarrow> pde_paddr a = a"
  using bits_ident [of 12 a] by (simp add: page_aligned_def pde_paddr_shift)

lemma index_less: "unat (pde_index v) < 1024" "nat (pte_index v) < 1024"
  using vaddr_split [of v v] by (simp, simp add: pte_index_eq)

lemma dir_entry_nth: "dir_entry m dir v = load32 m (dir + 4 * of_nat (unat (pde_index v)))"
  by (simp add: dir_entry_def)

lemma table_entry_nth: "table_entry m pde v = load32 m (pde_paddr pde + 4 * of_nat (nat (pte_index v)))"
proof -
  have "of_nat (nat (pte_index v)) = (word_of_int (pte_index v) :: uint32_t)" by (simp add: pte_index_eq)
  then show ?thesis unfolding table_entry_def by (simp only:)
qed

lemma translate_set_dir:
  "bit (cr0 c) 31 \<Longrightarrow> page_aligned dir \<Longrightarrow> translate (mmu_set_page_dir dir c) m v =
    (let pde = dir_entry m dir v
     in if \<not> entry_present pde then None
        else if bit (cr4 c) 4 \<and> bit pde 7 then Some (push_bit 22 (drop_bit 22 pde) OR take_bit 22 v, bit pde 1)
        else
          let pte = table_entry m pde v
          in if entry_present pte then Some (pte_paddr pte OR take_bit 12 v, bit pde 1 \<and> bit pte 1) else None)"
  by (simp add: translate_def mmu_set_page_dir_def write_cr3_def Let_def)

section \<open>The loader's view\<close>

text \<open>
  C38: the loader enters the kernel with an identity mapping.  With its directory in memory as initialised,
  \<open>enable_page_mode\<close> makes every address of the first four megabytes its own, writable, through one large
  page; all others fault.
\<close>

theorem enable_page_mode_identity:
  assumes "page_aligned page_dir" and "\<And>i. i < 1024 \<Longrightarrow> load32 m (page_dir + 4 * of_nat i) = page_dir_entry i"
  shows "translate (enable_page_mode page_dir c) m v = (if v < 0x400000 then Some (v, True) else None)"
proof -
  let ?c = "enable_page_mode page_dir c"
  have c: "bit (cr0 ?c) 31" "bit (cr4 ?c) 4" "cr3 ?c = page_dir" using enable_page_mode_control by blast+
  have e: "dir_entry m page_dir v = page_dir_entry (unat v div 2 ^ 22)"
    using assms(2) [OF index_less(1)] by (simp add: dir_entry_nth unat_pde_index)
  show ?thesis
  proof (cases "unat v < 2 ^ 22")
    case True
    then have "take_bit 22 v = v" by (simp add: word_unat_eq_iff take_bit_eq_mod unat_mod)
    moreover have "dir_entry m page_dir v = 0x83"
      using True by (simp add: e page_dir_entry_def PDE_P_def PDE_W_def PDE_PS_def)
    ultimately show ?thesis
      using True c assms(1) by (simp add: translate_def entry_present_bit word_less_nat_alt)
  next
    case False
    then have "unat v div 2 ^ 22 \<noteq> 0" by (simp add: div_eq_0_iff)
    then have "dir_entry m page_dir v = 0" by (simp add: e page_dir_entry_def)
    then show ?thesis using False c assms(1) by (simp add: translate_def entry_present_bit word_less_nat_alt)
  qed
qed

definition sample_page_dir :: mem where
  "sample_page_dir = store32 0x9000 0x83 (\<lambda>_. 0)"

theorem enable_page_mode_identity_witness:
  "translate (enable_page_mode 0x9000 sample_ldr) sample_page_dir 0x123456 = Some (0x123456, True) \<and>
   translate (enable_page_mode 0x9000 sample_ldr) sample_page_dir 0x400000 = None"
proof -
  have zero: "load32 sample_page_dir (0x9000 + 4 * of_nat (Suc i)) = 0" if "Suc i < 1024" for i
  proof -
    have "span (0x9000 :: addr) 4 \<inter> span (0x9000 + 4 * of_nat (Suc i)) 4 = {}"
      using span_entry_disjoint [of 0 "Suc i" "0x9000"] that by simp
    then have "load32 sample_page_dir (0x9000 + 4 * of_nat (Suc i)) = load32 (\<lambda>_. 0) (0x9000 + 4 * of_nat (Suc i))"
      unfolding sample_page_dir_def by (intro load_store_other) blast
    then show ?thesis by (simp add: load32_def)
  qed
  have "load32 sample_page_dir (0x9000 + 4 * of_nat i) = page_dir_entry i" if "i < 1024" for i
  proof (cases i)
    case 0
    then show ?thesis by (simp add: sample_page_dir_def page_dir_entry_def PDE_P_def PDE_W_def PDE_PS_def)
  next
    case (Suc j)
    then show ?thesis using zero [of j] that by (simp add: page_dir_entry_def)
  qed
  moreover have "page_aligned 0x9000" by (simp add: page_aligned_def)
  ultimately show ?thesis
    using enable_page_mode_identity [of "0x9000" sample_page_dir sample_ldr "0x123456"]
      enable_page_mode_identity [of "0x9000" sample_page_dir sample_ldr "0x400000"] by simp
qed

section \<open>The view of a new address space\<close>

text \<open>The directory is read as before unless its own page changes; a store changes one entry.\<close>

lemma dir_entry_cong:
  assumes "\<And>a. a \<in> span dir 4096 \<Longrightarrow> m' a = m a"
  shows "dir_entry m' dir v = dir_entry m dir v"
  unfolding dir_entry_nth using span_entry [OF index_less(1) [of v], of dir] assms by (intro load32_cong) auto

lemma dir_entry_store:
  "dir_entry (store32 (dir + 4 * pde_index v) x m) dir w = (if pde_index w = pde_index v then x else dir_entry m dir w)"
proof (cases "pde_index w = pde_index v")
  case False
  let ?i = "unat (pde_index w)" and ?j = "unat (pde_index v)"
  have "?i < ?j \<or> ?j < ?i" using False by (metis linorder_neqE_nat word_unat_eq_iff)
  then have "span (dir + 4 * of_nat ?i) 4 \<inter> span (dir + 4 * of_nat ?j) 4 = {}"
    using span_entry_disjoint [of ?i ?j dir] span_entry_disjoint [of ?j ?i dir] index_less(1) [of v] index_less(1) [of w]
    by (auto simp: Int_commute simp del: span.simps)
  then have "load32 (store32 (dir + 4 * pde_index v) x m) (dir + 4 * pde_index w) = load32 m (dir + 4 * pde_index w)"
    by (intro load_store_other) simp
  with False show ?thesis by (simp add: dir_entry_def)
qed (simp add: dir_entry_def)

text \<open>Tables outside a changed page are read as before.\<close>

lemma table_entry_cong:
  assumes "\<And>a. a \<notin> P \<Longrightarrow> m' a = m a" and "span (pde_paddr pde) 4096 \<inter> P = {}"
  shows "table_entry m' pde v = table_entry m pde v"
  unfolding table_entry_nth
proof (rule load32_cong, rule assms(1))
  fix a
  assume "a \<in> span (pde_paddr pde + 4 * of_nat (nat (pte_index v))) 4"
  then have "a \<in> span (pde_paddr pde) 4096" using span_entry [OF index_less(2) [of v], of "pde_paddr pde"] by auto
  with assms(2) show "a \<notin> P" by blast
qed

text \<open>
  C34: a new address space looks like the kernel's below \<open>MEMORY_TASK_BASE\<close> and is empty above.  When the
  allocator gave a page for the directory and none of the kernel's tables lies in it, then after
  loading the new directory every kernel address is translated as with the kernel's own directory,
  faults and permissions included, and every address of the task's half faults.
\<close>

theorem memory_create_uvm_view:
  assumes "addr_alloc_page 1 s = Some (p, s1)" and "p \<noteq> 0" and "span p 4096 \<inter> span kernel_page_dir 4096 = {}"
    and al: "page_aligned p" "page_aligned kernel_page_dir" and "bit (cr0 c) 31"
    and tables: "\<And>v. v < MEMORY_TASK_BASE \<Longrightarrow> entry_present (dir_entry (ram s1) kernel_page_dir v) \<Longrightarrow>
      span (pde_paddr (dir_entry (ram s1) kernel_page_dir v)) 4096 \<inter> span p 4096 = {}"
  shows "\<exists>s'. memory_create_uvm kernel_page_dir s = Some (p, s') \<and>
    (\<forall>v. translate (mmu_set_page_dir p c) (ram s') v =
      (if v < MEMORY_TASK_BASE then translate (mmu_set_page_dir kernel_page_dir c) (ram s1) v else None))"
proof -
  from memory_create_uvm_shares_kernel [OF assms(1-3)] obtain s' where
    uvm: "memory_create_uvm kernel_page_dir s = Some (p, s')"
    and entries: "\<forall>i<1024. load32 (ram s') (p + 4 * of_nat i) =
       (if i < unat (pde_index MEMORY_TASK_BASE) then load32 (ram s1) (kernel_page_dir + 4 * of_nat i) else 0)"
    and frame: "\<forall>a. a \<notin> span p 4096 \<longrightarrow> ram s' a = ram s1 a" by blast
  have low: "unat (pde_index v) < unat (pde_index MEMORY_TASK_BASE) \<longleftrightarrow> v < MEMORY_TASK_BASE" for v
    by (simp add: unat_pde_index MEMORY_TASK_BASE_def word_less_nat_alt div_less_iff_less_mult)
  have dir: "dir_entry (ram s') p v = (if v < MEMORY_TASK_BASE then dir_entry (ram s1) kernel_page_dir v else 0)" for v
    unfolding dir_entry_nth low [symmetric] using entries index_less(1) [of v] by blast
  have "table_entry (ram s') pde v = table_entry (ram s1) pde v"
    if "v < MEMORY_TASK_BASE" "pde = dir_entry (ram s1) kernel_page_dir v" "entry_present pde" for pde v
    using table_entry_cong [of "span p 4096" "ram s'" "ram s1" pde v] frame tables [OF that(1)] that(2,3) by blast
  then have "translate (mmu_set_page_dir p c) (ram s') v =
      (if v < MEMORY_TASK_BASE then translate (mmu_set_page_dir kernel_page_dir c) (ram s1) v else None)" for v
    using assms(6) al dir [of v] by (simp add: translate_set_dir Let_def) (simp add: entry_present_bit)
  with uvm show ?thesis by blast
qed

lemma sample_page:
  assumes "m 0x10000 = 0"
  shows "\<exists>s1. addr_alloc_page 1 (set_ram m sample_mst) = Some (0x100000, s1) \<and> ram s1 = m"
proof -
  let ?b = "\<lparr>bitcount = 16, bits = 0x10000\<rparr>" and ?s = "set_ram m sample_mst"
  have "\<not> bit_of ?b m 0" using assms by (simp add: bit_of_def)
  then obtain st where "bitmap_alloc_nbits ?b 0 1 m \<lparr>search_idx = 0, alog = []\<rparr> = Some (0, m, st)"
    using alloc_one_here [of "\<lparr>search_idx = 0, alog = []\<rparr>" ?b m] assms
    by (auto simp: bitmap_alloc_nbits_def clear_first_bit fun_upd_idem)
  then show ?thesis using alloc_page_quiet [of ?s 1 0 m st] by auto
qed

definition sample_tables :: mem where
  "sample_tables = store32 (0x20000 + 4 * pde_index 0x400000) 0x5007 (store32 0x5000 0x7003 (\<lambda>_. 0))"

lemma sample_tables_dir: "dir_entry sample_tables 0x20000 v = (if pde_index v = 1 then 0x5007 else 0)"
proof -
  have "span (of_nat 0x5000) 4 \<inter> span (of_nat 0x20000) 4096 = {}" by (rule span_of_nat_disjoint) simp_all
  then have "dir_entry (store32 0x5000 0x7003 (\<lambda>_. 0)) 0x20000 v = dir_entry (\<lambda>_. 0) 0x20000 v"
    by (intro dir_entry_cong store32_other) (auto simp del: span.simps)
  moreover have "pde_index 0x400000 = 1" by (simp add: pde_index_def)
  ultimately show ?thesis unfolding sample_tables_def dir_entry_store by (simp add: dir_entry_def load32_def)
qed

theorem memory_create_uvm_view_witness:
  "\<exists>s'. memory_create_uvm 0x20000 (set_ram sample_tables sample_mst) = Some (0x100000, s') \<and>
     translate (mmu_set_page_dir 0x100000 (sample_ldr\<lparr>cr0 := 0x80000001\<rparr>)) (ram s') 0x400123 = Some (0x7123, True) \<and>
     translate (mmu_set_page_dir 0x100000 (sample_ldr\<lparr>cr0 := 0x80000001\<rparr>)) (ram s') 0x80000123 = None"
proof -
  let ?c = "sample_ldr\<lparr>cr0 := 0x80000001\<rparr>"
  have "sample_tables 0x10000 = 0" by (simp add: sample_tables_def store32_def word_bytes_def pde_index_def)
  from sample_page [of sample_tables, OF this] obtain s1 where
    s1: "addr_alloc_page 1 (set_ram sample_tables sample_mst) = Some (0x100000, s1)" "ram s1 = sample_tables" by blast
  have apart: "span 0x100000 4096 \<inter> span 0x20000 4096 = {}" "span 0x5000 4096 \<inter> span 0x100000 4096 = {}"
    using span_of_nat_disjoint [of "0x20000" 4096 "0x100000" 4096] span_of_nat_disjoint [of "0x5000" 4096 "0x100000" 4096]
    by (simp_all add: Int_commute del: span.simps)
  have al: "page_aligned 0x100000" "page_aligned 0x20000" by (simp_all add: page_aligned_def)
  have "pde_paddr 0x5007 = 0x5000" by (simp add: pde_paddr_shift)
  then have tables: "span (pde_paddr (dir_entry (ram s1) 0x20000 v)) 4096 \<inter> span 0x100000 4096 = {}"
    if "entry_present (dir_entry (ram s1) 0x20000 v)" for v
    using that apart(2) by (simp add: s1(2) sample_tables_dir entry_present_bit del: span.simps split: if_splits)
  have "table_entry sample_tables 0x5007 0x400123 = 0x7003"
    by (simp add: table_entry_def pde_paddr_shift pte_index_def load32_def sample_tables_def store32_def
        word_bytes_def pde_index_def)
  then have "translate (mmu_set_page_dir 0x20000 ?c) sample_tables 0x400123 = Some (0x7123, True)"
    using al by (simp add: translate_set_dir sample_tables_dir pde_index_def entry_present_bit pte_paddr_shift)
  with memory_create_uvm_view [where c = ?c, OF s1(1) _ apart(1) al _ tables] s1(2) show ?thesis
    by (auto simp: MEMORY_TASK_BASE_def)
qed

section \<open>The kernel's table without memory for tables\<close>

text \<open>
  When no entry can be found for any page, which \<open>find_pte\<close> reports by a null pointer, every row of the
  table fails in \<open>memory_create_map\<close>, with the result -1.
\<close>

lemma no_pte_rows:
  assumes "\<forall>v s. find_pte dir v 1 s = (NULL, s)"
  shows "map_entries find_pte dir maps s = Done s"
proof -
  have "\<exists>r. map_pages find_pte dir v p n perm s = Done (r, s)" for v p n perm
    using assms by (cases n) simp_all
  then have "\<exists>r. memory_create_map find_pte dir v p n perm s = Done (r, s)" for v p n perm
    by (simp add: memory_create_map_def)
  then show ?thesis by (induction maps) (auto split: checked.split, metis checked.inject prod.inject, metis checked.distinct(1))
qed



end
