(* ===== verification/Power_On.thy ===== *)
theory Power_On
  imports First_Task Translation
begin

text \<open>
  From power on to the first task: the loader's two halves, \<open>kernel_init\<close> and \<open>init_main\<close>, one after the
  other, on one memory.
\<close>

section \<open>The loader\<close>

lemma total_mem_size_sum: "total_mem_size b = sum_list (map snd (valid_regions b))"
proof -
  have "foldl (\<lambda>x r. x + snd r) a rs = a + sum_list (map snd rs)" for a and rs :: "(uint32_t \<times> uint32_t) list"
    by (induction rs arbitrary: a) (simp_all add: add.assoc)
  then show ?thesis by (simp add: total_mem_size_def)
qed

lemma reported_length: "length (reported e820 n i contID) \<le> n"
  by (induction e820 n i contID rule: reported.induct) (auto simp: Let_def split: prod.split)

lemma loader_entry_effect:
  assumes "length (ram_region_cfg (boot_info s)) = nat BOOT_RAM_REGION_MAX" and "unat buffer + 3 \<le> 2 ^ 32"
  shows "\<exists>s'. loader_entry e820 buffer gdt entry s = Some ((8, entry), s') \<and> bit (cr0 s') 0 \<and> \<not> if_set s' \<and>
    total_mem_size (boot_info s') = sum_list (map snd (usable (reported e820 10 0 0))) \<and>
    length (valid_regions (boot_info s')) \<le> 2 ^ 31 \<and>
    (\<forall>a. a \<notin> span buffer 2 \<longrightarrow> lmem s' a = lmem s a)"
proof -
  let ?s1 = "show_msg (msg_bytes ''.....lodaDING......'' @ [10, 13]) s"
  have "length (ram_region_cfg (boot_info ?s1)) = nat BOOT_RAM_REGION_MAX" "lmem ?s1 = lmem s"
    using assms(1) by (simp_all add: show_msg_def)
  with detect_memory_effect [OF this(1) assms(2), of e820] obtain s2 where
    s2: "detect_memory e820 buffer ?s1 = Some s2" "valid_regions (boot_info s2) = usable (reported e820 10 0 0)"
      "\<forall>a. a \<notin> span buffer 2 \<longrightarrow> lmem s2 a = lmem s a" by auto
  obtain s3 where s3: "enter_protected_mode gdt entry s2 = ((8, entry), s3)" "boot_info s3 = boot_info s2"
    "bit (cr0 s3) 0" "\<not> if_set s3" "lmem s3 = lmem s2"
    by (simp add: enter_protected_mode_def Let_def cli_def outb_def lgdt_def write_cr0_def if_set_def
        EFLAGS_IF_def bit_or_iff bit_and_iff bit_not_iff bit_push_bit_iff)
  moreover have "length (usable (reported e820 10 0 0)) \<le> 2 ^ 31"
    using reported_length [of e820 10 0 0] by (simp add: usable_def le_trans [OF length_filter_le])
  ultimately show ?thesis using s2 by (auto simp: loader_entry_def total_mem_size_sum simp del: span.simps)
qed

text \<open>The disk holds a kernel that can be loaded, whatever was in memory before.\<close>

definition kernel_on_disk :: "(nat \<Rightarrow> uint16_t) \<Rightarrow> nat \<Rightarrow> bool" where
  "kernel_on_disk data n \<longleftrightarrow> (\<forall>m. loadable (write_bytes SYS_KERNEL_ADDR (disk_bytes data 0 128000) m) SYS_KERNEL_ADDR n \<and>
    e_entry (write_bytes SYS_KERNEL_ADDR (disk_bytes data 0 128000) m) SYS_KERNEL_ADDR \<noteq> 0)"

section \<open>The kernel\<close>

text \<open>Where the name of the idle task is copied: 32 bytes and the byte behind them, for a long name.\<close>

definition idle_place :: "kst \<Rightarrow> addr set" where
  "idle_place s = span (idle_task s + off_name) 33"

text \<open>
  The kernel at its entry: the two strings that \<open>init_main\<close> prints are in memory, outside the message
  buffer, the place of the idle task's name and the memory \<open>W\<close> that \<open>kernel_init\<close> writes.
\<close>

definition power_layout :: "(addr \<Rightarrow> addr) \<Rightarrow> image \<Rightarrow> kst \<Rightarrow> addr set \<Rightarrow> bool" where
  "power_layout buf im s W \<longleftrightarrow>
    arg_is (kmem s) (W \<union> idle_place s \<union> span (buf NULL) 128) (VPtr (version_str im)) (SStr (tx ''1.0.0'')) \<and>
    arg_is (kmem s) (W \<union> idle_place s \<union> span (buf NULL) 128) (VPtr (author_str im)) (SStr (tx ''shabi''))"

lemma strncpy_loop_other:
  assumes "strncpy_loop (int n) d src m = Some (z, d', m')"
  shows "\<exists>k\<le>n. d' = d + of_nat k \<and> (z = 0 \<longrightarrow> n = Suc k) \<and> (\<forall>a. a \<notin> span d n \<longrightarrow> m' a = m a)"
  using assms
proof (induction n arbitrary: d src m)
  case 0
  then show ?case by (simp add: strncpy_loop.simps [of 0])
next
  case (Suc n)
  show ?case
  proof (cases "m src = 0")
    case True
    with Suc.prems show ?thesis by (intro exI [of _ 0]) (simp add: strncpy_loop.simps [of "1 + int n"])
  next
    case False
    with Suc.prems have "strncpy_loop (int n) (d + 1) (src + 1) (m(d := m src)) = Some (z, d', m')"
      by (simp add: strncpy_loop.simps [of "1 + int n"])
    from Suc.IH [OF this] obtain k where "k \<le> n" "d' = d + 1 + of_nat k" "z = 0 \<longrightarrow> n = Suc k"
      "\<forall>a. a \<notin> span (d + 1) n \<longrightarrow> m' a = (m(d := m src)) a" by blast
    then show ?thesis by (intro exI [of _ "Suc k"]) auto
  qed
qed

lemma name_copy_other:
  assumes "kernel_strncpy (idle_task s + off_name) name TASK_NAME_SIZE m = Some m'" and "a \<notin> idle_place s"
  shows "m' a = m a"
proof (cases "idle_task s + off_name = NULL \<or> name = NULL")
  case True
  with assms(1) show ?thesis by (auto simp: kernel_strncpy_def)
next
  case False
  let ?d = "idle_task s + off_name"
  from False assms(1) obtain z d' m1 where loop: "strncpy_loop (int 32) ?d name m = Some (z, d', m1)"
    and m': "m' = (if z = 0 then m1(d' - 1 := 0) else m1(d' := 0))"
    by (auto simp: kernel_strncpy_def TASK_NAME_SIZE_def split: if_splits)
  from strncpy_loop_other [OF loop] obtain k where k: "k \<le> 32" "d' = ?d + of_nat k" "z = 0 \<longrightarrow> 32 = Suc k"
    "\<forall>a. a \<notin> span ?d 32 \<longrightarrow> m1 a = m a" by blast
  have out: "a \<noteq> ?d + of_nat j" if "j < 33" for j using assms(2) that unfolding idle_place_def span_iff by blast
  have "a \<notin> span ?d 32" using assms(2) span_mono [of 32 33 ?d] by (auto simp: idle_place_def simp del: span.simps)
  moreover have "a \<noteq> d'" using out [of k] k(1,2) by simp
  moreover have "z = 0 \<longrightarrow> a \<noteq> d' - 1" using out [of 30] k(2,3) by auto
  ultimately show ?thesis using m' k(4) by simp
qed

definition start_lines :: "uint8_t list list" where
  "start_lines = [tx ''kernel is running...'', tx ''version 1.0.0 shabi'', tx ''-123456 123456 12345 c'',
    tx ''first_task_init slice_ticks: 10'']"

text \<open>
  What the kernel does when it starts in \<open>ms\<close>: \<open>kernel_init\<close> and \<open>init_main\<close> return; everything the devices
  received; and the state behind them, in which the first task is current.
\<close>

definition kernel_starts ::
    "(addr \<Rightarrow> addr) \<Rightarrow> (nat \<Rightarrow> uint8_t) \<Rightarrow> image \<Rightarrow> (mst \<Rightarrow> mst) \<Rightarrow> boot_info_t \<Rightarrow> mst \<Rightarrow> kst \<Rightarrow> bool" where
  "kernel_starts buf lsr im creat_kernel_tables info ms k \<longleftrightarrow> (let i = idle_task (ks ms); f = first_task (ks ms) in
    (\<exists>s0. kernel_init buf lsr im creat_kernel_tables info ms = Some (Done s0) \<and> finish buf lsr (init_main im (ks s0)) = Some k) \<and>
    outs k = outs (ks ms) @ to_com1 (lines_of (mem_lines info)) @ com1_setup @ pic_setup @ timer_setup @
      to_com1 (lines_of start_lines) \<and>
    kernel_inv {i, f} k ((\<lambda>_. [])(Q_ready := [f], Q_all := [i, f])) \<and> curr_task k = f \<and>
    tss_eip (tss (tasks k f)) = 0 \<and> cr3 k = 0 \<and> cr0 k = cr0 (ks ms))"

lemma kernel_start:
  assumes cold: "cold (ks s)" and T: "task_space {idle_task (ks s), first_task (ks s)}" "idle_task (ks s) \<noteq> first_task (ks s)"
    and free: "free_at im \<noteq> NULL" "unat (free_at im) + (free_pages info + 7) div 8 < 0x80000"
    and ram: "2 ^ 20 \<le> unat (total_mem_size info)" "length (valid_regions info) \<le> 2 ^ 31"
    and tables: "tables_in K creat_kernel_tables"
    and dev: "\<exists>k. lsr k AND 0x20 \<noteq> 0" and buf: "buffer_ok (buf NULL)"
    and L: "power_layout buf im (ks s) (init_writes buf im info K)"
  shows "\<exists>k. kernel_starts buf lsr im creat_kernel_tables info s k"
proof -
  let ?i = "idle_task (ks s)" and ?f = "first_task (ks s)" and ?B = "span (buf NULL) 128"
  let ?R = "init_writes buf im info K \<union> idle_place (ks s) \<union> ?B"
  have "task_space {?i}" "unat (free_at im) < 2 ^ 20" using T(1) free(2) by (auto simp: task_space_def)
  from kernel_init_effect [where buf = buf and lsr = lsr, OF cold this(1) free(1) this(2) ram free(2) tables dev buf]
  obtain s0 x m where
    s0: "kernel_init buf lsr im creat_kernel_tables info s = Some (Done s0)" "came_up im creat_kernel_tables info s x s0"
      "idle_task (ks s0) = ?i" "first_task (ks s0) = ?f"
    and m: "kernel_strncpy (?i + off_name) (idle_name im) TASK_NAME_SIZE m = Some (kmem (ks s0))"
      "\<forall>a. a \<notin> init_writes buf im info K \<longrightarrow> m a = kmem (ks s) a" by blast
  note up = s0(2) [unfolded came_up_def Let_def]
  have "kmem (ks s0) a = kmem (ks s) a" if "a \<notin> ?R" for a
    using that m(2) name_copy_other [OF m(1)] by auto
  then have lits: "arg_is (kmem (ks s0)) ?B (VPtr (version_str im)) (SStr (tx ''1.0.0''))"
    "arg_is (kmem (ks s0)) ?B (VPtr (author_str im)) (SStr (tx ''shabi''))"
    using L arg_is_change [of "kmem (ks s)" ?R _ _ "kmem (ks s0)" ?B] by (auto simp: power_layout_def simp del: arg_is.simps)
  have prep: "prepared (ks s0)" using up by simp
  from init_main_effect [where buf = buf and im = im and lsr = lsr, OF prep, unfolded s0(3,4), OF T dev buf lits] obtain k where
    k: "runs buf lsr (init_main im (ks s0)) k" "handed_over (ks s0) k" "cr3 k = 0"
      "outs k = outs (ks s0) @ to_com1 (lines_of start_lines)" unfolding start_lines_def by blast
  note H = k(2) [unfolded handed_over_def s0(3,4)]
  have "finish buf lsr (init_main im (ks s0)) = Some k" using finish_runs [OF k(1)] H by blast
  with s0(1) up H k(3,4) have "kernel_starts buf lsr im creat_kernel_tables info s k"
    by (simp add: kernel_starts_def Let_def start_tss_def)
  then show ?thesis ..
qed

text \<open>
  With the directory at zero and paging on, the first four kilobytes of memory are the directory.
\<close>

lemma zero_directory:
  assumes "bit (cr0 c) 31" and "cr3 c = 0" and "\<not> bit (load32 m (4 * pde_index v)) 0"
  shows "translate c m v = None"
  using assms by (simp add: translate_def dir_entry_def pde_paddr_shift entry_present_bit)


section \<open>A concrete machine\<close>

definition sample_read :: "mem \<Rightarrow> mem" where
  "sample_read m = write_bytes SYS_KERNEL_ADDR (disk_bytes sample_data 0 128000) m"

lemma sample_read_image: "a \<in> span 0x100000 86 \<Longrightarrow> sample_read m a = sample_elf a"
proof -
  assume "a \<in> span 0x100000 86"
  then obtain i where "i < 86" "a = 0x100000 + of_nat i" unfolding span_iff by blast
  then show ?thesis
    using write_bytes_at [of "disk_bytes sample_data 0 128000" i "0x100000" m]
      write_bytes_at [of "disk_bytes sample_data 0 128000" i "0x100000" "\<lambda>_. 0"] sample_disk
    by (simp add: sample_read_def SYS_KERNEL_ADDR_def)
qed

lemma sample_read_loadable: "loadable (sample_read m) 0x100000 86"
  using sample_loadable sample_read_image by (rule loadable_cong)

lemma sample_read_header:
  "e_entry (sample_read m) 0x100000 = 0x10000" "e_phnum (sample_read m) 0x100000 = 1" "phdr_at (sample_read m) 0x100000 0 = 0x100034"
proof -
  note h = header_members_cong [of "0x100000" 86 "sample_read m" sample_elf]
  show "e_entry (sample_read m) 0x100000 = 0x10000" "e_phnum (sample_read m) 0x100000 = 1" "phdr_at (sample_read m) 0x100000 0 = 0x100034"
    using h sample_read_image [of _ m] sample_elf_members by (simp_all add: phdr_at_def del: span.simps)
qed

lemma sample_read_dest: "seg_dest (sample_read m) 0x100034 = span 0x10000 4"
proof -
  have "span 0x100034 32 \<subseteq> span 0x100000 86" using span_sub [of 52 32 86 "0x100000"] by (simp del: span.simps)
  then have "sample_read m a = sample_elf a" if "a \<in> span 0x100034 32" for a using that sample_read_image by blast
  note p = phdr_members_cong [of "0x100034" "sample_read m" sample_elf, OF this]
  show ?thesis using sample_elf_members by (simp add: seg_dest_def p del: span.simps)
qed

lemma sample_on_disk: "kernel_on_disk sample_data 86"
  using sample_read_loadable sample_read_header(1)
  by (simp add: kernel_on_disk_def sample_read_def SYS_KERNEL_ADDR_def)

text \<open>Loading the sample kernel leaves the literals alone.\<close>

lemma sample_load_keeps:
  assumes "a \<in> span 0x9000 64"
  shows "segment_loop SYS_KERNEL_ADDR 0 (sample_read m) a = m a"
proof -
  have "span 0x9000 64 \<inter> span 0x10000 4 = {}" "span 0x9000 64 \<inter> span 0x100000 256000 = {}" by (intro span_apart; simp)+
  then have a: "a \<notin> span 0x10000 4" "a \<notin> span 0x100000 256000" using assms by blast+
  from segment_loop_spec [OF sample_read_loadable le0 refl, of m] sample_read_header [of m] sample_read_dest [of m] a(1)
  have "segment_loop 0x100000 0 (sample_read m) a = sample_read m a" by (simp del: span.simps)
  also have "\<dots> = m a" using a(2) by (simp add: sample_read_def SYS_KERNEL_ADDR_def write_bytes_other del: span.simps)
  finally show ?thesis by (simp add: SYS_KERNEL_ADDR_def)
qed

text \<open>The strings at their places, outside all memory that the kernel writes before it prints them.\<close>

lemma sample_power_layout:
  assumes m: "\<And>a. a \<in> span 0x9000 64 \<Longrightarrow> m a = sample_strings a" and pages: "free_pages info = 0x7e7f"
  shows "power_layout (\<lambda>_. 0x8000) boot_image (cold_state\<lparr>kmem := m\<rparr>) (init_writes (\<lambda>_. 0x8000) boot_image info {})"
proof -
  have im: "version_str boot_image = 0x9000" "author_str boot_image = 0x9010" "free_at boot_image = 0x20000"
    "idle0 + off_name = 0x1010" by (simp_all add: boot_image_def off_name_def)
  have sub: "span 0x9000 6 \<subseteq> span 0x9000 64" "span 0x9010 6 \<subseteq> span 0x9000 64"
    using span_sub [of 0 6 64 "0x9000"] span_sub [of "0x10" 6 64 "0x9000"] by (simp_all del: span.simps)
  have "span 0x8000 128 \<inter> span 0x9000 64 = {}" "span 0x1010 33 \<inter> span 0x9000 64 = {}"
    "span 0x9000 64 \<inter> span 0x20000 0xFD0 = {}" by (intro span_apart; simp)+
  with sub have apart: "span 0x9000 6 \<inter> ({} \<union> span 0x20000 0xFD0 \<union> span 0x8000 128 \<union> span 0x1010 33 \<union> span 0x8000 128) = {}"
    "span 0x9010 6 \<inter> ({} \<union> span 0x20000 0xFD0 \<union> span 0x8000 128 \<union> span 0x1010 33 \<union> span 0x8000 128) = {}" by blast+
  have len: "Suc (length (tx ''1.0.0'')) = 6" "Suc (length (tx ''shabi'')) = 6" by (simp_all add: tx_def)
  have "arg_is sample_strings (- span 0x9000 64) (VPtr 0x9000) (SStr (tx ''1.0.0''))"
    "arg_is sample_strings (- span 0x9000 64) (VPtr 0x9010) (SStr (tx ''shabi''))"
    unfolding arg_is.simps len using sample_cstrings sub by (auto simp del: span.simps)
  then have str: "arg_is m (- span 0x9000 64) (VPtr 0x9000) (SStr (tx ''1.0.0''))"
    "arg_is m (- span 0x9000 64) (VPtr 0x9010) (SStr (tx ''shabi''))"
    using m arg_is_change [of sample_strings "- span 0x9000 64" _ _ m "- span 0x9000 64"] by (simp_all del: arg_is.simps span.simps)
  have f: "idle_task (cold_state\<lparr>kmem := m\<rparr>) = idle0" "kmem (cold_state\<lparr>kmem := m\<rparr>) = m" using cold_state_facts by simp_all
  have "((0x7e7f :: nat) + 7) div 8 = 0xFD0" by simp
  with str apart show ?thesis
    unfolding power_layout_def init_writes_def bitmap_at_def idle_place_def f im pages arg_is.simps len by (simp del: span.simps)
qed


end
