(* ===== verification/Address_Space.thy ===== *)
theory Address_Space
  imports Memory
begin

text \<open>
  Destroying an address space, \<open>memory_destroy_uvm\<close> of \<open>src/source/kernel/core/memory.c\<close>: the pages of the
  user half, the page tables and the page directory go back to the allocator, and no other page does.
\<close>

section \<open>Freed pages\<close>

text \<open>The number that \<open>addr_free_page\<close> gives a page, and the bytes that hold a bitmap.\<close>

definition page_no :: "addr_alloc_t \<Rightarrow> uint32_t \<Rightarrow> int" where
  "page_no al p = sint ((p - astart al) div apage_size al)"

definition bitmap_bytes :: "bitmap_t \<Rightarrow> addr set" where
  "bitmap_bytes b = {bits b + word_of_int (j div 8) | j. 0 \<le> j \<and> j < bitcount b}"

definition freed :: "bitmap_t \<Rightarrow> int set \<Rightarrow> mem \<Rightarrow> mem \<Rightarrow> bool" where
  "freed b K m m' \<longleftrightarrow>
    (\<forall>j. 0 \<le> j \<and> j < bitcount b \<longrightarrow> bit_of b m' j = (bit_of b m j \<and> j \<notin> K)) \<and>
    (\<forall>a. a \<notin> bitmap_bytes b \<longrightarrow> m' a = m a)"

lemma set_ram_twice [simp]: "set_ram x (set_ram y s) = set_ram x s"
  by (simp add: set_ram_def)

lemma freed_none [simp]: "freed b {} m m"
  by (simp add: freed_def)

lemma freed_trans: "freed b K m m' \<Longrightarrow> freed b L m' m'' \<Longrightarrow> freed b (K \<union> L) m m''"
  by (auto simp: freed_def)

lemma freed_other: "freed b K m m' \<Longrightarrow> a \<notin> bitmap_bytes b \<Longrightarrow> m' a = m a"
  by (simp add: freed_def)

lemma free_one:
  assumes "quiet s" and "bitmap_ok (abitmap (paddr_alloc s))" and "0 \<le> page_no (paddr_alloc s) p"
  shows "\<exists>m. addr_free_page p 1 s = Some (set_ram m s) \<and>
    freed (abitmap (paddr_alloc s)) {page_no (paddr_alloc s) p} (ram s) m"
proof -
  let ?b = "abitmap (paddr_alloc s)" and ?k = "page_no (paddr_alloc s) p"
  from free_page_quiet [OF assms(1), of p 1] assms(3) obtain m where
    m: "bitmap_set_bit ?b ?k 1 0 (ram s) = Some m" "addr_free_page p 1 s = Some (set_ram m s)"
    by (auto simp: page_no_def)
  from set_loop_eq [OF assms(2,3), of 0 1 0 "ram s"] m(1)
  have "freed ?b {?k} (ram s) m" by (auto simp: freed_def bitmap_bytes_def bitmap_set_bit_def)
  with m(2) show ?thesis by blast
qed

section \<open>Tables\<close>

definition entry_at :: "mem \<Rightarrow> addr \<Rightarrow> nat \<Rightarrow> uint32_t" where
  "entry_at m p i = load32 m (p + 4 * of_nat i)"

lemma entry_at_simps [simp]: "entry_at m p 0 = load32 m p" "entry_at m (p + 4) i = entry_at m p (Suc i)"
  by (simp_all add: entry_at_def algebra_simps)

definition outside :: "addr set \<Rightarrow> addr \<Rightarrow> nat \<Rightarrow> bool" where
  "outside B p n \<longleftrightarrow> (\<forall>i<n. span (p + 4 * of_nat i) 4 \<inter> B = {})"

lemma outside_Suc: "outside B p (Suc n) \<longleftrightarrow> span p 4 \<inter> B = {} \<and> outside B (p + 4) n"
  unfolding outside_def by (subst All_less_Suc2) (simp add: algebra_simps del: span.simps)

lemma freed_entry: "freed b K m m' \<Longrightarrow> outside (bitmap_bytes b) p n \<Longrightarrow> i < n \<Longrightarrow> entry_at m' p i = entry_at m p i"
  unfolding entry_at_def by (rule load32_cong) (auto simp: outside_def intro: freed_other simp del: span.simps)

text \<open>The pages that a page table maps, and those of a row of directory entries with their tables.\<close>

definition table_pages :: "addr_alloc_t \<Rightarrow> mem \<Rightarrow> addr \<Rightarrow> nat \<Rightarrow> int set" where
  "table_pages al m pte n =
    (\<lambda>i. page_no al (pte_paddr (entry_at m pte i))) ` {i. i < n \<and> entry_present (entry_at m pte i)}"

definition dir_pages :: "addr_alloc_t \<Rightarrow> mem \<Rightarrow> addr \<Rightarrow> nat \<Rightarrow> int set" where
  "dir_pages al m pde n =
    (\<Union>i \<in> {i. i < n \<and> entry_present (entry_at m pde i)}.
      insert (page_no al (pde_paddr (entry_at m pde i))) (table_pages al m (pde_paddr (entry_at m pde i)) PTE_CNT))"

lemma less_Suc_set: "{i. i < Suc n \<and> P i} = (if P 0 then {0} else {}) \<union> Suc ` {i. i < n \<and> P (Suc i)}"
proof (intro set_eqI iffI)
  fix i assume "i \<in> {i. i < Suc n \<and> P i}"
  then show "i \<in> (if P 0 then {0} else {}) \<union> Suc ` {i. i < n \<and> P (Suc i)}" by (cases i) auto
qed (auto split: if_splits)

lemma table_pages_Suc:
  "table_pages al m pte (Suc n) =
    (if entry_present (load32 m pte) then {page_no al (pte_paddr (load32 m pte))} else {}) \<union> table_pages al m (pte + 4) n"
  unfolding table_pages_def less_Suc_set by (simp add: image_Un image_image)

lemma dir_pages_Suc:
  "dir_pages al m pde (Suc n) =
    (if entry_present (load32 m pde)
     then insert (page_no al (pde_paddr (load32 m pde))) (table_pages al m (pde_paddr (load32 m pde)) PTE_CNT) else {}) \<union>
    dir_pages al m (pde + 4) n"
  unfolding dir_pages_def less_Suc_set by simp

lemma freed_table:
  assumes "freed b K m m'" and "outside (bitmap_bytes b) pte n"
  shows "table_pages al m' pte n = table_pages al m pte n"
  unfolding table_pages_def by (rule image_cong) (auto simp: freed_entry [OF assms])

lemma free_table_frees:
  assumes "quiet s" and "bitmap_ok (abitmap (paddr_alloc s))" and "outside (bitmap_bytes (abitmap (paddr_alloc s))) pte n"
    and "\<forall>k \<in> table_pages (paddr_alloc s) (ram s) pte n. 0 \<le> k"
  shows "\<exists>m. free_table pte n s = Some (set_ram m s) \<and>
    freed (abitmap (paddr_alloc s)) (table_pages (paddr_alloc s) (ram s) pte n) (ram s) m"
  using assms
proof (induction n arbitrary: pte s)
  case 0
  then show ?case by (intro exI [of _ "ram s"]) (simp add: table_pages_def set_ram_def ram_def)
next
  case (Suc n)
  let ?al = "paddr_alloc s" and ?v = "load32 (ram s) pte"
  let ?b = "abitmap ?al"
  have out: "outside (bitmap_bytes ?b) (pte + 4) n" using Suc.prems(3) by (simp add: outside_Suc)
  show ?case
  proof (cases "entry_present ?v")
    case False
    with Suc.IH [of s "pte + 4"] Suc.prems out show ?thesis by (simp add: table_pages_Suc)
  next
    case True
    then have "0 \<le> page_no ?al (pte_paddr ?v)" using Suc.prems(4) by (simp add: table_pages_Suc)
    from free_one [OF Suc.prems(1,2) this] obtain m where
      m: "addr_free_page (pte_paddr ?v) 1 s = Some (set_ram m s)" "freed ?b {page_no ?al (pte_paddr ?v)} (ram s) m" by blast
    have same: "table_pages ?al m (pte + 4) n = table_pages ?al (ram s) (pte + 4) n" using freed_table [OF m(2) out] .
    have "\<forall>k \<in> table_pages ?al (ram s) (pte + 4) n. 0 \<le> k" using Suc.prems(4) by (simp add: table_pages_Suc)
    with Suc.IH [of "set_ram m s" "pte + 4"] Suc.prems(1,2) out same obtain m' where
      m': "free_table (pte + 4) n (set_ram m s) = Some (set_ram m' (set_ram m s))"
        "freed ?b (table_pages ?al (ram s) (pte + 4) n) m m'" by (simp only: mst_simps quiet_set_ram) blast
    have "free_table pte (Suc n) s = Some (set_ram m' s)" using True m(1) m'(1) by (simp add: Let_def)
    moreover have "freed ?b (table_pages ?al (ram s) pte (Suc n)) (ram s) m'"
      using True freed_trans [OF m(2) m'(2)] by (simp only: table_pages_Suc if_True)
    ultimately show ?thesis by blast
  qed
qed

section \<open>Directories\<close>

text \<open>The entries of the directory, and those of every present table, lie outside the bitmap.\<close>

definition readable :: "addr set \<Rightarrow> mem \<Rightarrow> addr \<Rightarrow> nat \<Rightarrow> bool" where
  "readable B m pde n \<longleftrightarrow> outside B pde n \<and>
    (\<forall>i<n. entry_present (entry_at m pde i) \<longrightarrow> outside B (pde_paddr (entry_at m pde i)) PTE_CNT)"

lemma readable_Suc:
  "readable B m pde (Suc n) \<longleftrightarrow> span pde 4 \<inter> B = {} \<and>
    (entry_present (load32 m pde) \<longrightarrow> outside B (pde_paddr (load32 m pde)) PTE_CNT) \<and> readable B m (pde + 4) n"
  unfolding readable_def outside_Suc by (subst All_less_Suc2) auto

lemma freed_dir:
  assumes "freed b K m m'" and "readable (bitmap_bytes b) m pde n"
  shows "dir_pages al m' pde n = dir_pages al m pde n" "readable (bitmap_bytes b) m' pde n"
proof -
  note R = assms(2) [unfolded readable_def]
  have e: "entry_at m' pde i = entry_at m pde i" if "i < n" for i using freed_entry [OF assms(1)] R that by blast
  show "readable (bitmap_bytes b) m' pde n" using R e by (simp add: readable_def)
  show "dir_pages al m' pde n = dir_pages al m pde n"
    unfolding dir_pages_def by (rule SUP_cong) (use e R freed_table [OF assms(1)] in auto)
qed

lemma free_dir_frees:
  assumes "quiet s" and "bitmap_ok (abitmap (paddr_alloc s))"
    and "readable (bitmap_bytes (abitmap (paddr_alloc s))) (ram s) pde n"
    and "\<forall>k \<in> dir_pages (paddr_alloc s) (ram s) pde n. 0 \<le> k"
  shows "\<exists>m. free_dir pde n s = Some (set_ram m s) \<and>
    freed (abitmap (paddr_alloc s)) (dir_pages (paddr_alloc s) (ram s) pde n) (ram s) m"
  using assms
proof (induction n arbitrary: pde s)
  case 0
  then show ?case by (intro exI [of _ "ram s"]) (simp add: dir_pages_def set_ram_def ram_def)
next
  case (Suc n)
  let ?al = "paddr_alloc s" and ?v = "load32 (ram s) pde"
  let ?b = "abitmap ?al" and ?T = "table_pages ?al (ram s) (pde_paddr ?v) PTE_CNT"
  have R: "span pde 4 \<inter> bitmap_bytes ?b = {}" "entry_present ?v \<Longrightarrow> outside (bitmap_bytes ?b) (pde_paddr ?v) PTE_CNT"
    "readable (bitmap_bytes ?b) (ram s) (pde + 4) n" using Suc.prems(3) by (auto simp: readable_Suc)
  show ?case
  proof (cases "entry_present ?v")
    case False
    with Suc.IH [of s "pde + 4"] Suc.prems R(3) show ?thesis by (simp add: dir_pages_Suc)
  next
    case True
    then have k: "\<forall>k \<in> ?T. 0 \<le> k" "0 \<le> page_no ?al (pde_paddr ?v)" "\<forall>k \<in> dir_pages ?al (ram s) (pde + 4) n. 0 \<le> k"
      using Suc.prems(4) by (simp_all add: dir_pages_Suc)
    from free_table_frees [OF Suc.prems(1,2) R(2) [OF True] k(1)] obtain m1 where
      m1: "free_table (pde_paddr ?v) PTE_CNT s = Some (set_ram m1 s)" "freed ?b ?T (ram s) m1" by blast
    have v: "load32 m1 pde = ?v" using R(1) freed_other [OF m1(2)] by (intro load32_cong) blast
    from free_one [of "set_ram m1 s" "pde_paddr ?v"] Suc.prems(1,2) k(2) obtain m2 where
      m2: "addr_free_page (pde_paddr ?v) 1 (set_ram m1 s) = Some (set_ram m2 (set_ram m1 s))"
        "freed ?b {page_no ?al (pde_paddr ?v)} m1 m2" by (simp only: mst_simps quiet_set_ram) blast
    note f2 = freed_trans [OF m1(2) m2(2)]
    from Suc.IH [of "set_ram m2 s" "pde + 4"] Suc.prems(1,2) k(3) freed_dir [OF f2 R(3)] obtain m3 where
      m3: "free_dir (pde + 4) n (set_ram m2 s) = Some (set_ram m3 (set_ram m2 s))"
        "freed ?b (dir_pages ?al (ram s) (pde + 4) n) m2 m3" by (simp only: mst_simps quiet_set_ram) blast
    have "free_dir pde (Suc n) s = Some (set_ram m3 s)" using True m1(1) m2(1) m3(1) v by (simp add: Let_def)
    moreover have "dir_pages ?al (ram s) pde (Suc n) = ?T \<union> {page_no ?al (pde_paddr ?v)} \<union> dir_pages ?al (ram s) (pde + 4) n"
      using True by (auto simp: dir_pages_Suc)
    ultimately show ?thesis using freed_trans [OF f2 m3(2)] by metis
  qed
qed

section \<open>The whole address space\<close>

definition uvm_pages :: "addr_alloc_t \<Rightarrow> mem \<Rightarrow> addr \<Rightarrow> int set" where
  "uvm_pages al m page_dir = insert (page_no al page_dir) (dir_pages al m (page_dir + 4 * 512) 512)"

text \<open>
  C35: \<open>memory_destroy_uvm\<close> gives back exactly the pages of an address space.  While nobody else uses the
  allocator and the tables do not overlap its bitmap, the call returns with the bits of the pages that
  the present entries of the user half map, of their tables and of the directory cleared, every other
  bit as it was, and no memory changed outside the bitmap; a null directory fails the assertion.
\<close>

theorem memory_destroy_uvm_frees:
  assumes "quiet s" and "bitmap_ok (abitmap (paddr_alloc s))"
    and "readable (bitmap_bytes (abitmap (paddr_alloc s))) (ram s) (page_dir + 4 * 512) 512"
    and "\<forall>k \<in> uvm_pages (paddr_alloc s) (ram s) page_dir. 0 \<le> k" and "page_dir \<noteq> 0"
  shows "memory_destroy_uvm 0 s = Some Panic \<and>
    (\<exists>m. memory_destroy_uvm page_dir s = Some (Done (set_ram m s)) \<and>
      (\<forall>j. 0 \<le> j \<and> j < bitcount (abitmap (paddr_alloc s)) \<longrightarrow>
        bitmap_get_bit (abitmap (paddr_alloc s)) j m =
          (if j \<in> uvm_pages (paddr_alloc s) (ram s) page_dir then Some 0
           else bitmap_get_bit (abitmap (paddr_alloc s)) j (ram s))) \<and>
      (\<forall>a. a \<notin> bitmap_bytes (abitmap (paddr_alloc s)) \<longrightarrow> m a = ram s a))"
proof -
  let ?al = "paddr_alloc s" and ?pde = "page_dir + 4 * 512"
  let ?b = "abitmap ?al"
  have half: "unat (pde_index MEMORY_TASK_BASE) = 512" by (simp add: pde_index_def MEMORY_TASK_BASE_def)
  have k: "\<forall>k \<in> dir_pages ?al (ram s) ?pde 512. 0 \<le> k" "0 \<le> page_no ?al page_dir" using assms(4) by (simp_all add: uvm_pages_def)
  from free_dir_frees [OF assms(1-3) k(1)] obtain m1 where
    m1: "free_dir ?pde 512 s = Some (set_ram m1 s)" "freed ?b (dir_pages ?al (ram s) ?pde 512) (ram s) m1" by blast
  from free_one [of "set_ram m1 s" page_dir] assms(1,2) k(2) obtain m2 where
    m2: "addr_free_page page_dir 1 (set_ram m1 s) = Some (set_ram m2 (set_ram m1 s))" "freed ?b {page_no ?al page_dir} m1 m2"
    by (simp only: mst_simps quiet_set_ram) blast
  have "memory_destroy_uvm page_dir s = Some (Done (set_ram m2 s))"
    using assms(5) m1(1) m2(1) half by (simp add: memory_destroy_uvm_def PDE_CNT_def)
  moreover have "freed ?b (uvm_pages ?al (ram s) page_dir) (ram s) m2"
    using freed_trans [OF m1(2) m2(2)] by (simp add: uvm_pages_def)
  then have "\<forall>j. 0 \<le> j \<and> j < bitcount ?b \<longrightarrow> bitmap_get_bit ?b j m2 =
      (if j \<in> uvm_pages ?al (ram s) page_dir then Some 0 else bitmap_get_bit ?b j (ram s))"
    and "\<forall>a. a \<notin> bitmap_bytes ?b \<longrightarrow> m2 a = ram s a" by (auto simp: freed_def bitmap_get_bit_eq)
  moreover have "memory_destroy_uvm 0 s = Some Panic" by (simp add: memory_destroy_uvm_def)
  ultimately show ?thesis by blast
qed

text \<open>A directory at 0x102000 whose first user entry has a table at 0x103000 that maps the page 0x104000.\<close>

definition sample_space :: mst where
  "sample_space = set_ram (store32 0x103000 0x104007 (store32 0x102800 0x103007 (write_bytes 0x10000 [0xFF, 0xFF] (\<lambda>_. 0)))) sample_mst"

lemma sample_entry:
  assumes "0x100000 \<le> x" and "x + 4 \<le> 2 ^ 32" and "4 dvd x"
  shows "load32 (ram sample_space) (of_nat x) =
    (if x = 0x103000 then 0x104007 else if x = 0x102800 then 0x103007 else 0)"
proof -
  let ?M = "write_bytes 0x10000 [0xFF, 0xFF] (\<lambda>_. 0) :: mem"
  have dis: "span (of_nat x) 4 \<inter> span (of_nat y) 4 = {}" if "x \<noteq> y" "4 dvd y" "y + 4 \<le> 2 ^ 32" for y
  proof -
    from assms(3) that(2) obtain a b where ab: "x = 4 * a" "y = 4 * b" by (elim dvdE)
    with that(1) have "x + 4 \<le> y \<or> y + 4 \<le> x" by auto
    then show ?thesis
      using span_of_nat_disjoint [of x 4 y 4] span_of_nat_disjoint [of y 4 x 4] that(3) assms(2) by blast
  qed
  have "span (of_nat 0x10000) 2 \<inter> span (of_nat x) 4 = {}" using assms by (intro span_of_nat_disjoint) simp_all
  moreover have "length [0xFF, 0xFF :: uint8_t] = 2" by simp
  ultimately have "a \<notin> span 0x10000 (length [0xFF, 0xFF :: uint8_t])" if "a \<in> span (of_nat x) 4" for a
    using that by (simp only: of_nat_numeral) blast
  then have "load32 ?M (of_nat x) = load32 (\<lambda>_. 0) (of_nat x)" by (intro load32_cong write_bytes_other) blast
  then have M: "load32 ?M (of_nat x) = 0" by (simp add: load32_def)
  have m: "ram sample_space = store32 0x103000 0x104007 (store32 0x102800 0x103007 ?M)" by (simp add: sample_space_def)
  have d: "x \<noteq> 0x103000 \<Longrightarrow> span (of_nat x) 4 \<inter> span 0x103000 4 = {}" "x \<noteq> 0x102800 \<Longrightarrow> span (of_nat x) 4 \<inter> span 0x102800 4 = {}"
    using dis [of "0x103000"] dis [of "0x102800"] by (simp_all del: span.simps)
  consider "x = 0x103000" | "x = 0x102800" | "x \<noteq> 0x103000" "x \<noteq> 0x102800" by blast
  then show ?thesis
  proof cases
    case 2
    with d(1) have "span 0x102800 4 \<inter> span 0x103000 4 = {}" by (simp del: span.simps)
    with 2 show ?thesis by (simp add: m load_store_other)
  qed (simp_all add: m M load_store_other [OF d(1)] load_store_other [OF d(2)] del: write_bytes.simps)
qed

lemma sample_space_facts:
  "quiet sample_space" "paddr_alloc sample_space = paddr_alloc sample_mst"
  by (simp_all add: sample_space_def)

lemma sample_table:
  "i < 1024 \<Longrightarrow> entry_at (ram sample_space) 0x103000 i = (if i = 0 then 0x104007 else 0)"
  "i < 512 \<Longrightarrow> entry_at (ram sample_space) 0x102800 i = (if i = 0 then 0x103007 else 0)"
  using sample_entry [of "0x103000 + 4 * i"] sample_entry [of "0x102800 + 4 * i"] by (simp_all add: entry_at_def)

lemma sample_pages: "uvm_pages (paddr_alloc sample_space) (ram sample_space) 0x102000 = {2, 3, 4}"
proof -
  let ?al = "paddr_alloc sample_space" and ?m = "ram sample_space"
  have p: "entry_present 0x103007" "entry_present 0x104007" "\<not> entry_present 0"
    "pde_paddr 0x103007 = 0x103000" "pte_paddr 0x104007 = 0x104000"
    by (simp_all add: entry_present_bit pde_paddr_shift pte_paddr_shift)
  have no: "page_no ?al 0x102000 = 2" "page_no ?al 0x103000 = 3" "page_no ?al 0x104000 = 4"
    by (simp_all add: page_no_def sample_space_facts)
  have e: "load32 ?m 0x103000 = 0x104007" "load32 ?m 0x102800 = 0x103007"
    using sample_table(1) [of 0] sample_table(2) [of 0] by simp_all
  have "{i. i < PTE_CNT \<and> entry_present (entry_at ?m 0x103000 i)} = {0}"
    using p e by (auto simp: PTE_CNT_def sample_table split: if_splits)
  then have "table_pages ?al ?m 0x103000 PTE_CNT = {4}" using p no e by (simp add: table_pages_def)
  moreover have "{i. i < 512 \<and> entry_present (entry_at ?m 0x102800 i)} = {0}"
    using p e by (auto simp: sample_table split: if_splits)
  ultimately show ?thesis using p no e by (simp add: uvm_pages_def dir_pages_def)
qed

lemma sample_readable:
  "readable (bitmap_bytes (abitmap (paddr_alloc sample_space))) (ram sample_space) (0x102000 + 4 * 512) 512"
proof -
  have "bitmap_bytes (abitmap (paddr_alloc sample_space)) \<subseteq> span (of_nat 0x10000) 2"
  proof
    fix a assume "a \<in> bitmap_bytes (abitmap (paddr_alloc sample_space))"
    then obtain j where j: "0 \<le> j" "j < 16" "a = 0x10000 + word_of_int (j div 8)"
      by (auto simp: bitmap_bytes_def sample_space_facts)
    then have "j div 8 = 0 \<or> j div 8 = 1" by auto
    with j(3) show "a \<in> span (of_nat 0x10000) 2" by (auto simp: numeral_2_eq_2)
  qed
  note sub = this
  have out: "outside (bitmap_bytes (abitmap (paddr_alloc sample_space))) (of_nat x) n"
    if "0x100000 \<le> x" "x + 4 * n < 2 ^ 30" for x n
    unfolding outside_def
  proof (intro allI impI)
    fix i assume "i < n"
    then have "span (of_nat 0x10000) 2 \<inter> span (of_nat (x + 4 * i)) 4 = {}"
      using that by (intro span_of_nat_disjoint) simp_all
    moreover have "of_nat (x + 4 * i) = (of_nat x :: addr) + 4 * of_nat i" by simp
    ultimately show "span (of_nat x + 4 * of_nat i) 4 \<inter> bitmap_bytes (abitmap (paddr_alloc sample_space)) = {}"
      using sub by (simp only:) blast
  qed
  have p: "\<not> entry_present 0" "pde_paddr 0x103007 = 0x103000"
    by (simp_all add: entry_present_bit pde_paddr_shift)
  have tab: "outside (bitmap_bytes (abitmap (paddr_alloc sample_space))) 0x103000 PTE_CNT"
    "outside (bitmap_bytes (abitmap (paddr_alloc sample_space))) 0x102800 512"
    using out [of "0x103000" 1024] out [of "0x102800" 512] by (simp_all add: PTE_CNT_def)
  have "outside (bitmap_bytes (abitmap (paddr_alloc sample_space))) (pde_paddr (entry_at (ram sample_space) 0x102800 i)) PTE_CNT"
    if "i < 512" "entry_present (entry_at (ram sample_space) 0x102800 i)" for i
  proof (cases "i = 0")
    case True
    then show ?thesis using sample_table(2) [OF that(1)] tab(1) p(2) by (simp only: simp_thms if_True)
  next
    case False
    then show ?thesis using sample_table(2) [OF that(1)] that(2) p(1) by (simp only: simp_thms if_False)
  qed
  moreover have "(0x102000 + 4 * 512 :: addr) = 0x102800" by simp
  ultimately show ?thesis using tab(2) by (simp only: readable_def) blast
qed

theorem memory_destroy_uvm_frees_witness:
  "\<exists>m. memory_destroy_uvm 0x102000 sample_space = Some (Done (set_ram m sample_space)) \<and>
     bitmap_get_bit \<lparr>bitcount = 16, bits = 0x10000\<rparr> 4 m = Some 0 \<and> bitmap_get_bit \<lparr>bitcount = 16, bits = 0x10000\<rparr> 5 m = Some 1"
proof -
  let ?b = "\<lparr>bitcount = 16, bits = 0x10000\<rparr>"
  have "bitmap_get_bit ?b 5 (ram sample_space) = Some 1"
    by (simp add: bitmap_get_bit_eq bit_of_def sample_space_def store32_def word_bytes_def)
  moreover have b: "abitmap (paddr_alloc sample_space) = ?b" by (simp add: sample_space_facts)
  moreover have "bitmap_ok ?b" by (simp add: bitmap_ok_def)
  ultimately show ?thesis
    using memory_destroy_uvm_frees [OF sample_space_facts(1) _ sample_readable, unfolded sample_pages b] by auto
qed

end
