(* ===== verification/Spec2Isabelle.thy ===== *)
theory Spec2Isabelle
  imports Power_On Address_Space
begin

text \<open>
  Verification of a small x86 kernel and its loader.

  \<^bold>\<open>The program.\<close>  \<open>src/source\<close> holds three programs that run one after the other.  The boot sector
  (\<open>boot/boot.c\<close>) jumps to the loader.  The loader (\<open>loader/loader_16.c\<close>, \<open>loader/loader_32.c\<close>) asks the
  BIOS for the memory map, enters protected mode, reads the kernel from disk, places the segments of its
  ELF image, turns paging on and jumps to the kernel with the boot information.  The kernel
  (\<open>kernel/\<close>) sets up its descriptor tables, a page allocator, the serial log, the interrupt controllers,
  the timer and the task manager, and then runs tasks: a timer interrupt counts down time slices and
  sleep times, tasks yield, sleep, and synchronise through mutexes and semaphores, and the scheduler
  switches between them by jumping to the task-state segment of the next one.  Every list of tasks is an
  intrusive doubly linked list.  The log is shared by all of them and protected by a mutex.

  \<^bold>\<open>How code is modelled.\<close>  Unsigned C integers are words of their width, a C \<open>int\<close> is an \<open>int\<close>, truncating
  division is \<open>sdiv\<close> and \<open>smod\<close>.  Structures are records, with the members in the order of the source.
  Byte memory (\<open>mem\<close>) holds strings, message buffers, bitmaps, page tables and the ELF image; list nodes are
  a heap from addresses to pairs of links, because the kernel moves one node between lists; tasks,
  mutexes and semaphores are maps from their address or name.  Undefined results (a negative shift, a
  function that falls off its end) and loops that do not end are \<open>None\<close>.  A call that may switch tasks cuts
  the function in which it stands: what is left to do is a \<open>frame\<close> (\<open>Kernel_State\<close>) on the stack of the
  running task, a task switch exchanges the stacks, and \<open>run_piece\<close> (\<open>Kernel_Machine\<close>) says what each frame
  does.  Interrupts are possible between any two pieces while the interrupt flag is set.

  \<^bold>\<open>The theories\<close>, from the bottom, with the sources they model:
  \<^item> \<open>Prelude\<close>: machine types, list and word lemmas.  \<open>Interfaces\<close>: the contracts \<open>polling\<close> (a loop on a status
    register) and \<open>invariant_system\<close>.  \<open>Node_Queue\<close>: the contract \<open>node_queue\<close> of an intrusive list towards
    the scheduler and the synchronisation objects.
  \<^item> \<open>Klist\<close> (\<open>tools/list.c\<close>, \<open>list.h\<close>): the list operations; they implement insertion and removal on
    sequences, and interpret \<open>node_queue\<close>.
  \<^item> \<open>Cpu_Instr\<close> (\<open>comm/cpu_instr.h\<close>), \<open>Cpu_Desc\<close> (\<open>cpu/cpu.c\<close>, \<open>cpu.h\<close>), \<open>Irq\<close> (\<open>cpu/irq.c\<close>, \<open>irq.h\<close>): registers and
    ports, packed descriptors and their round trip, the interrupt table against the processor's vectors, and
    the controllers; protected sections, nested in any way, interpret the contract \<open>critical_section\<close>.
  \<^item> \<open>Byte_Mem\<close>, \<open>Klib\<close>, \<open>Klib_Props\<close> (\<open>tools/klib.c\<close>, \<open>klib.h\<close>): strings and memory ranges, number printing,
    formatting; \<open>kernel_vsprintf\<close> against a recursive specification of the text.
  \<^item> \<open>Kernel_State\<close>, \<open>Kernel_Queues\<close>, \<open>Task\<close>, \<open>Scheduler_Props\<close> (\<open>core/task.c\<close>, \<open>task.h\<close>): the state of the kernel,
    its family of queues as sequences of tasks, and the scheduler with its invariant \<open>sched_inv\<close>: the queues
    are disjoint and well formed, descriptors and task register agree with the tasks, and the head of
    the ready queue runs.
  \<^item> \<open>Ipc\<close>, \<open>Ipc_Props\<close> (\<open>ipc/mutex.c\<close>, \<open>ipc/sem.c\<close>): mutexes and semaphores refine an abstract reentrant FIFO
    lock (\<open>alock\<close>) and an abstract counting semaphore (\<open>asem\<close>); the waiters of a semaphore are served in order.
  \<^item> \<open>Log\<close> (\<open>tools/log.c\<close>), \<open>Timer\<close> (\<open>dev/time.c\<close>), \<open>Bitmap\<close> (\<open>tools/bitmap.c\<close>, interpreting \<open>bit_store\<close>), \<open>Mmu\<close>
    (\<open>cpu/mmu.h\<close>), \<open>Boot_Info\<close> (\<open>comm/boot_info.h\<close>), \<open>Memory\<close>, \<open>Memory_Init\<close> and
    \<open>Address_Space\<close> (\<open>core/memory.c\<close>): the log, the timer, and the page allocator with mappings and address
    spaces; \<open>Memory_Init\<close> is \<open>memory_init\<close> with its messages, \<open>Address_Space\<close> shows which pages the end of an
    address space gives back, \<open>Kernel_Table\<close> which entries the rows of the kernel's own page table get.
    \<open>Translation\<close> defines what the processor makes of the tables (\<open>translate\<close>) and shows the views of memory
    that the loader and \<open>memory_create_uvm\<close> set up, and what is left when \<open>create_kernel_table\<close> fails.
  \<^item> \<open>Task_Create\<close>, \<open>Task_Create_Props\<close> (\<open>tss_init\<close>, \<open>task_init\<close> and their callers in \<open>core/task.c\<close>,
    \<open>gdt_alloc_desc\<close> and \<open>cpu_init\<close> in \<open>cpu/cpu.c\<close>, \<open>panic\<close> in \<open>klib.c\<close>): creation of tasks, piece by piece.
  \<^item> \<open>Kernel_Machine\<close>: the step relation \<open>kstep\<close> of the whole kernel (a piece of code, a timer interrupt, a
    call of a task) and the invariant \<open>kernel_inv\<close> of all reachable states; mutual exclusion on the
    serial port, and that no piece gets stuck.  The log sends one byte per piece.  \<open>Kernel_Run\<close>:
    uninterrupted runs, \<open>finish\<close> for code that runs to its end, and that paging is never switched.  \<open>Ticks\<close>: what a timer
    interrupt does to a task in its own code, and the end of a time slice, also in the middle of a message.
  \<^item> \<open>Exceptions\<close> (the handlers of \<open>cpu/irq.c\<close>, \<open>panic\<close> of \<open>tools/klib.c\<close>): the report of an exception and of a
    failed assertion, end to end, and the \<open>hlt\<close> loop behind it, which goes on with timer interrupts
    if the interrupt flag is set.  \<open>Boot\<close> (\<open>init/init.c\<close>): what \<open>kernel_init\<close> sends to the devices and leaves, and
    that \<open>init_main\<close> establishes \<open>kernel_inv\<close>.
  \<^item> \<open>First_Task\<close> (\<open>init/first_task.c\<close>, \<open>idle_task_entry\<close> of \<open>core/task.c\<close>, \<open>init_task_entry\<close> of \<open>init/init.c\<close>): the
    code of the tasks, for a task that runs it with paging off.  A run is a sequence of steps of the
    running task, the idle task waits for the timer, and the phases \<open>dozing\<close> and \<open>awake\<close> of the task
    alternate, which gives the output for every number of rounds.
  \<^item> \<open>Loader\<close>, \<open>Loader_Elf\<close> (\<open>boot/boot.c\<close>, \<open>loader/\<close>, \<open>comm/elf.h\<close>): memory detection, disk reads, ELF loading, paging.
    \<open>Power_On\<close>: the whole chain on one memory, from the loader over \<open>kernel_init\<close> to the end of \<open>init_main\<close>.
  \<^item> \<open>Sample_State\<close>: a concrete kernel state with ready, sleeping and blocked tasks, for the witnesses.

  \<^bold>\<open>Parameters.\<close>  \<open>find_pte\<close> and \<open>creat_kernel_tables\<close> are called by \<open>memory.c\<close> and defined nowhere; the BIOS, the
  disk (\<open>status\<close>, \<open>data\<close>), the line status register (\<open>lsr\<close>), and the addresses that the linker or the
  compiler chooses (\<open>image\<close>, \<open>buf\<close>, \<open>lit\<close>, \<open>assert_site\<close>) are arguments too.  What is assumed of each stands in
  the hypotheses of the theorems: a device becomes ready again and again, \<open>creat_kernel_tables\<close> changes
  memory, at given places, and the page directory register only; \<open>power_layout\<close> says where the strings lie in
  memory.  The lemmas of \<open>Kernel_Table\<close> assume that \<open>find_pte\<close> gives distinct pages distinct entries
  (\<open>find_pte_ok\<close>); no numbered property rests on that.

  \<^bold>\<open>Loops.\<close>  Loops with a decreasing quantity are total functions with termination proofs; the waiting
  loops, the walk of the sleep list and the loops of \<open>klib.c\<close> are \<open>partial_function (option)\<close>, and the
  theorems state that they return.  The only counted loop is that of \<open>detect_memory\<close>, ten rounds as in the
  source.  No fuel is used.

  \<^bold>\<open>Not modelled.\<close>  The assembly files; \<open>move_to_first_task\<close>, which does not compile.  At the end of \<open>init_main\<close>
  the first task is current with the entry 0 and the page directory 0: nothing in the sources makes it
  run \<open>first_task_main\<close>, and with paging on, as the loader leaves it, the processor would look up every
  address in the page at 0 (\<open>Power_On\<close>).  What tasks do from there on is shown for the code as written:
  \<open>kstep\<close> for arbitrary tasks, \<open>First_Task\<close> for the loops in the sources, with paging off; memory is addressed
  physically, as it is under the loader's identity mapping or without paging.  \<open>first_task.c\<close> includes
  headers that the repository does not have; the functions it calls are taken as those of the kernel.
  Also left out are the busy bit of a task-state segment and the registers other than flags and page
  directory across a switch: the model of a task between two of its calls has no other registers, its
  frames stand for them.  Calls of the log inside \<open>bitmap.c\<close> and \<open>addr_alloc_page\<close> are recorded in the order
  of their execution (\<open>alog\<close>) and not sent; a page is allocated or freed only while no other task holds
  the allocator's mutex.  All mutexes are in one map, also the member \<open>mutex\<close> of \<open>addr_alloc_t\<close>: there is one
  allocator, and its mutex is \<open>paddr_mutex\<close>.  Aliasing between the byte memory and the records (a task's name is
  in memory, its other members are not) is excluded by construction.
\<close>

end
